(* ===== verification/Prelude.thy ===== *)
theory Prelude
  imports Main "HOL-Library.Word"
begin

text \<open>
  Shared vocabulary of the development.

  \<^item> machine integers: Rust's \<open>u8\<close> to \<open>u128\<close> and \<open>i32\<close>/\<open>i64\<close> are words of that width
    (a signed value is read with \<open>sint\<close>); \<open>usize\<close> values that count elements of
    in-memory buffers are \<open>nat\<close>;
  \<^item> \<open>String\<close>/\<open>&str\<close> is Isabelle's \<open>string\<close>, whose characters are the bytes of the
    UTF-8 representation, which is exactly what a Rust string stores;
  \<^item> \<open>Result<T, E>\<close> is \<open>'e + 't\<close>, read through \<open>Ok\<close> and \<open>Err\<close> and sequenced by
    \<open>rbind\<close>, the model of the \<open>?\<close> operator;
  \<^item> a decoder over \<open>&mut &[u8]\<close> is a function from the remaining bytes to either an
    error or a value with the bytes that are left.

  The theory also holds the byte-order conversions of the standard library, the locale
  of lossless codecs every wire type is shown to satisfy, and the generic facts on
  words, lists and maps the components share.
\<close>

unbundle bit_operations_syntax

type_synonym u8 = "8 word"
type_synonym u16 = "16 word"
type_synonym u32 = "32 word"
type_synonym u64 = "64 word"
type_synonym u128 = "128 word"
type_synonym i32 = "32 word"
type_synonym i64 = "64 word"
type_synonym bytes = "u8 list"

named_theorems codec_defs \<open>definitions of encoders and decoders\<close>
named_theorems codec_rt \<open>round-trip facts of decoders, as rewrite rules\<close>

section \<open>Results\<close>

abbreviation Ok :: "'a \<Rightarrow> 'e + 'a" where "Ok \<equiv> Inr"
abbreviation Err :: "'e \<Rightarrow> 'e + 'a" where "Err \<equiv> Inl"

definition rbind :: "'e + 'a \<Rightarrow> ('a \<Rightarrow> 'e + 'b) \<Rightarrow> 'e + 'b" where
  "rbind m f = (case m of Inl e \<Rightarrow> Inl e | Inr a \<Rightarrow> f a)"

definition rmap :: "('a \<Rightarrow> 'b) \<Rightarrow> 'e + 'a \<Rightarrow> 'e + 'b" where
  "rmap f m = (case m of Inl e \<Rightarrow> Inl e | Inr a \<Rightarrow> Inr (f a))"

lemma rbind_simps [simp]: "rbind (Ok a) f = f a" "rbind (Err e) f = Err e"
  by (simp_all add: rbind_def)

lemma rmap_simps [simp]: "rmap f (Ok a) = Ok (f a)" "rmap f (Err e) = Err e"
  by (simp_all add: rmap_def)

lemma rbind_eq_Ok: "rbind m f = Ok b \<longleftrightarrow> (\<exists>a. m = Ok a \<and> f a = Ok b)"
  by (cases m) auto

lemma rbind_eq_Err: "rbind m f = Err e \<longleftrightarrow> m = Err e \<or> (\<exists>a. m = Ok a \<and> f a = Err e)"
  by (cases m) auto

lemma rmap_eq_Ok: "rmap f m = Ok b \<longleftrightarrow> (\<exists>a. m = Ok a \<and> b = f a)"
  by (cases m) auto

lemma rbind_assoc: "rbind (rbind m f) g = rbind m (\<lambda>a. rbind (f a) g)"
  by (cases m) auto

lemma rbind_split:
  "P (rbind m f) \<longleftrightarrow> (\<forall>e. m = Err e \<longrightarrow> P (Err e)) \<and> (\<forall>a. m = Ok a \<longrightarrow> P (f a))"
  by (cases m) auto

section \<open>Lists\<close>

lemma replicate_numeral [simp]: "replicate (numeral k) x = x # replicate (pred_numeral k) x"
  by (simp add: numeral_eq_Suc)

section \<open>Byte order\<close>

text \<open>\<open>to_le_bytes\<close>, \<open>to_be_bytes\<close> and \<open>from_be_bytes\<close> for an integer of \<open>n\<close> bytes.\<close>

primrec le_bytes :: "nat \<Rightarrow> 'a::len word \<Rightarrow> bytes" where
  "le_bytes 0 w = []"
| "le_bytes (Suc n) w = ucast w # le_bytes n (drop_bit 8 w)"

primrec from_le_bytes :: "bytes \<Rightarrow> 'a::len word" where
  "from_le_bytes [] = 0"
| "from_le_bytes (b # bs) = ucast b OR push_bit 8 (from_le_bytes bs)"

definition be_bytes :: "nat \<Rightarrow> 'a::len word \<Rightarrow> bytes" where
  "be_bytes n w = rev (le_bytes n w)"

definition from_be_bytes :: "bytes \<Rightarrow> 'a::len word" where
  "from_be_bytes bs = from_le_bytes (rev bs)"

lemma length_le_bytes [simp]: "length (le_bytes n w) = n"
  by (induction n arbitrary: w) auto

lemma length_be_bytes [simp]: "length (be_bytes n w) = n"
  by (simp add: be_bytes_def)

lemma le_bytes_nth:
  "i < n \<Longrightarrow> le_bytes n w ! i = ucast (drop_bit (8 * i) w)"
proof (induction n arbitrary: i w)
  case (Suc n)
  show ?case
  proof (cases i)
    case (Suc j)
    with Suc.prems Suc.IH [of j "drop_bit 8 w"] show ?thesis by (simp add: add.commute)
  qed simp
qed simp

lemma from_le_le_bytes: "from_le_bytes (le_bytes n w) = take_bit (8 * n) (w :: 'a::len word)"
proof (induction n arbitrary: w)
  case (Suc n)
  show ?case
    by (rule bit_word_eqI) (auto simp: Suc.IH bit_simps)
qed simp

lemma le_from_le_bytes:
  assumes "8 * length bs \<le> LENGTH('a::len)"
  shows "le_bytes (length bs) (from_le_bytes bs :: 'a word) = bs"
  using assms
proof (induction bs)
  case (Cons b bs)
  have lo: "ucast (from_le_bytes (b # bs) :: 'a word) = b"
    using Cons.prems by (intro bit_word_eqI) (auto simp: bit_simps)
  have hi: "drop_bit 8 (from_le_bytes (b # bs) :: 'a word) = take_bit (LENGTH('a) - 8) (from_le_bytes bs)"
    using Cons.prems by (intro bit_word_eqI) (auto simp: bit_simps dest: bit_imp_le_length)
  have small: "take_bit (LENGTH('a) - 8) (from_le_bytes bs :: 'a word) = from_le_bytes bs"
  proof -
    have "from_le_bytes bs = (take_bit (8 * length bs) (from_le_bytes bs) :: 'a word)"
      using Cons from_le_le_bytes [of "length bs" "from_le_bytes bs :: 'a word"] by simp
    moreover have "8 * length bs \<le> LENGTH('a) - 8" using Cons.prems by simp
    ultimately show ?thesis by (metis min.absorb2 take_bit_take_bit)
  qed
  show ?case using Cons lo hi small by simp
qed simp

lemma from_be_be_bytes: "LENGTH('a::len) = 8 * n \<Longrightarrow> from_be_bytes (be_bytes n w) = (w :: 'a word)"
  by (metis from_be_bytes_def be_bytes_def from_le_le_bytes rev_rev_ident take_bit_length_eq)

lemma be_from_be_bytes:
  "LENGTH('a::len) = 8 * length bs \<Longrightarrow> be_bytes (length bs) (from_be_bytes bs :: 'a word) = bs"
  using le_from_le_bytes [of "rev bs", where 'a = 'a] by (simp add: from_be_bytes_def be_bytes_def)

section \<open>Counting leading zeros\<close>

text \<open>\<open>leading_zeros\<close> of the integer types: the zero bits above the highest set one.\<close>

definition leading_zeros :: "'a::len word \<Rightarrow> nat" where
  "leading_zeros w = length (takeWhile Not (rev (map (bit w) [0..<LENGTH('a)])))"

lemma takeWhile_Not_replicate: "takeWhile Not (replicate m False @ True # xs) = replicate m False"
  by (induction m) auto

lemma leading_zeros_zero [simp]: "leading_zeros (0 :: 'a::len word) = LENGTH('a)"
proof -
  have "takeWhile Not (rev (map (bit (0 :: 'a word)) [0..<LENGTH('a)])) = rev (map (bit (0 :: 'a word)) [0..<LENGTH('a)])"
    by (rule takeWhile_eq_all_conv [THEN iffD2]) auto
  then show ?thesis by (simp only: leading_zeros_def) simp
qed

lemma leading_zeros_top:
  fixes w :: "'a::len word"
  assumes "bit w k" and "\<And>j. k < j \<Longrightarrow> \<not> bit w j"
  shows "leading_zeros w = LENGTH('a) - Suc k"
proof -
  have k: "k < LENGTH('a)" using assms(1) by (rule bit_imp_le_length)
  then have split: "[0..<LENGTH('a)] = [0..<k] @ k # [Suc k..<LENGTH('a)]"
    by (metis le_add1 less_imp_le upt_add_eq_append upt_conv_Cons le_Suc_ex add_0)
  have "map (bit w) [Suc k..<LENGTH('a)] = replicate (LENGTH('a) - Suc k) False"
    using assms(2) by (intro replicate_eqI) auto
  then have "rev (map (bit w) [0..<LENGTH('a)])
      = replicate (LENGTH('a) - Suc k) False @ True # rev (map (bit w) [0..<k])"
    using assms(1) by (simp add: split)
  then show ?thesis by (simp add: leading_zeros_def takeWhile_Not_replicate)
qed

lemma leading_zeros_bounds:
  fixes w :: "'a::len word"
  assumes "2 ^ k \<le> unat w" and "unat w < 2 ^ Suc m"
  shows "LENGTH('a) - Suc m \<le> leading_zeros w" and "leading_zeros w \<le> LENGTH('a) - Suc k"
proof -
  have "w \<noteq> 0" using assms(1) by auto
  then obtain i where i: "bit w i" by (metis bit_0_eq bot_apply bit_eq_iff bot_bool_def)
  define t where "t = Max {j. bit w j}"
  have fin: "finite {j. bit w j}"
    by (rule finite_subset [of _ "{..<LENGTH('a)}"]) (auto dest: bit_imp_le_length)
  then have t: "bit w t" "\<And>j. t < j \<Longrightarrow> \<not> bit w j"
    using i Max_in [OF fin] Max_ge [OF fin] unfolding t_def by fastforce+
  have lz: "leading_zeros w = LENGTH('a) - Suc t" using t by (rule leading_zeros_top)
  have "t \<le> m"
  proof (rule ccontr)
    assume "\<not> t \<le> m"
    then have "take_bit (Suc m) (unat w) = unat w" "\<not> t < Suc m"
      using assms(2) by (simp_all add: take_bit_nat_eq_self)
    moreover have "bit (unat w) t" using t(1) by (simp add: bit_unsigned_iff)
    ultimately show False by (metis bit_take_bit_iff)
  qed
  moreover have "k \<le> t"
  proof (rule ccontr)
    assume "\<not> k \<le> t"
    have "take_bit k (unat w) = unat w"
    proof (rule bit_eqI)
      fix j show "bit (take_bit k (unat w)) j = bit (unat w) j"
        using t(2) [of j] \<open>\<not> k \<le> t\<close> by (cases "t < j") (auto simp: bit_simps)
    qed
    then have "unat w < 2 ^ k" by (metis take_bit_nat_less_exp)
    then show False using assms(1) by simp
  qed
  ultimately show "LENGTH('a) - Suc m \<le> leading_zeros w" "leading_zeros w \<le> LENGTH('a) - Suc k"
    by (simp_all add: lz)
qed

section \<open>Decoders and lossless codecs\<close>

text \<open>
  Decoding threads the unread bytes; \<open>dbind\<close> is one \<open>?\<close>-terminated decoding step
  followed by the rest of the function.
\<close>

definition dbind :: "'e + ('a \<times> bytes) \<Rightarrow> ('a \<Rightarrow> bytes \<Rightarrow> 'e + 'b) \<Rightarrow> 'e + 'b" where
  "dbind m f = (case m of Inl e \<Rightarrow> Inl e | Inr (a, r) \<Rightarrow> f a r)"

lemma dbind_simps [simp]: "dbind (Ok (a, r)) f = f a r" "dbind (Err e) f = Err e"
  by (simp_all add: dbind_def)

lemma dbind_eq_Ok: "dbind m f = Ok b \<longleftrightarrow> (\<exists>a r. m = Ok (a, r) \<and> f a r = Ok b)"
  by (auto simp: dbind_def split: sum.splits prod.splits)

text \<open>A counted loop of decodes, and the writes that match it.\<close>

primrec decode_seq :: "(bytes \<Rightarrow> 'e + ('a \<times> bytes)) \<Rightarrow> nat \<Rightarrow> bytes \<Rightarrow> 'e + ('a list \<times> bytes)" where
  "decode_seq dec 0 r = Ok ([], r)"
| "decode_seq dec (Suc n) r =
     dbind (dec r) (\<lambda>x r. dbind (decode_seq dec n r) (\<lambda>xs r. Ok (x # xs, r)))"

primrec encode_seq :: "('a \<Rightarrow> 'e + bytes) \<Rightarrow> 'a list \<Rightarrow> 'e + bytes" where
  "encode_seq enc [] = Ok []"
| "encode_seq enc (x # xs) = rbind (enc x) (\<lambda>b. rbind (encode_seq enc xs) (\<lambda>bs. Ok (b @ bs)))"

text \<open>
  The contract every wire type promises: what the encoder writes, the decoder reads back
  and leaves exactly the bytes that followed. \<open>valid\<close> is the type's own invariant.
\<close>

locale lossless_codec =
  fixes enc :: "'a \<Rightarrow> 'e + bytes"
    and dec :: "bytes \<Rightarrow> 'e + ('a \<times> bytes)"
    and valid :: "'a \<Rightarrow> bool"
  assumes dec_enc: "valid x \<Longrightarrow> enc x = Ok bs \<Longrightarrow> dec (bs @ r) = Ok (x, r)"
begin

lemma dec_enc_exact: "valid x \<Longrightarrow> enc x = Ok bs \<Longrightarrow> dec bs = Ok (x, [])"
  using dec_enc [of x bs "[]"] by simp

lemma enc_prefix_free:
  assumes "valid x" "valid y" "enc x = Ok bs" "enc y = Ok cs" "bs @ r = cs @ s"
  shows "x = y \<and> r = s"
  using dec_enc [OF assms(1,3), of r] dec_enc [OF assms(2,4), of s] assms(5) by simp

lemma enc_inj:
  assumes "valid x" "valid y" "enc x = Ok bs" "enc y = Ok bs"
  shows "x = y"
  using enc_prefix_free [OF assms, of "[]" "[]"] by simp

lemma seq_dec_enc:
  "(\<And>x. x \<in> set xs \<Longrightarrow> valid x) \<Longrightarrow> encode_seq enc xs = Ok bs \<Longrightarrow>
     decode_seq dec (length xs) (bs @ r) = Ok (xs, r)"
proof (induction xs arbitrary: bs)
  case (Cons x xs)
  from Cons.prems(2) obtain b cs where b: "enc x = Ok b" "encode_seq enc xs = Ok cs" "bs = b @ cs"
    by (auto simp: rbind_eq_Ok)
  have "decode_seq dec (length xs) (cs @ r) = Ok (xs, r)"
    using Cons.IH [OF _ b(2)] Cons.prems(1) by simp
  moreover have "dec (b @ cs @ r) = Ok (x, cs @ r)"
    using dec_enc b(1) Cons.prems(1) by simp
  ultimately show ?case by (simp add: b(3))
qed simp

end

text \<open>
  A packet body is the whole of a buffer, so the contract of a packet type, some of which
  read \<open>the rest\<close>, is weaker: the decoder reads back exactly what was written.
\<close>

locale packet_codec =
  fixes enc :: "'a \<Rightarrow> 'e + bytes" and dec :: "bytes \<Rightarrow> 'e + ('a \<times> bytes)" and valid :: "'a \<Rightarrow> bool"
  assumes dec_enc_body: "valid v \<Longrightarrow> enc v = Ok bs \<Longrightarrow> dec bs = Ok (v, [])"
begin

lemma body_inj: "valid v \<Longrightarrow> valid w \<Longrightarrow> enc v = Ok bs \<Longrightarrow> enc w = Ok bs \<Longrightarrow> v = w"
  using dec_enc_body [of v bs] dec_enc_body [of w bs] by simp

end

sublocale lossless_codec \<subseteq> packet_codec
  by unfold_locales (use dec_enc [where r = "[]"] in simp)

section \<open>Numbers as text\<close>

text \<open>Rust's \<open>Display\<close> of an integer.\<close>

fun show_nat :: "nat \<Rightarrow> string" where
  "show_nat n = (if n < 10 then [char_of (48 + n)] else show_nat (n div 10) @ [char_of (48 + n mod 10)])"

declare show_nat.simps [simp del]

definition show_int :: "int \<Rightarrow> string" where
  "show_int i = (if i < 0 then ''-'' @ show_nat (nat (- i)) else show_nat (nat i))"

end
