(* ===== verification/Varint.thy ===== *)
theory Varint
  imports Prelude
begin

text \<open>
  Variable-length integers (\<open>codec/varint.rs\<close>, \<open>codec/varlong.rs\<close>, the reader macro of
  \<open>codec/types.rs\<close>) and the protocol error type (\<open>error.rs\<close>).

  The reference is the LEB128 code of an unbounded natural, \<open>leb128\<close>. The branchless
  \<open>VarInt\<close> encoder, the looping \<open>VarLong\<close> encoder, the O(1) size computations and all
  decoders are related to it.
\<close>

section \<open>Protocol errors\<close>

datatype io_error_kind =
    WouldBlock | UnexpectedEof | NotFound | ConnectionReset | BrokenPipe | ConnectionAborted | TimedOut | OtherIo

datatype protocol_error =
    Incomplete string
  | Invalid string
  | TooLarge nat nat
  | Io io_error_kind

definition is_incomplete :: "protocol_error \<Rightarrow> bool" where
  "is_incomplete e = (case e of Incomplete _ \<Rightarrow> True | _ \<Rightarrow> False)"

definition is_fatal :: "protocol_error \<Rightarrow> bool" where
  "is_fatal e = (case e of
     Incomplete _ \<Rightarrow> False
   | Invalid _ \<Rightarrow> True
   | TooLarge _ _ \<Rightarrow> True
   | Io k \<Rightarrow> \<not> (k = WouldBlock \<or> k = UnexpectedEof))"

section \<open>VarInt\<close>

definition VARINT_MAX_SIZE :: nat where "VARINT_MAX_SIZE = 5"

datatype varint_decode_status = StatusIncomplete | StatusTooLarge

definition varint_written_size :: "i32 \<Rightarrow> nat" where
  "varint_written_size v = (if v = 0 then 1 else (31 - leading_zeros v) div 7 + 1)"

text \<open>
  The branchless encoder. \<open>self.0 as u64\<close> sign-extends; the shifts of the mask and of the
  unused-byte count are Rust's \<open>>>\<close> on unsigned values.
\<close>

definition varint_encode :: "i32 \<Rightarrow> bytes" where
  "varint_encode v =
     (let x = (scast v :: u64);
          stage1 = (x AND 0x7f)
            OR push_bit 1 (x AND 0x3f80)
            OR push_bit 2 (x AND 0x001fc000)
            OR push_bit 3 (x AND 0x0fe00000)
            OR push_bit 4 (x AND 0xf0000000);
          leading = leading_zeros stage1;
          unused_bytes = drop_bit 3 (leading - 1);
          bytes_needed = 8 - unused_bytes;
          msbs = 0x8080808080808080;
          msbmask = drop_bit (8 * (8 - bytes_needed + 1) - 1) 0xffffffffffffffff;
          merged = stage1 OR (msbs AND msbmask)
      in take bytes_needed (le_bytes 8 merged))"

text \<open>
  One loop serves \<open>VarInt::decode\<close>, \<open>VarLong::decode\<close> and the two readers generated by
  \<open>impl_var_reader!\<close>: they differ in width, in the byte limit and in the errors.
\<close>

primrec var_decode_loop ::
  "protocol_error \<Rightarrow> protocol_error \<Rightarrow> nat \<Rightarrow> nat \<Rightarrow> 'a::len word \<Rightarrow> bytes \<Rightarrow> protocol_error + ('a word \<times> bytes)" where
  "var_decode_loop eof big mx i val [] = (if i \<ge> mx then Err big else Err eof)"
| "var_decode_loop eof big mx i val (byte # r) =
     (if i \<ge> mx then Err big
      else let val = val OR push_bit (i * 7) (ucast byte AND 0x7F)
           in if byte AND 0x80 = 0 then Ok (val, r)
              else var_decode_loop eof big mx (Suc i) val r)"

definition varint_decode :: "bytes \<Rightarrow> protocol_error + (i32 \<times> bytes)" where
  "varint_decode r = var_decode_loop (Incomplete ''VarInt'') (Invalid ''VarInt too large (> 5 bytes)'')
     VARINT_MAX_SIZE 0 0 r"

definition read_varint_from_reader :: "bytes \<Rightarrow> protocol_error + (i32 \<times> bytes)" where
  "read_varint_from_reader r = var_decode_loop (Io UnexpectedEof) (Invalid ''VarInt too large (> 5 bytes)'')
     VARINT_MAX_SIZE 0 0 r"

text \<open>The non-consuming variant indexes the buffer.\<close>

function varint_decode_partial_loop ::
  "nat \<Rightarrow> i32 \<Rightarrow> bytes \<Rightarrow> varint_decode_status + (i32 \<times> nat)" where
  "varint_decode_partial_loop i val buf =
     (if i \<ge> VARINT_MAX_SIZE then Err StatusTooLarge
      else if i \<ge> length buf then Err StatusIncomplete
      else let byte = buf ! i;
               val = val OR push_bit (i * 7) (ucast byte AND 0x7F)
           in if byte AND 0x80 = 0 then Ok (val, i + 1)
              else varint_decode_partial_loop (Suc i) val buf)"
  by pat_completeness auto
termination
  by (relation "measure (\<lambda>(i, _). VARINT_MAX_SIZE - i)") auto

declare varint_decode_partial_loop.simps [simp del]

definition varint_decode_partial :: "bytes \<Rightarrow> varint_decode_status + (i32 \<times> nat)" where
  "varint_decode_partial buf = varint_decode_partial_loop 0 0 buf"

section \<open>VarLong\<close>

definition VARLONG_MAX_SIZE :: nat where "VARLONG_MAX_SIZE = 10"

definition varlong_written_size :: "i64 \<Rightarrow> nat" where
  "varlong_written_size v = (if v = 0 then 1 else (63 - leading_zeros v) div 7 + 1)"

function varlong_encode_loop :: "u64 \<Rightarrow> bytes" where
  "varlong_encode_loop val =
     (let byte = (ucast (val AND 0x7F) :: u8);
          val = drop_bit 7 val
      in if val = 0 then [byte] else (byte OR 0x80) # varlong_encode_loop val)"
  by pat_completeness auto
termination
proof (relation "measure unat", goal_cases)
  case (2 val x xa)
  then have "unat val div 128 \<noteq> 0"
    by (auto simp: unat_drop_bit_eq drop_bit_eq_div unat_div simp flip: unat_eq_0)
  then have "unat val div 128 < unat val"
    by (intro div_less_dividend) (auto intro: gr0I)
  with 2 show ?case by (simp add: unat_drop_bit_eq drop_bit_eq_div unat_div)
qed simp

declare varlong_encode_loop.simps [simp del]

definition varlong_encode :: "i64 \<Rightarrow> bytes" where
  "varlong_encode v = varlong_encode_loop v"

definition varlong_decode :: "bytes \<Rightarrow> protocol_error + (i64 \<times> bytes)" where
  "varlong_decode r = var_decode_loop (Incomplete ''VarLong'') (Invalid ''VarLong too large (> 10 bytes)'')
     VARLONG_MAX_SIZE 0 0 r"

definition read_varlong_from_reader :: "bytes \<Rightarrow> protocol_error + (i64 \<times> bytes)" where
  "read_varlong_from_reader r = var_decode_loop (Io UnexpectedEof) (Invalid ''VarLong too large (> 10 bytes)'')
     VARLONG_MAX_SIZE 0 0 r"

section \<open>The reference code\<close>

fun leb128 :: "nat \<Rightarrow> bytes" where
  "leb128 n = (if n < 128 then [word_of_nat n] else (word_of_nat (n mod 128) OR 0x80) # leb128 (n div 128))"

declare leb128.simps [simp del]

lemma leb128_small: "n < 128 \<Longrightarrow> leb128 n = [word_of_nat n]"
  by (subst leb128.simps) simp

lemma leb128_step: "128 \<le> n \<Longrightarrow> leb128 n = (word_of_nat (n mod 128) OR 0x80) # leb128 (n div 128)"
  by (subst leb128.simps) simp

lemma leb128_not_Nil [simp]: "leb128 n \<noteq> []"
  by (subst leb128.simps) simp

lemma leb128_length_le: "n < 128 ^ k \<Longrightarrow> 0 < k \<Longrightarrow> length (leb128 n) \<le> k"
proof (induction n arbitrary: k rule: leb128.induct)
  case (1 n)
  show ?case
  proof (cases "n < 128")
    case False
    with "1.prems" obtain j where k: "k = Suc j" "0 < j"
      by (metis Suc_pred less_numeral_extra(3) not_gr_zero power_0 power_Suc mult_1_right)
    with "1.prems" have "n div 128 < 128 ^ j" by (simp add: less_mult_imp_div_less mult.commute)
    with 1 False k show ?thesis by (simp add: leb128_step)
  qed (use "1.prems" in \<open>simp add: leb128_small\<close>)
qed

lemma leb128_length_ge: "128 ^ k \<le> n \<Longrightarrow> k < length (leb128 n)"
proof (induction k arbitrary: n)
  case (Suc k)
  then have "128 \<le> n" by (metis le_trans power_Suc mult.commute one_le_power one_le_numeral
        mult_le_mono1 mult_1)
  moreover have "128 ^ k \<le> n div 128" using Suc.prems
    by (metis div_le_mono nonzero_mult_div_cancel_left power_Suc zero_neq_numeral)
  ultimately show ?case using Suc.IH [of "n div 128"] by (simp add: leb128_step)
qed simp

lemma leb128_length_eq:
  "128 ^ k \<le> n \<Longrightarrow> n < 128 ^ Suc k \<Longrightarrow> length (leb128 n) = Suc k"
  using leb128_length_le [of n "Suc k"] leb128_length_ge [of k n] by simp


section \<open>Decoding the reference code\<close>

lemma bit_0x7F: "bit (0x7F :: nat) k \<longleftrightarrow> k < 7"
proof -
  have "(0x7F :: nat) = mask 7" by (simp add: mask_eq_exp_minus_1)
  then show ?thesis by (simp only: bit_mask_iff) simp
qed

lemma bit_0x7F_int: "bit (0x7F :: int) k \<longleftrightarrow> k < 7"
proof -
  have "(0x7F :: int) = mask 7" by (simp add: mask_eq_exp_minus_1)
  then show ?thesis by (simp only: bit_mask_iff) simp
qed

lemma bit_0x80_int: "bit (0x80 :: int) k \<longleftrightarrow> k = 7"
proof -
  have "(0x80 :: int) = 2 ^ 7" by simp
  then show ?thesis by (simp only: bit_exp_iff) simp
qed

lemma bit_0x80: "bit (0x80 :: nat) k \<longleftrightarrow> k = 7"
proof -
  have "(0x80 :: nat) = 2 ^ 7" by simp
  then show ?thesis by (simp only: bit_exp_iff) simp
qed

lemma bit_mod128: "bit (n mod 128 :: nat) k \<longleftrightarrow> k < 7 \<and> bit n k"
proof -
  have "n mod 128 = take_bit 7 n" by (simp add: take_bit_eq_mod)
  then show ?thesis by (simp only: bit_take_bit_iff)
qed

lemma bit_div128: "bit (n div 128 :: nat) k \<longleftrightarrow> bit n (7 + k)"
proof -
  have "n div 128 = drop_bit 7 n" by (simp add: drop_bit_eq_div)
  then show ?thesis by (simp only: bit_drop_bit_eq comp_apply)
qed

lemmas bits7 = bit_0x7F bit_0x80 bit_0x7F_int bit_0x80_int bit_mod128 bit_div128

lemma bit_less128: "n < 128 \<Longrightarrow> bit (n :: nat) k \<Longrightarrow> k < 7"
  by (metis bit_mod128 mod_less)

lemma low7_last: "n < 128 \<Longrightarrow> (ucast (word_of_nat n :: u8) :: 'a::len word) AND 0x7F = word_of_nat n"
  by (rule bit_word_eqI) (auto simp: bit_simps bits7 dest: bit_less128)

lemma low7_cont:
  "(ucast (word_of_nat (n mod 128) OR 0x80 :: u8) :: 'a::len word) AND 0x7F = word_of_nat (n mod 128)"
  by (rule bit_word_eqI) (auto simp: bit_simps bits7)

lemma no_cont_bit: "n < 128 \<Longrightarrow> (word_of_nat n :: u8) AND 0x80 = 0"
  by (rule bit_word_eqI) (auto simp: bit_simps bits7 dest: bit_less128)

lemma cont_bit: "(word_of_nat (n mod 128) OR 0x80 :: u8) AND 0x80 \<noteq> 0"
proof
  assume "(word_of_nat (n mod 128) OR 0x80 :: u8) AND 0x80 = 0"
  then have "\<not> bit ((word_of_nat (n mod 128) OR 0x80 :: u8) AND 0x80) 7" by simp
  then show False by (simp add: bit_simps bits7)
qed

lemma word_of_nat_split7:
  "(word_of_nat (n mod 128) :: 'a::len word) OR push_bit 7 (word_of_nat (n div 128)) = word_of_nat n"
  by (rule bit_word_eqI) (auto simp: bit_simps bits7)

lemma var_decode_loop_last:
  "i < mx \<Longrightarrow> byte AND 0x80 = 0 \<Longrightarrow>
     var_decode_loop eof big mx i acc (byte # r) = Ok (acc OR push_bit (7 * i) (ucast byte AND 0x7F), r)"
  by (simp add: Let_def mult.commute)

lemma var_decode_loop_cont:
  "i < mx \<Longrightarrow> byte AND 0x80 \<noteq> 0 \<Longrightarrow>
     var_decode_loop eof big mx i acc (byte # r)
       = var_decode_loop eof big mx (Suc i) (acc OR push_bit (7 * i) (ucast byte AND 0x7F)) r"
  by (simp add: Let_def mult.commute)

lemma var_decode_loop_leb128:
  "length (leb128 n) + i \<le> mx \<Longrightarrow>
     var_decode_loop eof big mx i acc (leb128 n @ r)
       = Ok ((acc :: 'a::len word) OR push_bit (7 * i) (word_of_nat n), r)"
proof (induction n arbitrary: i acc rule: leb128.induct)
  case (1 n)
  show ?case
  proof (cases "n < 128")
    case True
    then have "i < mx" using "1.prems" by (simp add: leb128_small)
    then show ?thesis
      by (simp only: leb128_small [OF True] append_Cons append_Nil
          var_decode_loop_last [OF _ no_cont_bit [OF True]] low7_last [OF True])
  next
    case False
    let ?d = "word_of_nat (n mod 128) :: 'a word" and ?q = "word_of_nat (n div 128) :: 'a word"
    from False have n: "128 \<le> n" by simp
    from "1.prems" n have le: "length (leb128 (n div 128)) + Suc i \<le> mx"
      by (simp add: leb128_step [OF n])
    then have "i < mx" by simp
    then have "var_decode_loop eof big mx i acc (leb128 n @ r)
        = var_decode_loop eof big mx (Suc i) (acc OR push_bit (7 * i) ?d) (leb128 (n div 128) @ r)"
      by (subst leb128_step [OF n]) (simp only: append_Cons var_decode_loop_cont [OF _ cont_bit] low7_cont)
    also have "\<dots> = Ok ((acc OR push_bit (7 * i) ?d) OR push_bit (7 * Suc i) ?q, r)"
      by (rule "1.IH" [OF False le])
    also have "(acc OR push_bit (7 * i) ?d) OR push_bit (7 * Suc i) ?q
        = acc OR push_bit (7 * i) (?d OR push_bit 7 ?q)"
      by (simp only: push_bit_or or.assoc push_bit_push_bit mult_Suc_right add.commute)
    finally show ?thesis by (simp only: word_of_nat_split7)
  qed
qed

section \<open>The encoders write the reference code\<close>

lemma low7_byte: "(ucast (val AND 0x7F :: u64) :: u8) = word_of_nat (unat val mod 128)"
  by (rule bit_word_eqI) (auto simp: bit_simps bits7)

lemma unat_drop7: "unat (drop_bit 7 (w :: 'a::len word)) = unat w div 128"
  by (simp only: unat_drop_bit_eq) (simp add: drop_bit_eq_div)

lemma varlong_encode_loop_leb128: "varlong_encode_loop v = leb128 (unat v)"
proof (induction v rule: varlong_encode_loop.induct)
  case (1 v)
  show ?case
  proof (cases "drop_bit 7 v = 0")
    case True
    then have "unat v < 128" using unat_drop7 [of v] by (simp add: div_eq_0_iff)
    with True show ?thesis
      by (subst varlong_encode_loop.simps) (simp add: low7_byte leb128_small Let_def)
  next
    case False
    then have "128 \<le> unat v" using unat_drop7 [of v]
      by (metis div_less leI unat_eq_0)
    with False "1.IH" show ?thesis
      by (subst varlong_encode_loop.simps) (simp add: low7_byte leb128_step Let_def unat_drop7)
  qed
qed

lemma from_le_bytes_or:
  "length as = length bs \<Longrightarrow>
     (from_le_bytes (map2 (OR) as bs) :: 'a::len word) = from_le_bytes as OR from_le_bytes bs"
proof (induction as bs rule: list_induct2)
  case (Cons a as b bs)
  show ?case by (rule bit_word_eqI) (auto simp: Cons.IH bit_simps)
qed simp

lemma unat_from_le_bytes_Cons:
  assumes "length bs < 8"
  shows "unat (from_le_bytes (b # bs) :: u64) = unat b + 256 * unat (from_le_bytes bs :: u64)
    \<and> unat (from_le_bytes bs :: u64) < 256 ^ length bs"
proof -
  let ?t = "from_le_bytes bs :: u64"
  have "?t = take_bit (8 * length bs) ?t"
    using assms le_from_le_bytes [of bs, where 'a = 64] from_le_le_bytes [of "length bs" ?t] by simp
  then have "unat ?t = take_bit (8 * length bs) (unat ?t)"
    by (metis unsigned_take_bit_eq)
  then have "unat ?t < 2 ^ (8 * length bs)" by (metis take_bit_nat_less_exp)
  then have lt: "unat ?t < 256 ^ length bs" by (simp add: power_mult)
  have "(256::nat) ^ length bs \<le> 256 ^ 7" using assms by (intro power_increasing) auto
  with lt have lt7: "unat ?t < 256 ^ 7" by (rule order_less_le_trans)
  have "ucast b AND push_bit 8 ?t = 0"
    by (rule bit_word_eqI) (auto simp: bit_simps dest: bit_imp_le_length)
  then have "from_le_bytes (b # bs) = ucast b + push_bit 8 ?t"
    by (simp add: disjunctive_add_eq_or)
  moreover have "unat (push_bit 8 ?t) = 256 * unat ?t"
    using lt7 by (simp add: push_bit_eq_mult unat_word_ariths)
  moreover have "unat (ucast b :: u64) = unat b"
    by (simp add: unsigned_ucast_eq take_bit_nat_eq_self order_less_le_trans [OF unsigned_less])
  moreover have "unat b < 256" using unsigned_less [of b] by simp
  ultimately have "unat (from_le_bytes (b # bs) :: u64) = unat b + 256 * unat ?t"
    using lt7 by (simp add: unat_word_ariths del: from_le_bytes.simps)
  with lt show ?thesis by blast
qed

definition digit7 :: "i32 \<Rightarrow> nat \<Rightarrow> u8" where
  "digit7 v i = word_of_nat (unat v div 128 ^ i mod 128)"

lemma bit_digit7: "bit (digit7 v i) k \<longleftrightarrow> k < 7 \<and> bit v (7 * i + k)"
proof -
  have "unat v div 128 ^ i = drop_bit (7 * i) (unat v)"
    by (simp add: drop_bit_eq_div power_mult)
  then show ?thesis by (auto simp: digit7_def bit_simps bits7)
qed

lemma bit_scast32: "k < 32 \<Longrightarrow> bit (scast (v :: i32) :: u64) k = bit v k"
  by (cases "k = 31") (auto simp: bit_signed_iff min_def)

lemma varint_group:
  assumes "j \<le> 4"
  shows "push_bit j ((scast (v :: i32) :: u64) AND push_bit (7 * j) (mask (min 7 (32 - 7 * j))))
     = push_bit (8 * j) (ucast (digit7 v j))" (is "?l = ?r")
proof (rule bit_word_eqI)
  fix n assume n: "n < LENGTH(64)"
  have "bit ?l n \<longleftrightarrow> j \<le> n \<and> bit (scast v :: u64) (n - j) \<and> 7 * j \<le> n - j \<and> n - 8 * j < min 7 (32 - 7 * j)"
    using n by (auto simp: bit_push_bit_iff bit_and_iff bit_mask_iff)
  also have "\<dots> \<longleftrightarrow> 8 * j \<le> n \<and> n - 8 * j < 7 \<and> bit v (n - j)"
    using bit_scast32 [of "n - j" v] bit_imp_le_length [of v "n - j"] assms by (auto simp: min_def)
  also have "\<dots> \<longleftrightarrow> bit ?r n"
    using n by (auto simp: bit_push_bit_iff bit_unsigned_iff bit_digit7)
  finally show "bit ?l n \<longleftrightarrow> bit ?r n" .
qed

lemma varint_stage1_bytes:
  fixes v :: i32
  defines "x \<equiv> (scast v :: u64)"
  shows "(x AND 0x7f) OR push_bit 1 (x AND 0x3f80) OR push_bit 2 (x AND 0x001fc000)
            OR push_bit 3 (x AND 0x0fe00000) OR push_bit 4 (x AND 0xf0000000)
     = from_le_bytes [digit7 v 0, digit7 v 1, digit7 v 2, digit7 v 3, digit7 v 4, 0, 0, 0]"
proof -
  have g: "x AND 0x7f = ucast (digit7 v 0)"
    "push_bit 1 (x AND 0x3f80) = push_bit 8 (ucast (digit7 v 1))"
    "push_bit 2 (x AND 0x001fc000) = push_bit 16 (ucast (digit7 v 2))"
    "push_bit 3 (x AND 0x0fe00000) = push_bit 24 (ucast (digit7 v 3))"
    "push_bit 4 (x AND 0xf0000000) = push_bit 32 (ucast (digit7 v 4))"
    using varint_group [of 0 v] varint_group [of 1 v] varint_group [of 2 v]
      varint_group [of 3 v] varint_group [of 4 v]
    by (simp_all add: x_def mask_eq_exp_minus_1)
  show ?thesis unfolding g by (simp add: push_bit_or or.assoc)
qed

lemma unat_digit7: "unat (digit7 v i) = unat v div 128 ^ i mod 128"
proof -
  have "unat v div 128 ^ i mod 128 < 128" by simp
  then show ?thesis by (simp add: digit7_def unat_of_nat del: mod_less_divisor)
qed

abbreviation varint_groups :: "i32 \<Rightarrow> bytes" where
  "varint_groups v \<equiv> [digit7 v 0, digit7 v 1, digit7 v 2, digit7 v 3, digit7 v 4, 0, 0, 0]"

lemma unat_varint_groups:
  "unat (from_le_bytes (varint_groups v) :: u64) =
     unat (digit7 v 0) + 256 * (unat (digit7 v 1) + 256 * (unat (digit7 v 2)
       + 256 * (unat (digit7 v 3) + 256 * unat (digit7 v 4))))"
  by (simp add: unat_from_le_bytes_Cons del: from_le_bytes.simps(2))

lemma varint_groups_bounds:
  assumes "p \<le> 4" and "unat v < 128 ^ Suc p" and "128 ^ p \<le> unat v"
  shows "2 ^ (8 * p) \<le> unat (from_le_bytes (varint_groups v) :: u64)
    \<and> unat (from_le_bytes (varint_groups v) :: u64) < 2 ^ Suc (8 * p + 6)"
proof -
  define e where "e i = unat (digit7 v i)" for i
  have lt: "e i < 128" for i by (simp add: e_def unat_digit7)
  have "unat v div 128 ^ p < 128" using assms(2) by (simp add: less_mult_imp_div_less mult.commute)
  then have top: "1 \<le> e p" using assms(3)
    by (simp add: e_def unat_digit7 Suc_le_eq div_greater_zero_iff)
  have above: "e i = 0" if "p < i" for i
  proof -
    have "(128::nat) ^ Suc p \<le> 128 ^ i" using that by (intro power_increasing) auto
    with assms(2) have "unat v < 128 ^ i" by linarith
    then show ?thesis by (simp add: e_def unat_digit7)
  qed
  consider "p = 0" | "p = 1" | "p = 2" | "p = 3" | "p = 4" using assms(1) by linarith
  then show ?thesis
    unfolding unat_varint_groups e_def [symmetric]
    by cases (use lt [of 0] lt [of 1] lt [of 2] lt [of 3] lt [of 4] top above in \<open>simp_all\<close>)
qed

lemma varint_bytes_needed:
  assumes "p \<le> 4" and "unat v < 128 ^ Suc p" and "p = 0 \<or> 128 ^ p \<le> unat v"
  shows "8 - drop_bit 3 (leading_zeros (from_le_bytes (varint_groups v) :: u64) - 1) = Suc p"
proof (cases "v = 0")
  case True
  then have "p = 0" using assms(3) by auto
  moreover have "varint_groups v = [0, 0, 0, 0, 0, 0, 0, 0]" using True by (simp add: digit7_def)
  ultimately show ?thesis by (simp add: drop_bit_eq_div)
next
  case False
  then have "128 ^ p \<le> unat v" using assms(3) by (auto simp: unat_gt_0 Suc_le_eq)
  from varint_groups_bounds [OF assms(1,2) this]
  have "64 - Suc (8 * p + 6) \<le> leading_zeros (from_le_bytes (varint_groups v) :: u64)"
    and "leading_zeros (from_le_bytes (varint_groups v) :: u64) \<le> 64 - Suc (8 * p)"
    using leading_zeros_bounds [of "8 * p" "from_le_bytes (varint_groups v) :: u64" "8 * p + 6"] by auto
  then show ?thesis using assms(1) unfolding drop_bit_eq_div by (simp add: le_div_geq)
qed

lemma varint_encode_groups:
  assumes "p \<le> 4" and "unat v < 128 ^ Suc p" and "p = 0 \<or> 128 ^ p \<le> unat v"
  shows "varint_encode v = map (\<lambda>i. digit7 v i OR 0x80) [0..<p] @ [digit7 v p]"
proof -
  define msb :: bytes where "msb = replicate p 0x80 @ replicate (8 - p) 0"
  consider (p) "p = 0" | "p = 1" | "p = 2" | "p = 3" | "p = 4" using assms(1) by linarith
  note p = this
  have "(0x8080808080808080 :: u64) AND drop_bit (8 * (8 - Suc p + 1) - 1) 0xffffffffffffffff = from_le_bytes msb"
    using p by cases (simp_all add: msb_def)
  then have "varint_encode v = take (Suc p) (le_bytes 8 (from_le_bytes (varint_groups v) OR from_le_bytes msb :: u64))"
    unfolding varint_encode_def Let_def varint_stage1_bytes varint_bytes_needed [OF assms] by simp
  also have "from_le_bytes (varint_groups v) OR from_le_bytes msb = (from_le_bytes (map2 (OR) (varint_groups v) msb) :: u64)"
    using assms(1) by (subst from_le_bytes_or) (auto simp: msb_def)
  also have "le_bytes 8 \<dots> = map2 (OR) (varint_groups v) msb"
  proof -
    have len: "length (map2 (OR) (varint_groups v) msb) = 8" using assms(1) by (simp add: msb_def)
    show ?thesis
      using le_from_le_bytes [of "map2 (OR) (varint_groups v) msb", where 'a = 64] unfolding len by simp
  qed
  finally have enc: "varint_encode v = take (Suc p) (map2 (OR) (varint_groups v) msb)" .
  have upts: "[0..<2] = [0, 1::nat]" "[0..<3] = [0, 1, 2::nat]" "[0..<4] = [0, 1, 2, 3::nat]"
    by (simp_all add: upt_rec)
  from p show ?thesis unfolding enc by cases (simp_all add: msb_def upts)
qed

lemma leb128_groups:
  assumes "n < 128 ^ Suc p" and "p = 0 \<or> 128 ^ p \<le> n"
  shows "leb128 n = map (\<lambda>i. word_of_nat (n div 128 ^ i mod 128) OR 0x80) [0..<p] @ [word_of_nat (n div 128 ^ p mod 128)]"
  using assms
proof (induction p arbitrary: n)
  case 0
  then show ?case by (simp add: leb128_small)
next
  case (Suc p)
  have "128 * 1 \<le> 128 * (128::nat) ^ p" by (rule mult_le_mono2) simp
  also have "\<dots> \<le> n" using Suc.prems(2) by simp
  finally have n: "128 \<le> n" by simp
  have q: "n div 128 < 128 ^ Suc p" using Suc.prems(1) by (simp add: less_mult_imp_div_less mult.commute)
  have "128 ^ Suc p \<le> n" using Suc.prems(2) by simp
  then have q': "128 ^ p \<le> n div 128"
    by (metis div_le_mono nonzero_mult_div_cancel_left power_Suc zero_neq_numeral)
  have "[0..<Suc p] = 0 # map Suc [0..<p]" by (simp add: upt_conv_Cons map_Suc_upt)
  moreover have "leb128 (n div 128) = map (\<lambda>i. word_of_nat (n div 128 div 128 ^ i mod 128) OR 0x80) [0..<p]
      @ [word_of_nat (n div 128 div 128 ^ p mod 128)]"
    using Suc.IH [OF q] q' by blast
  ultimately show ?case
    by (simp only: leb128_step [OF n] list.map map_map append_Cons comp_def power_Suc div_mult2_eq power_0 div_by_1)
qed

lemma varint_encode_leb128: "varint_encode v = leb128 (unat v)"
proof -
  have "unat v < 2 ^ 32" using unsigned_less [of v] by simp
  then have four: "unat v < 128 ^ Suc 4" by simp
  define p where "p = (LEAST k. unat v < 128 ^ Suc k)"
  have p4: "p \<le> 4" unfolding p_def using four by (rule Least_le)
  have hi: "unat v < 128 ^ Suc p" unfolding p_def using four by (rule LeastI)
  have lo: "p = 0 \<or> 128 ^ p \<le> unat v"
  proof (cases p)
    case (Suc k)
    then have "k < (LEAST k. unat v < 128 ^ Suc k)" by (simp add: p_def)
    then have "\<not> unat v < 128 ^ Suc k" by (rule not_less_Least)
    with Suc show ?thesis by simp
  qed simp
  show ?thesis
    unfolding varint_encode_groups [OF p4 hi lo] leb128_groups [OF hi lo] digit7_def ..
qed

lemma varlong_encode_leb128: "varlong_encode v = leb128 (unat v)"
  by (simp add: varlong_encode_def varlong_encode_loop_leb128)

lemma length_varint_encode: "0 < length (varint_encode v)" "length (varint_encode v) \<le> 5"
proof -
  have "unat v < 2 ^ 32" using unsigned_less [of v] by simp
  then have "unat v < 128 ^ 5" by simp
  then show "length (varint_encode v) \<le> 5" using leb128_length_le [of "unat v" 5]
    by (simp add: varint_encode_leb128)
qed (simp add: varint_encode_leb128)

lemma length_varlong_encode: "0 < length (varlong_encode v)" "length (varlong_encode v) \<le> 10"
proof -
  have "unat v < 2 ^ 64" using unsigned_less [of v] by simp
  then have "unat v < 128 ^ 10" by simp
  then show "length (varlong_encode v) \<le> 10" using leb128_length_le [of "unat v" 10]
    by (simp add: varlong_encode_leb128)
qed (simp add: varlong_encode_leb128)

section \<open>Size computation\<close>

lemma leb128_length_lz:
  fixes w :: "'a::len word"
  assumes "w \<noteq> 0"
  shows "(LENGTH('a) - 1 - leading_zeros w) div 7 + 1 = length (leb128 (unat w))"
proof -
  define k where "k = length (leb128 (unat w)) - 1"
  have pos: "0 < unat w" using assms by (simp add: unat_gt_0)
  have len: "length (leb128 (unat w)) = Suc k" unfolding k_def by (simp add: Suc_diff_1)
  have hi: "unat w < 128 ^ Suc k"
    using leb128_length_ge [of "Suc k" "unat w"] len by (metis not_le less_irrefl)
  have lo: "128 ^ k \<le> unat w"
  proof (cases "k = 0")
    case False
    then show ?thesis using leb128_length_le [of "unat w" k] len by (metis not_le Suc_n_not_le_n gr0I)
  qed (use pos in simp)
  have exp: "(128::nat) ^ j = 2 ^ (7 * j)" for j by (simp add: power_mult)
  have b: "LENGTH('a) - Suc (7 * k + 6) \<le> leading_zeros w" "leading_zeros w \<le> LENGTH('a) - Suc (7 * k)"
    using leading_zeros_bounds [of "7 * k" w "7 * k + 6"] lo hi unfolding exp by simp_all
  have "7 * k < LENGTH('a)"
  proof -
    have "(2::nat) ^ (7 * k) < 2 ^ LENGTH('a)" using lo unsigned_less [of w] unfolding exp by (rule le_less_trans)
    then show ?thesis by (rule power_less_imp_less_exp [rotated]) simp
  qed
  with b have "(LENGTH('a) - 1 - leading_zeros w) div 7 = k" by (intro div_nat_eqI) simp_all
  with len show ?thesis by simp
qed

lemma varint_written_size_length: "varint_written_size v = length (varint_encode v)"
  using leb128_length_lz [of v]
  by (auto simp: varint_written_size_def varint_encode_leb128 leb128_small)

lemma varlong_written_size_length: "varlong_written_size v = length (varlong_encode v)"
  using leb128_length_lz [of v]
  by (auto simp: varlong_written_size_def varlong_encode_leb128 leb128_small)

section \<open>Round trips and the decoders\<close>

lemma varint_decode_encode [codec_rt]: "varint_decode (varint_encode v @ r) = Ok (v, r)"
  using length_varint_encode [of v]
  by (simp add: varint_decode_def varint_encode_leb128 var_decode_loop_leb128 VARINT_MAX_SIZE_def)

lemma varlong_decode_encode [codec_rt]: "varlong_decode (varlong_encode v @ r) = Ok (v, r)"
  using length_varlong_encode [of v]
  by (simp add: varlong_decode_def varlong_encode_leb128 var_decode_loop_leb128 VARLONG_MAX_SIZE_def)

lemma read_varint_encode [codec_rt]: "read_varint_from_reader (varint_encode v @ r) = Ok (v, r)"
  using length_varint_encode [of v]
  by (simp add: read_varint_from_reader_def varint_encode_leb128 var_decode_loop_leb128 VARINT_MAX_SIZE_def)

lemma var_decode_loop_append:
  "var_decode_loop eof big mx i v r = Ok (w, t) \<Longrightarrow> var_decode_loop eof big mx i v (r @ s) = Ok (w, t @ s)"
  by (induction r arbitrary: i v) (auto simp: Let_def split: if_splits)

lemma var_decode_loop_append_big:
  "var_decode_loop eof big mx i v r = Err big \<Longrightarrow> eof \<noteq> big \<Longrightarrow> var_decode_loop eof big mx i v (r @ s) = Err big"
proof (induction r arbitrary: i v)
  case Nil
  then show ?case by (cases s) (auto split: if_splits)
qed (auto simp: Let_def split: if_splits)

lemma var_decode_loop_Ok:
  "var_decode_loop eof big mx i v r = Ok (w, t) \<Longrightarrow>
     \<exists>n. 0 < n \<and> i + n \<le> mx \<and> n \<le> length r \<and> t = drop n r"
proof (induction r arbitrary: i v)
  case (Cons b r)
  show ?case
  proof (cases "b AND 0x80 = 0")
    case True
    with Cons.prems show ?thesis by (intro exI [of _ 1]) (auto simp: Let_def split: if_splits)
  next
    case False
    with Cons.prems have "var_decode_loop eof big mx (Suc i) (v OR push_bit (i * 7) (ucast b AND 0x7F)) r = Ok (w, t)"
      by (simp only: var_decode_loop.simps Let_def if_False split: if_splits) simp_all
    from Cons.IH [OF this] obtain n where "0 < n" "Suc i + n \<le> mx" "n \<le> length r" "t = drop n r"
      by blast
    then show ?thesis by (intro exI [of _ "Suc n"]) auto
  qed
qed (auto split: if_splits)

lemma varint_decode_partial_loop_eq:
  "i \<le> length buf \<Longrightarrow> var_decode_loop eof big VARINT_MAX_SIZE i val (drop i buf) =
     (case varint_decode_partial_loop i val buf of
        Inl StatusIncomplete \<Rightarrow> Err eof
      | Inl StatusTooLarge \<Rightarrow> Err big
      | Inr (v, n) \<Rightarrow> Ok (v, drop n buf))"
proof (induction i val buf rule: varint_decode_partial_loop.induct)
  case (1 i val buf)
  show ?case
  proof (cases "i < length buf \<and> i < VARINT_MAX_SIZE")
    case True
    then have d: "drop i buf = buf ! i # drop (Suc i) buf" by (simp add: Cons_nth_drop_Suc)
    show ?thesis using 1 True
      by (subst varint_decode_partial_loop.simps) (auto simp: d Let_def)
  next
    case False
    with "1.prems" show ?thesis
      by (subst varint_decode_partial_loop.simps) (cases "drop i buf"; auto)
  qed
qed

lemma varint_decode_partial_eq:
  "varint_decode buf = (case varint_decode_partial buf of
        Inl StatusIncomplete \<Rightarrow> Err (Incomplete ''VarInt'')
      | Inl StatusTooLarge \<Rightarrow> Err (Invalid ''VarInt too large (> 5 bytes)'')
      | Inr (v, n) \<Rightarrow> Ok (v, drop n buf))"
  using varint_decode_partial_loop_eq [of 0 buf]
  by (simp add: varint_decode_def varint_decode_partial_def)

lemma varint_partial_steps:
  "VARINT_MAX_SIZE \<le> i \<Longrightarrow> varint_decode_partial_loop i val buf = Inl StatusTooLarge"
  "i < VARINT_MAX_SIZE \<Longrightarrow> length buf \<le> i \<Longrightarrow> varint_decode_partial_loop i val buf = Inl StatusIncomplete"
  "i < VARINT_MAX_SIZE \<Longrightarrow> i < length buf \<Longrightarrow> buf ! i AND 0x80 = 0 \<Longrightarrow>
     varint_decode_partial_loop i val buf = Inr (val OR push_bit (i * 7) (ucast (buf ! i) AND 0x7F), Suc i)"
  "i < VARINT_MAX_SIZE \<Longrightarrow> i < length buf \<Longrightarrow> buf ! i AND 0x80 \<noteq> 0 \<Longrightarrow>
     varint_decode_partial_loop i val buf =
     varint_decode_partial_loop (Suc i) (val OR push_bit (i * 7) (ucast (buf ! i) AND 0x7F)) buf"
  by (subst varint_decode_partial_loop.simps, simp add: Let_def)+

lemma varint_partial_cases:
  fixes i :: nat and buf :: bytes
  obtains (big) "VARINT_MAX_SIZE \<le> i"
  | (short) "i < VARINT_MAX_SIZE" "length buf \<le> i"
  | (last) "i < VARINT_MAX_SIZE" "i < length buf" "buf ! i AND 0x80 = 0"
  | (cont) "i < VARINT_MAX_SIZE" "i < length buf" "buf ! i AND 0x80 \<noteq> 0"
  using not_le by blast

lemma varint_decode_partial_loop_Ok:
  "varint_decode_partial_loop i val buf = Inr (v, n) \<Longrightarrow> i < n \<and> n \<le> VARINT_MAX_SIZE \<and> n \<le> length buf"
proof (induction i val buf rule: varint_decode_partial_loop.induct)
  case (1 i val buf)
  show ?case
  proof (cases rule: varint_partial_cases [where i = i and buf = buf])
    case cont
    have "Suc i < n \<and> n \<le> VARINT_MAX_SIZE \<and> n \<le> length buf"
      using "1.prems" cont by (intro "1.IH" [OF _ _ refl refl]) (simp_all only: varint_partial_steps not_le not_False_eq_True)
    then show ?thesis by simp
  next
    case big
    with "1.prems" show ?thesis by (simp only: varint_partial_steps(1) sum.distinct)
  next
    case short
    with "1.prems" show ?thesis by (simp only: varint_partial_steps(2) sum.distinct)
  next
    case last
    with "1.prems" have "n = Suc i" by (simp only: varint_partial_steps(3) sum.inject prod.inject)
    with last show ?thesis by simp
  qed
qed

lemma varint_decode_partial_Ok: "varint_decode_partial buf = Inr (v, n) \<Longrightarrow> 0 < n \<and> n \<le> 5 \<and> n \<le> length buf"
  unfolding varint_decode_partial_def by (drule varint_decode_partial_loop_Ok) (simp add: VARINT_MAX_SIZE_def)

lemma varint_decode_partial_append:
  "varint_decode_partial buf = Inr (v, n) \<Longrightarrow> varint_decode_partial (buf @ more) = Inr (v, n)"
  "varint_decode_partial buf = Inl StatusTooLarge \<Longrightarrow> varint_decode_partial (buf @ more) = Inl StatusTooLarge"
proof -
  have "varint_decode_partial_loop i val buf = R \<Longrightarrow> R \<noteq> Inl StatusIncomplete \<Longrightarrow>
      varint_decode_partial_loop i val (buf @ more) = R" for i val R
  proof (induction i val buf rule: varint_decode_partial_loop.induct)
    case (1 i val buf)
    show ?case
    proof (cases rule: varint_partial_cases [where i = i and buf = buf])
      case cont
      then have "i < length (buf @ more)" "(buf @ more) ! i = buf ! i" by (simp_all add: nth_append)
      then have step: "varint_decode_partial_loop i val (buf @ more) =
          varint_decode_partial_loop (Suc i) (val OR push_bit (i * 7) (ucast (buf ! i) AND 0x7F)) (buf @ more)"
        using varint_partial_steps(4) [of i "buf @ more" val] cont by simp
      have "varint_decode_partial_loop (Suc i) (val OR push_bit (i * 7) (ucast (buf ! i) AND 0x7F)) buf = R"
        by (rule trans [OF varint_partial_steps(4) [OF cont, symmetric] "1.prems"(1)])
      then show ?thesis
        unfolding step using "1.IH" [OF _ _ refl refl _ _ "1.prems"(2)] cont by (simp only: not_le simp_thms)
    next
      case big
      with "1.prems" show ?thesis by (simp only: varint_partial_steps(1))
    next
      case short
      with "1.prems" show ?thesis by (simp only: varint_partial_steps(2) simp_thms)
    next
      case last
      then have "i < length (buf @ more)" "(buf @ more) ! i = buf ! i" by (simp_all add: nth_append)
      with last "1.prems" show ?thesis by (simp only: varint_partial_steps(3))
    qed
  qed
  then show "varint_decode_partial buf = Inr (v, n) \<Longrightarrow> varint_decode_partial (buf @ more) = Inr (v, n)"
    "varint_decode_partial buf = Inl StatusTooLarge \<Longrightarrow> varint_decode_partial (buf @ more) = Inl StatusTooLarge"
    unfolding varint_decode_partial_def by blast+
qed

lemma varint_decode_partial_of_decode:
  assumes "varint_decode buf = Ok (v, t)"
  shows "\<exists>n. varint_decode_partial buf = Inr (v, n) \<and> t = drop n buf"
proof (cases "varint_decode_partial buf")
  case (Inl s)
  then have False using varint_decode_partial_eq [of buf] assms by (cases s) simp_all
  then show ?thesis ..
next
  case (Inr p)
  obtain w n where p: "p = (w, n)" by (cases p)
  then have "w = v" "t = drop n buf" using varint_decode_partial_eq [of buf] assms Inr by simp_all
  with p Inr show ?thesis by blast
qed

lemma varint_decode_partial_encode:
  "varint_decode_partial (varint_encode v @ r) = Inr (v, length (varint_encode v))"
proof -
  obtain n where n: "varint_decode_partial (varint_encode v @ r) = Inr (v, n)" and d: "r = drop n (varint_encode v @ r)"
    using varint_decode_partial_of_decode [OF varint_decode_encode, of v r] by blast
  have "length r = length (varint_encode v) + length r - n"
    using d by (metis length_append length_drop)
  moreover have "n \<le> length (varint_encode v) + length r"
    using varint_decode_partial_Ok [OF n] by (simp only: length_append)
  ultimately have "n = length (varint_encode v)" by linarith
  with n show ?thesis by (simp only:)
qed

section \<open>Properties\<close>

text \<open>C39. The branchless \<open>VarInt\<close> encoder and the \<open>VarLong\<close> loop both produce the LEB128
  code of the value read as an unsigned number, and the size announced beforehand by \<open>written_size\<close>, a
  formula on leading zeros, is the number of bytes written, at most 5 and at most 10.\<close>

theorem var_encode_leb128:
  "varint_encode v = leb128 (unat v) \<and> varint_written_size v = length (varint_encode v) \<and>
     length (varint_encode v) \<in> {1..VARINT_MAX_SIZE} \<and>
   varlong_encode w = leb128 (unat w) \<and> varlong_written_size w = length (varlong_encode w) \<and>
     length (varlong_encode w) \<in> {1..VARLONG_MAX_SIZE}"
  using length_varint_encode [of v] length_varlong_encode [of w]
  by (simp add: varint_encode_leb128 varlong_encode_leb128 varint_written_size_length varlong_written_size_length
      VARINT_MAX_SIZE_def VARLONG_MAX_SIZE_def Suc_le_eq)


text \<open>\<open>decode_partial\<close> gives what \<open>decode\<close> gives on the same bytes, and once it has an
  answer, a value or the refusal of an overlong code, bytes that arrive later never change it.\<close>

theorem varint_partial_stable:
  "varint_decode buf = (case varint_decode_partial buf of
        Inl StatusIncomplete \<Rightarrow> Err (Incomplete ''VarInt'')
      | Inl StatusTooLarge \<Rightarrow> Err (Invalid ''VarInt too large (> 5 bytes)'')
      | Inr (v, n) \<Rightarrow> Ok (v, drop n buf)) \<and>
   (varint_decode_partial buf \<noteq> Err StatusIncomplete \<longrightarrow>
      varint_decode_partial (buf @ later) = varint_decode_partial buf)"
proof (intro conjI impI)
  assume "varint_decode_partial buf \<noteq> Err StatusIncomplete"
  then consider "varint_decode_partial buf = Err StatusTooLarge" | v n where "varint_decode_partial buf = Inr (v, n)"
    by (cases "varint_decode_partial buf"; fastforce intro: varint_decode_status.exhaust)
  then show "varint_decode_partial (buf @ later) = varint_decode_partial buf"
    by cases (simp_all only: varint_decode_partial_append)
qed (rule varint_decode_partial_eq)

theorem varint_partial_stable_witness:
  "varint_decode_partial ([0xFF, 0x01] @ [7]) = Ok (255, 2)"
proof -
  have e: "varint_encode 255 = [0xFF, 0x01]" by (simp add: varint_encode_leb128 leb128_step leb128_small)
  have p: "varint_decode_partial [0xFF, 0x01] = Ok (255, 2)"
    using varint_decode_partial_encode [of 255 "[]"] unfolding e append_Nil2 by simp
  then have "varint_decode_partial [0xFF, 0x01] \<noteq> Err StatusIncomplete" by (simp only: sum.distinct not_False_eq_True)
  with varint_partial_stable [of "[0xFF, 0x01]" "[7]"] p show ?thesis by argo
qed

end
