(* ===== verification/Wire.thy ===== *)
theory Wire
  imports Varint
begin

text \<open>
  The primitive wire types: \<open>codec/types.rs\<close> (the \<open>Encode\<close>/\<open>Decode\<close> instances and the
  string routines) and \<open>codec/mod.rs\<close> (the \<open>McBufReadExt\<close>/\<open>McBufWriteExt\<close> methods on a
  byte slice and on a byte vector).

  A \<open>Decode\<close> instance reports a short buffer as \<open>Incomplete\<close>, a reader method as
  \<open>Io UnexpectedEof\<close>, the error \<open>read_exact\<close> gives on a slice. Writing to a vector does
  not fail, so a writer is its bytes, or the \<open>TooLarge\<close> error of the string writer.
\<close>

section \<open>UTF-8\<close>

text \<open>\<open>str::from_utf8\<close>: the well-formed byte sequences of the Unicode standard (table 3-7).\<close>

definition utf8_cont :: "u8 \<Rightarrow> bool" where
  "utf8_cont b \<longleftrightarrow> 0x80 \<le> b \<and> b \<le> 0xBF"

fun valid_utf8 :: "bytes \<Rightarrow> bool" where
  "valid_utf8 [] = True"
| "valid_utf8 (b # r) =
     (if b < 0x80 then valid_utf8 r
      else if 0xC2 \<le> b \<and> b \<le> 0xDF then
        (case r of b1 # r1 \<Rightarrow> utf8_cont b1 \<and> valid_utf8 r1 | _ \<Rightarrow> False)
      else if 0xE0 \<le> b \<and> b \<le> 0xEF then
        (case r of b1 # b2 # r2 \<Rightarrow>
             utf8_cont b1 \<and> utf8_cont b2 \<and> (b = 0xE0 \<longrightarrow> 0xA0 \<le> b1) \<and> (b = 0xED \<longrightarrow> b1 \<le> 0x9F)
             \<and> valid_utf8 r2
         | _ \<Rightarrow> False)
      else if 0xF0 \<le> b \<and> b \<le> 0xF4 then
        (case r of b1 # b2 # b3 # r3 \<Rightarrow>
             utf8_cont b1 \<and> utf8_cont b2 \<and> utf8_cont b3 \<and> (b = 0xF0 \<longrightarrow> 0x90 \<le> b1) \<and> (b = 0xF4 \<longrightarrow> b1 \<le> 0x8F)
             \<and> valid_utf8 r3
         | _ \<Rightarrow> False)
      else False)"

text \<open>\<open>s.chars().count()\<close>: every byte that is not a continuation byte starts a character.\<close>

definition chars_count :: "bytes \<Rightarrow> nat" where
  "chars_count bs = length (filter (\<lambda>b. \<not> utf8_cont b) bs)"

definition str_bytes :: "string \<Rightarrow> bytes" where
  "str_bytes s = map (\<lambda>c. word_of_nat (of_char c)) s"

definition bytes_str :: "bytes \<Rightarrow> string" where
  "bytes_str bs = map (\<lambda>b. char_of (unat b)) bs"

definition from_utf8 :: "bytes \<Rightarrow> string option" where
  "from_utf8 bs = (if valid_utf8 bs then Some (bytes_str bs) else None)"

definition str_chars :: "string \<Rightarrow> nat" where
  "str_chars s = chars_count (str_bytes s)"

text \<open>The invariant of the type \<open>String\<close>.\<close>

definition rust_string :: "string \<Rightarrow> bool" where
  "rust_string s \<longleftrightarrow> valid_utf8 (str_bytes s)"

lemma bytes_str_str_bytes [simp]: "bytes_str (str_bytes s) = s"
proof -
  have "unat (word_of_nat (of_char c) :: u8) = of_char c" for c :: char
    by (simp add: unat_of_nat of_char_mod_256)
  then show ?thesis by (simp add: bytes_str_def str_bytes_def comp_def)
qed

lemma str_bytes_bytes_str [simp]: "str_bytes (bytes_str bs) = bs"
proof -
  have "(word_of_nat (of_char (char_of (unat b) :: char)) :: u8) = b" for b :: u8
    using unsigned_less [of b, where 'a = nat] by simp
  then show ?thesis by (simp add: bytes_str_def str_bytes_def comp_def)
qed

lemma length_str_bytes [simp]: "length (str_bytes s) = length s"
  by (simp add: str_bytes_def)

lemma from_utf8_str_bytes [simp]: "rust_string s \<Longrightarrow> from_utf8 (str_bytes s) = Some s"
  by (simp add: from_utf8_def rust_string_def)

lemma from_utf8_SomeD: "from_utf8 bs = Some s \<Longrightarrow> rust_string s \<and> str_bytes s = bs"
  by (auto simp: from_utf8_def rust_string_def split: if_splits)

lemma chars_count_simps [simp]:
  "chars_count [] = 0"
  "utf8_cont b \<Longrightarrow> chars_count (b # bs) = chars_count bs"
  "\<not> utf8_cont b \<Longrightarrow> chars_count (b # bs) = Suc (chars_count bs)"
  by (simp_all add: chars_count_def)

lemma chars_count_le: "chars_count bs \<le> length bs"
  by (simp add: chars_count_def)

lemma valid_utf8_length: "valid_utf8 bs \<Longrightarrow> length bs \<le> 4 * chars_count bs"
proof (induction bs rule: valid_utf8.induct)
  case (2 b r)
  have "b < 0x80 \<or> 0xC2 \<le> b \<or> 0xE0 \<le> b \<or> 0xF0 \<le> b"
    using "2.prems" by (auto split: if_splits)
  then have lead: "\<not> utf8_cont b"
    by (auto simp: utf8_cont_def word_le_nat_alt word_less_nat_alt)
  show ?case
    using 2 lead by (auto split: if_splits list.splits)
qed simp

section \<open>Encode and Decode of the primitive types\<close>

definition MAX_STRING_CHARS :: nat where "MAX_STRING_CHARS = 32767"

definition u8_decode :: "bytes \<Rightarrow> protocol_error + (u8 \<times> bytes)" where
  "u8_decode r = (case r of [] \<Rightarrow> Err (Incomplete ''u8'') | b # r \<Rightarrow> Ok (b, r))"

definition u8_encode :: "u8 \<Rightarrow> bytes" where "u8_encode b = [b]"

definition bool_encode :: "bool \<Rightarrow> bytes" where
  "bool_encode b = [if b then 1 else 0]"

definition bool_decode :: "bytes \<Rightarrow> protocol_error + (bool \<times> bytes)" where
  "bool_decode r = dbind (u8_decode r) (\<lambda>byte r.
     if byte = 0 then Ok (False, r)
     else if byte = 1 then Ok (True, r)
     else Err (Invalid ''bool value must be 0 or 1''))"

text \<open>
  \<open>impl_codec_be!(ty, size, ctx)\<close>: the nine fixed-width integer and float types. A float is
  its bit pattern. A type of \<open>size\<close> bytes is a word of \<open>8 * size\<close> bits.
\<close>

definition be_encode :: "nat \<Rightarrow> 'a::len word \<Rightarrow> bytes" where
  "be_encode n w = be_bytes n w"

definition be_decode :: "nat \<Rightarrow> string \<Rightarrow> bytes \<Rightarrow> protocol_error + ('a::len word \<times> bytes)" where
  "be_decode n ctx r =
     (if length r < n then Err (Incomplete ctx)
      else Ok (from_be_bytes (take n r), drop n r))"

definition encode_string :: "string \<Rightarrow> protocol_error + bytes" where
  "encode_string s =
     (let char_len = str_chars s
      in if char_len > MAX_STRING_CHARS then Err (TooLarge MAX_STRING_CHARS char_len)
         else let bytes = str_bytes s
              in Ok (varint_encode (word_of_nat (length bytes)) @ bytes))"

definition decode_string :: "nat \<Rightarrow> bytes \<Rightarrow> protocol_error + (string \<times> bytes)" where
  "decode_string max_chars r = dbind (varint_decode r) (\<lambda>raw_len r.
     if sint raw_len < 0 then Err (Invalid ''negative length'')
     else let byte_len = unat raw_len; max_bytes = max_chars * 4
          in if byte_len > max_bytes then Err (TooLarge max_bytes byte_len)
             else if length r < byte_len then Err (Incomplete ''String data'')
             else case from_utf8 (take byte_len r) of
                 None \<Rightarrow> Err (Invalid ''invalid UTF-8 in string'')
               | Some s \<Rightarrow> if str_chars s > max_chars then Err (TooLarge max_chars (str_chars s))
                          else Ok (s, drop byte_len r))"

definition uuid_encode :: "u128 \<Rightarrow> bytes" where "uuid_encode u = be_encode 16 u"

definition uuid_decode :: "bytes \<Rightarrow> protocol_error + (u128 \<times> bytes)" where
  "uuid_decode r = be_decode 16 ''u128'' r"

definition vec_encode :: "bytes \<Rightarrow> bytes" where
  "vec_encode data = varint_encode (word_of_nat (length data)) @ data"

definition vec_decode :: "bytes \<Rightarrow> protocol_error + (bytes \<times> bytes)" where
  "vec_decode r = dbind (varint_decode r) (\<lambda>raw_len r.
     if sint raw_len < 0 then Err (Invalid ''negative length'')
     else let len = unat raw_len
          in if length r < len then Err (Incomplete ''byte array'')
             else Ok (take len r, drop len r))"

definition option_encode :: "('a \<Rightarrow> protocol_error + bytes) \<Rightarrow> 'a option \<Rightarrow> protocol_error + bytes" where
  "option_encode enc v = (case v of
     Some x \<Rightarrow> rbind (enc x) (\<lambda>b. Ok (bool_encode True @ b))
   | None \<Rightarrow> Ok (bool_encode False))"

definition option_decode :: "(bytes \<Rightarrow> protocol_error + ('a \<times> bytes)) \<Rightarrow> bytes \<Rightarrow> protocol_error + ('a option \<times> bytes)" where
  "option_decode dec r = dbind (bool_decode r) (\<lambda>present r.
     if present then dbind (dec r) (\<lambda>x r. Ok (Some x, r)) else Ok (None, r))"

section \<open>Reader methods\<close>

definition read_exact :: "nat \<Rightarrow> bytes \<Rightarrow> protocol_error + (bytes \<times> bytes)" where
  "read_exact n r = (if length r < n then Err (Io UnexpectedEof) else Ok (take n r, drop n r))"

definition read_u8 :: "bytes \<Rightarrow> protocol_error + (u8 \<times> bytes)" where
  "read_u8 r = dbind (read_exact 1 r) (\<lambda>buf r. Ok (buf ! 0, r))"

text \<open>\<open>read_u16_be\<close> to \<open>read_f64_be\<close>, by size.\<close>

definition read_be :: "nat \<Rightarrow> bytes \<Rightarrow> protocol_error + ('a::len word \<times> bytes)" where
  "read_be n r = dbind (read_exact n r) (\<lambda>buf r. Ok (from_be_bytes buf, r))"

definition read_bool :: "bytes \<Rightarrow> protocol_error + (bool \<times> bytes)" where
  "read_bool r = dbind (read_u8 r) (\<lambda>byte r.
     if byte = 0 then Ok (False, r)
     else if byte = 1 then Ok (True, r)
     else Err (Invalid ''bool value must be 0 or 1''))"

definition read_string_bounded :: "nat \<Rightarrow> bytes \<Rightarrow> protocol_error + (string \<times> bytes)" where
  "read_string_bounded max_chars r = dbind (read_varint_from_reader r) (\<lambda>raw_len r.
     if sint raw_len < 0 then Err (Invalid ''negative length'')
     else let byte_len = unat raw_len; max_bytes = max_chars * 4
          in if byte_len > max_bytes then Err (TooLarge max_bytes byte_len)
             else dbind (read_exact byte_len r) (\<lambda>buf r.
               case from_utf8 buf of
                 None \<Rightarrow> Err (Invalid ''invalid UTF-8 in string'')
               | Some s \<Rightarrow> if str_chars s > max_chars then Err (TooLarge max_chars (str_chars s))
                          else Ok (s, r)))"

definition read_string :: "bytes \<Rightarrow> protocol_error + (string \<times> bytes)" where
  "read_string r = read_string_bounded 32767 r"

definition read_uuid :: "bytes \<Rightarrow> protocol_error + (u128 \<times> bytes)" where
  "read_uuid r = read_be 16 r"

definition read_byte_array :: "nat \<Rightarrow> bytes \<Rightarrow> protocol_error + (bytes \<times> bytes)" where
  "read_byte_array max_len r = dbind (read_varint_from_reader r) (\<lambda>raw_len r.
     if sint raw_len < 0 then Err (Invalid ''negative length'')
     else let len = unat raw_len
          in if len > max_len then Err (TooLarge max_len len) else read_exact len r)"

definition read_remaining :: "bytes \<Rightarrow> protocol_error + (bytes \<times> bytes)" where
  "read_remaining r = Ok (r, [])"

section \<open>Writer methods\<close>

definition write_u8 :: "u8 \<Rightarrow> protocol_error + bytes" where "write_u8 b = Ok [b]"

text \<open>\<open>write_u16_be\<close> to \<open>write_f64_be\<close>, by size.\<close>

definition write_be :: "nat \<Rightarrow> 'a::len word \<Rightarrow> protocol_error + bytes" where
  "write_be n w = Ok (be_bytes n w)"

definition write_bool :: "bool \<Rightarrow> protocol_error + bytes" where
  "write_bool b = Ok [if b then 1 else 0]"

definition write_var_int :: "i32 \<Rightarrow> protocol_error + bytes" where
  "write_var_int v = Ok (varint_encode v)"

definition write_string :: "string \<Rightarrow> protocol_error + bytes" where
  "write_string s = encode_string s"

definition write_uuid :: "u128 \<Rightarrow> protocol_error + bytes" where
  "write_uuid u = Ok (be_bytes 16 u)"

definition write_byte_array :: "bytes \<Rightarrow> protocol_error + bytes" where
  "write_byte_array data = Ok (varint_encode (word_of_nat (length data)) @ data)"

text \<open>A writer function runs its writes in order and stops at the first error.\<close>

primrec write_seq :: "(protocol_error + bytes) list \<Rightarrow> protocol_error + bytes" where
  "write_seq [] = Ok []"
| "write_seq (w # ws) = rbind w (\<lambda>b. rbind (write_seq ws) (\<lambda>bs. Ok (b @ bs)))"

section \<open>Reading back what was written\<close>

lemma len_i32: "n < 2 ^ 31 \<Longrightarrow> unat (word_of_nat n :: i32) = n"
  by (simp add: unat_of_nat)

lemma len_i32_nonneg: "n < 2 ^ 31 \<Longrightarrow> \<not> sint (word_of_nat n :: i32) < 0"
  by (simp add: signed_of_nat signed_take_bit_int_eq_self)

definition wire_string :: "string \<Rightarrow> bytes" where
  "wire_string s = varint_encode (word_of_nat (length s)) @ str_bytes s"

lemma encode_string_Ok: "encode_string s = Ok bs \<longleftrightarrow> str_chars s \<le> MAX_STRING_CHARS \<and> bs = wire_string s"
  by (auto simp: encode_string_def wire_string_def Let_def)

lemma rust_string_length: "rust_string s \<Longrightarrow> length s \<le> 4 * str_chars s"
  using valid_utf8_length [of "str_bytes s"] by (simp add: rust_string_def str_chars_def)

lemma decode_wire_string [codec_rt]:
  assumes "rust_string s" "str_chars s \<le> m" "m \<le> MAX_STRING_CHARS"
  shows "decode_string m (wire_string s @ r) = Ok (s, r)"
    and "read_string_bounded m (wire_string s @ r) = Ok (s, r)"
proof -
  have "length s \<le> 4 * m" using rust_string_length [OF assms(1)] assms(2) by simp
  moreover from this have "length s < 2 ^ 31" using assms(3) by (simp add: MAX_STRING_CHARS_def)
  ultimately show "decode_string m (wire_string s @ r) = Ok (s, r)"
      "read_string_bounded m (wire_string s @ r) = Ok (s, r)"
    using assms len_i32_nonneg [of "length s"]
    by (auto simp: decode_string_def read_string_bounded_def read_exact_def wire_string_def codec_rt len_i32)
qed

lemma read_wire_string [codec_rt]:
  "rust_string s \<Longrightarrow> str_chars s \<le> MAX_STRING_CHARS \<Longrightarrow> read_string (wire_string s @ r) = Ok (s, r)"
  by (simp add: read_string_def codec_rt MAX_STRING_CHARS_def)

lemma write_string_Ok [simp]:
  "write_string s = Ok bs \<longleftrightarrow> str_chars s \<le> MAX_STRING_CHARS \<and> bs = wire_string s"
  by (simp add: write_string_def encode_string_Ok)

lemma write_string_wire: "str_chars s \<le> MAX_STRING_CHARS \<Longrightarrow> write_string s = Ok (wire_string s)"
  by simp

lemma ascii_string:
  assumes "\<forall>c \<in> set s. of_char c < (128 :: nat)"
  shows "rust_string s" "str_chars s = length s"
proof -
  have "(word_of_nat (of_char c) :: u8) < 0x80" if "of_char c < (128 :: nat)" for c :: char
    using that by (simp add: word_less_nat_alt unat_of_nat)
  moreover from this have "\<not> utf8_cont (word_of_nat (of_char c))" if "of_char c < (128 :: nat)" for c :: char
    using that by (fastforce simp: utf8_cont_def not_le)
  ultimately show "rust_string s" "str_chars s = length s"
    using assms by (induction s) (auto simp: rust_string_def str_bytes_def str_chars_def chars_count_def)
qed

lemma be_decode_bytes [codec_rt]:
  "LENGTH('a::len) = 8 * n \<Longrightarrow> be_decode n ctx (be_bytes n (w :: 'a word) @ r) = Ok (w, r)"
  by (simp add: be_decode_def from_be_be_bytes)

lemma read_be_bytes [codec_rt]:
  "LENGTH('a::len) = 8 * n \<Longrightarrow> read_be n (be_bytes n (w :: 'a word) @ r) = Ok (w, r)"
  by (simp add: read_be_def read_exact_def from_be_be_bytes)

lemma read_uuid_bytes [codec_rt]: "read_uuid (be_bytes 16 u @ r) = Ok (u, r)"
  by (simp add: read_uuid_def codec_rt)

lemma read_bool_byte [codec_rt]: "read_bool ((if b then 1 else 0) # r) = Ok (b, r)"
  by (simp add: read_bool_def read_u8_def read_exact_def)

lemma read_bool_const [codec_rt]: "read_bool (1 # r) = Ok (True, r)" "read_bool (0 # r) = Ok (False, r)"
  using read_bool_byte [of True r] read_bool_byte [of False r] by simp_all

lemma bool_decode_encode [codec_rt]: "bool_decode (bool_encode b @ r) = Ok (b, r)"
  by (simp add: bool_decode_def u8_decode_def bool_encode_def)

lemma vec_decode_encode [codec_rt]: "length d < 2 ^ 31 \<Longrightarrow> vec_decode (vec_encode d @ r) = Ok (d, r)"
  using len_i32_nonneg [of "length d"]
  by (auto simp: vec_decode_def vec_encode_def codec_rt len_i32)

lemma read_byte_array_vec [codec_rt]:
  assumes "length d \<le> m" "m < 2 ^ 31"
  shows "read_byte_array m (varint_encode (word_of_nat (length d)) @ d @ r) = Ok (d, r)"
  using assms len_i32_nonneg [of "length d"]
  by (auto simp: read_byte_array_def codec_rt len_i32 read_exact_def)

lemma read_exact_append [codec_rt]: "length d = n \<Longrightarrow> read_exact n (d @ r) = Ok (d, r)"
  by (auto simp: read_exact_def)

lemmas writer_defs = write_u8_def write_be_def write_bool_def write_var_int_def write_uuid_def
  write_byte_array_def

section \<open>The primitive types are lossless codecs\<close>

interpretation varint_codec: lossless_codec "\<lambda>v. Ok (varint_encode v)" varint_decode "\<lambda>_. True"
  by unfold_locales (auto simp: codec_rt)

interpretation varlong_codec: lossless_codec "\<lambda>v. Ok (varlong_encode v)" varlong_decode "\<lambda>_. True"
  by unfold_locales (auto simp: codec_rt)

interpretation bool_codec: lossless_codec "\<lambda>b. Ok (bool_encode b)" bool_decode "\<lambda>_. True"
  by unfold_locales (auto simp: codec_rt)

interpretation string_codec: lossless_codec encode_string "decode_string MAX_STRING_CHARS" rust_string
  by unfold_locales (auto simp: codec_rt encode_string_Ok)

interpretation uuid_codec: lossless_codec "\<lambda>u. Ok (uuid_encode u)" uuid_decode "\<lambda>_. True"
  by unfold_locales (auto simp: uuid_encode_def uuid_decode_def be_encode_def codec_rt)

interpretation vec_codec: lossless_codec "\<lambda>d. Ok (vec_encode d)" vec_decode "\<lambda>d. length d < 2 ^ 31"
  by unfold_locales (auto simp: codec_rt)

text \<open>An \<open>Option\<close> of a lossless type is lossless.\<close>

lemma option_codec:
  assumes "lossless_codec enc dec valid"
  shows "lossless_codec (option_encode enc) (option_decode dec) (pred_option valid)"
proof
  fix v :: "'a option" and bs r
  assume "pred_option valid v" "option_encode enc v = Ok bs"
  then show "option_decode dec (bs @ r) = Ok (v, r)"
    using lossless_codec.dec_enc [OF assms]
    by (cases v) (auto simp: option_encode_def option_decode_def rbind_eq_Ok codec_rt)
qed

interpretation option_string_codec: lossless_codec "option_encode encode_string"
  "option_decode (decode_string MAX_STRING_CHARS)" "pred_option rust_string"
  by (rule option_codec) (rule string_codec.lossless_codec_axioms)

section \<open>What a successful read guarantees\<close>

lemma read_string_bounded_Ok:
  assumes "read_string_bounded m r = Ok (s, t)"
  shows "rust_string s \<and> str_chars s \<le> m \<and> length s \<le> 4 * m"
proof -
  from assms obtain raw u where "read_varint_from_reader r = Ok (raw, u)" "unat raw \<le> m * 4"
    "from_utf8 (take (unat raw) u) = Some s" "str_chars s \<le> m"
    by (auto simp: read_string_bounded_def read_exact_def dbind_eq_Ok Let_def not_less split: if_splits option.splits)
  then show ?thesis
    using from_utf8_SomeD [of "take (unat raw) u" s] rust_string_length [of s] by auto
qed

lemma decode_string_Ok:
  assumes "decode_string m r = Ok (s, t)"
  shows "rust_string s \<and> str_chars s \<le> m \<and> (\<exists>n \<le> 4 * m. \<exists>k \<le> 5. t = drop (n + k) r)"
proof -
  from assms obtain raw u where u: "varint_decode r = Ok (raw, u)" "unat raw \<le> m * 4"
    "from_utf8 (take (unat raw) u) = Some s" "str_chars s \<le> m" "t = drop (unat raw) u"
    by (auto simp: decode_string_def dbind_eq_Ok Let_def not_less split: if_splits option.splits)
  moreover from u(1) obtain k where "k \<le> 5" "u = drop k r"
    unfolding varint_decode_def VARINT_MAX_SIZE_def by (auto dest: var_decode_loop_Ok)
  ultimately have "\<exists>n \<le> 4 * m. \<exists>k \<le> 5. t = drop (n + k) r"
    by (intro exI [of _ "unat raw"] conjI exI [of _ k]) (simp_all add: add.commute mult.commute)
  then show ?thesis
    using u(3,4) from_utf8_SomeD [of "take (unat raw) u" s] by blast
qed

section \<open>Properties\<close>

text \<open>A string of at most 32767 characters is written as its byte length and its bytes and
  read back by both string decoders; a longer one is refused by the writer, and neither reader returns it
  for any input.\<close>

theorem string_wire_format:
  assumes "rust_string s"
  shows "if str_chars s \<le> MAX_STRING_CHARS
    then encode_string s = Ok (wire_string s) \<and> read_string (wire_string s @ r) = Ok (s, r)
      \<and> decode_string MAX_STRING_CHARS (wire_string s @ r) = Ok (s, r)
    else encode_string s = Err (TooLarge MAX_STRING_CHARS (str_chars s))
      \<and> (\<forall>buf t. read_string buf \<noteq> Ok (s, t) \<and> decode_string MAX_STRING_CHARS buf \<noteq> Ok (s, t))"
proof (cases "str_chars s \<le> MAX_STRING_CHARS")
  case True
  with assms show ?thesis by (simp add: encode_string_Ok codec_rt)
next
  case False
  then have "\<forall>buf t. read_string buf \<noteq> Ok (s, t) \<and> decode_string MAX_STRING_CHARS buf \<noteq> Ok (s, t)"
    using read_string_bounded_Ok [of MAX_STRING_CHARS _ s] decode_string_Ok [of MAX_STRING_CHARS _ s] by (auto simp: read_string_def MAX_STRING_CHARS_def)
  with False show ?thesis by (simp add: encode_string_def Let_def)
qed

theorem string_wire_format_witness:
  "read_string [2, 0x68, 0x69, 9] = Ok (''hi'', [9])"
  using string_wire_format [of "''hi''" "[9]"]
  by (simp add: rust_string_def wire_string_def str_bytes_def str_chars_def chars_count_def utf8_cont_def MAX_STRING_CHARS_def
      varint_encode_leb128 leb128_small)

end
