(* ===== verification/Frames.thy ===== *)
theory Frames
  imports Wire
begin

text \<open>
  Packet framing: \<open>io/encoder.rs\<close>, \<open>io/decoder.rs\<close>, \<open>io/compression.rs\<close> (the default
  \<open>flate2\<close> backend) and \<open>io/frame.rs\<close>.

  The zlib library is a parameter: \<open>deflate\<close> is what the encoder's compressor produces
  for an input, \<open>inflate\<close> the bytes the streaming decoder delivers for an input before it
  ends or fails. The reusable scratch buffers of the two structs are cleared before every
  use and are not part of the state.
\<close>

section \<open>Frames, limits and compression\<close>

definition MAX_PACKET_SIZE :: nat where "MAX_PACKET_SIZE = 2097152"
definition MAX_PACKET_DATA_SIZE :: nat where "MAX_PACKET_DATA_SIZE = 8388608"

record packet_frame =
  frame_id :: i32
  frame_payload :: bytes

text \<open>
  \<open>Flate2Decompressor::decompress\<close>: \<open>read_exact\<close> of \<open>expected_size\<close> bytes, then one more
  read to see that nothing follows; a read error at that point counts as no data.
\<close>

definition decompress :: "(bytes \<Rightarrow> bytes) \<Rightarrow> bytes \<Rightarrow> nat \<Rightarrow> protocol_error + bytes" where
  "decompress inflate input expected_size =
     (let out = inflate input
      in if length out < expected_size then Err (Invalid ''failed to decompress packet data'')
         else if length out > expected_size then Err (Invalid ''decompressed data larger than expected size'')
         else Ok out)"

section \<open>Encoder\<close>

record packet_encoder =
  enc_buf :: bytes
  enc_threshold :: "i32 option"

definition encoder_new :: packet_encoder where
  "encoder_new = \<lparr>enc_buf = [], enc_threshold = None\<rparr>"

definition encoder_set_compression :: "i32 \<Rightarrow> packet_encoder \<Rightarrow> packet_encoder" where
  "encoder_set_compression t e = e\<lparr>enc_threshold := Some t\<rparr>"

definition encoder_take :: "packet_encoder \<Rightarrow> bytes \<times> packet_encoder" where
  "encoder_take e = (enc_buf e, e\<lparr>enc_buf := []\<rparr>)"

definition append_raw ::
  "(bytes \<Rightarrow> bytes) \<Rightarrow> i32 \<Rightarrow> bytes \<Rightarrow> packet_encoder \<Rightarrow> protocol_error + packet_encoder" where
  "append_raw deflate packet_id payload e =
     (let packet_id_size = varint_written_size packet_id
      in case enc_threshold e of
          None \<Rightarrow>
            let data_len = packet_id_size + length payload
            in if data_len > MAX_PACKET_SIZE then Err (TooLarge MAX_PACKET_SIZE data_len)
               else Ok (e\<lparr>enc_buf := enc_buf e @ varint_encode (word_of_nat data_len)
                            @ varint_encode packet_id @ payload\<rparr>)
        | Some threshold \<Rightarrow>
            let uncompressed_len = packet_id_size + length payload
            in if sint threshold \<le> sint (word_of_nat uncompressed_len :: i32) then
                 let compressed = deflate (varint_encode packet_id @ payload);
                     data_len = (word_of_nat uncompressed_len :: i32);
                     packet_len = varint_written_size data_len + length compressed
                 in if packet_len > MAX_PACKET_SIZE then Err (TooLarge MAX_PACKET_SIZE packet_len)
                    else Ok (e\<lparr>enc_buf := enc_buf e @ varint_encode (word_of_nat packet_len)
                                 @ varint_encode data_len @ compressed\<rparr>)
               else
                 let packet_len = varint_written_size 0 + packet_id_size + length payload
                 in if packet_len > MAX_PACKET_SIZE then Err (TooLarge MAX_PACKET_SIZE packet_len)
                    else Ok (e\<lparr>enc_buf := enc_buf e @ varint_encode (word_of_nat packet_len)
                                 @ varint_encode 0 @ varint_encode packet_id @ payload\<rparr>))"

definition append_frame :: "(bytes \<Rightarrow> bytes) \<Rightarrow> packet_frame \<Rightarrow> packet_encoder \<Rightarrow> protocol_error + packet_encoder" where
  "append_frame deflate f e = append_raw deflate (frame_id f) (frame_payload f) e"

section \<open>Decoder\<close>

record packet_decoder =
  dec_buf :: bytes
  dec_threshold :: "i32 option"

definition decoder_new :: packet_decoder where
  "decoder_new = \<lparr>dec_buf = [], dec_threshold = None\<rparr>"

definition queue_bytes :: "bytes \<Rightarrow> packet_decoder \<Rightarrow> packet_decoder" where
  "queue_bytes bs d = d\<lparr>dec_buf := dec_buf d @ bs\<rparr>"

definition decoder_set_compression :: "i32 \<Rightarrow> packet_decoder \<Rightarrow> packet_decoder" where
  "decoder_set_compression t d = d\<lparr>dec_threshold := Some t\<rparr>"

text \<open>Step 5 of \<open>try_next_frame\<close>: the content of one complete packet.\<close>

definition decode_packet ::
  "(bytes \<Rightarrow> bytes) \<Rightarrow> i32 option \<Rightarrow> bytes \<Rightarrow> protocol_error + packet_frame" where
  "decode_packet inflate threshold data =
     (case threshold of
        None \<Rightarrow> dbind (varint_decode data) (\<lambda>packet_id rest. Ok \<lparr>frame_id = packet_id, frame_payload = rest\<rparr>)
      | Some _ \<Rightarrow> dbind (varint_decode data) (\<lambda>data_len data.
          if data_len = 0 then
            dbind (varint_decode data) (\<lambda>packet_id rest. Ok \<lparr>frame_id = packet_id, frame_payload = rest\<rparr>)
          else let data_len = unat (scast data_len :: u64)
               in if data_len > MAX_PACKET_DATA_SIZE then Err (TooLarge MAX_PACKET_DATA_SIZE data_len)
                  else rbind (decompress inflate data data_len) (\<lambda>out.
                    dbind (varint_decode out) (\<lambda>packet_id rest.
                      Ok \<lparr>frame_id = packet_id, frame_payload = rest\<rparr>))))"

definition try_next_frame ::
  "(bytes \<Rightarrow> bytes) \<Rightarrow> packet_decoder \<Rightarrow> (protocol_error + packet_frame option) \<times> packet_decoder" where
  "try_next_frame inflate d =
     (case varint_decode_partial (dec_buf d) of
        Inl StatusIncomplete \<Rightarrow> (Ok None, d)
      | Inl StatusTooLarge \<Rightarrow> (Err (Invalid ''packet length VarInt too large''), d)
      | Inr (packet_len, varint_size) \<Rightarrow>
          if sint packet_len \<le> 0 then (Err (Invalid ''packet length must be positive''), d)
          else let packet_len = unat packet_len
               in if packet_len > MAX_PACKET_SIZE then (Err (TooLarge MAX_PACKET_SIZE packet_len), d)
                  else if length (dec_buf d) < varint_size + packet_len then (Ok None, d)
                  else let rest = drop varint_size (dec_buf d);
                           d' = d\<lparr>dec_buf := drop packet_len rest\<rparr>
                       in (rmap Some (decode_packet inflate (dec_threshold d) (take packet_len rest)), d'))"

text \<open>
  The way a connection uses the decoder: call it in a loop until it wants more data or
  fails, then feed it the next chunk from the socket.
\<close>

lemma try_next_frame_consumes:
  "try_next_frame inflate d = (Ok (Some f), d') \<Longrightarrow>
     length (dec_buf d') < length (dec_buf d) \<and> dec_threshold d' = dec_threshold d"
  by (auto simp: try_next_frame_def Let_def rmap_eq_Ok dest!: varint_decode_partial_Ok
      split: sum.splits varint_decode_status.splits if_splits)

function drain ::
  "(bytes \<Rightarrow> bytes) \<Rightarrow> packet_decoder \<Rightarrow> packet_frame list \<times> protocol_error option \<times> packet_decoder" where
  "drain inflate d =
     (case try_next_frame inflate d of
        (Inl e, d') \<Rightarrow> ([], Some e, d')
      | (Inr None, d') \<Rightarrow> ([], None, d')
      | (Inr (Some f), d') \<Rightarrow> (case drain inflate d' of (fs, e, d'') \<Rightarrow> (f # fs, e, d'')))"
  by pat_completeness auto
termination
  by (relation "measure (\<lambda>(_, d). length (dec_buf d))") (auto dest: try_next_frame_consumes [OF sym])

declare drain.simps [simp del]

primrec decode_stream ::
  "(bytes \<Rightarrow> bytes) \<Rightarrow> packet_decoder \<Rightarrow> bytes list \<Rightarrow> packet_frame list \<times> protocol_error option" where
  "decode_stream inflate d [] = ([], None)"
| "decode_stream inflate d (c # cs) =
     (case drain inflate (queue_bytes c d) of
        (fs, Some e, d') \<Rightarrow> (fs, Some e)
      | (fs, None, d') \<Rightarrow> (case decode_stream inflate d' cs of (gs, e) \<Rightarrow> (fs @ gs, e)))"

section \<open>Splitting a stream into frames\<close>

text \<open>What the decoder does with the bytes it has, as a case analysis.\<close>

lemma try_next_frame_cases:
  obtains (short) "varint_decode_partial (dec_buf d) = Inl StatusIncomplete" "try_next_frame inflate d = (Ok None, d)"
  | (long) "varint_decode_partial (dec_buf d) = Inl StatusTooLarge"
      "try_next_frame inflate d = (Err (Invalid ''packet length VarInt too large''), d)"
  | (nonpos) l n where "varint_decode_partial (dec_buf d) = Inr (l, n)" "sint l \<le> 0"
      "try_next_frame inflate d = (Err (Invalid ''packet length must be positive''), d)"
  | (big) l n where "varint_decode_partial (dec_buf d) = Inr (l, n)" "0 < sint l" "MAX_PACKET_SIZE < unat l"
      "try_next_frame inflate d = (Err (TooLarge MAX_PACKET_SIZE (unat l)), d)"
  | (wait) l n where "varint_decode_partial (dec_buf d) = Inr (l, n)" "0 < sint l" "unat l \<le> MAX_PACKET_SIZE"
      "length (dec_buf d) < n + unat l" "try_next_frame inflate d = (Ok None, d)"
  | (cut) l n where "varint_decode_partial (dec_buf d) = Inr (l, n)" "0 < sint l" "unat l \<le> MAX_PACKET_SIZE"
      "n + unat l \<le> length (dec_buf d)"
      "try_next_frame inflate d =
         (rmap Some (decode_packet inflate (dec_threshold d) (take (unat l) (drop n (dec_buf d)))),
          d\<lparr>dec_buf := drop (n + unat l) (dec_buf d)\<rparr>)"
proof (cases "varint_decode_partial (dec_buf d)")
  case (Inl s)
  then show ?thesis using short long by (cases s) (simp_all add: try_next_frame_def)
next
  case (Inr p)
  obtain l n where p: "p = (l, n)" by (cases p)
  consider "sint l \<le> 0" | "0 < sint l" "MAX_PACKET_SIZE < unat l"
    | "0 < sint l" "unat l \<le> MAX_PACKET_SIZE" "length (dec_buf d) < n + unat l"
    | "0 < sint l" "unat l \<le> MAX_PACKET_SIZE" "n + unat l \<le> length (dec_buf d)" by linarith
  then show ?thesis
    using nonpos [of l n] big [of l n] wait [of l n] cut [of l n] Inr p
    by cases (simp_all add: try_next_frame_def Let_def add.commute)
qed

lemma try_next_frame_append:
  assumes "try_next_frame inflate d = (r, d')" "r \<noteq> Ok None"
  shows "try_next_frame inflate (queue_bytes bs d) = (r, queue_bytes bs d')"
  using assms
proof (cases rule: try_next_frame_cases [where d = d and inflate = inflate])
  case (cut l n)
  moreover have "take (unat l) (drop n (dec_buf d @ bs)) = take (unat l) (drop n (dec_buf d))"
    "drop (n + unat l) (dec_buf d @ bs) = drop (n + unat l) (dec_buf d) @ bs"
    using cut by simp_all
  ultimately show ?thesis using assms varint_decode_partial_append(1) [of "dec_buf d" l n bs]
    by (auto simp: try_next_frame_def queue_bytes_def Let_def add.commute)
qed (auto simp: try_next_frame_def queue_bytes_def Let_def varint_decode_partial_append)

lemma try_next_frame_None: "try_next_frame inflate d = (Ok None, d') \<Longrightarrow> d' = d"
  by (cases rule: try_next_frame_cases [where d = d and inflate = inflate]) (auto simp: rmap_eq_Ok)

lemma try_next_frame_threshold: "try_next_frame inflate d = (r, d') \<Longrightarrow> dec_threshold d' = dec_threshold d"
  by (cases rule: try_next_frame_cases [where d = d and inflate = inflate]) auto

lemma queue_bytes_queue_bytes [simp]:
  "queue_bytes b (queue_bytes a d) = queue_bytes (a @ b) d"
  "queue_bytes [] d = d"
  by (simp_all add: queue_bytes_def)

text \<open>
  Draining what has arrived, then the rest, is draining everything at once, unless the
  first part already failed.
\<close>

lemma drain_append:
  "drain inflate (queue_bytes bs d) =
     (case drain inflate d of
        (fs, Some e, d') \<Rightarrow> (fs, Some e, queue_bytes bs d')
      | (fs, None, d') \<Rightarrow> (case drain inflate (queue_bytes bs d') of (gs, e, d'') \<Rightarrow> (fs @ gs, e, d'')))"
proof (induction inflate d rule: drain.induct)
  case (1 inflate d)
  obtain r d' where t: "try_next_frame inflate d = (r, d')" by fastforce
  consider (fail) e where "r = Err e" | (wait) "r = Ok None" | (frame) f where "r = Ok (Some f)"
    by (metis obj_sumE option.exhaust)
  then show ?case
  proof cases
    case fail
    with t try_next_frame_append [OF t] show ?thesis by (simp add: drain.simps [of inflate d] drain.simps [of inflate "queue_bytes bs d"])
  next
    case wait
    with t have "d' = d" using try_next_frame_None by simp
    with t wait show ?thesis by (simp add: drain.simps [of inflate d])
  next
    case frame
    with t try_next_frame_append [OF t] 1 [OF t [symmetric] frame] show ?thesis
      by (simp add: drain.simps [of inflate d] drain.simps [of inflate "queue_bytes bs d"] split: prod.splits option.splits)
  qed
qed

lemma drain_None_wait: "drain inflate d = (fs, None, d') \<Longrightarrow> drain inflate d' = ([], None, d')"
proof (induction inflate d arbitrary: fs rule: drain.induct)
  case (1 inflate d)
  obtain r d1 where t: "try_next_frame inflate d = (r, d1)" by fastforce
  consider (fail) e where "r = Err e" | (wait) "r = Ok None" | (frame) f where "r = Ok (Some f)"
    by (metis obj_sumE option.exhaust)
  then show ?case
  proof cases
    case frame
    with "1.prems" t "1.IH" [OF t [symmetric] frame] show ?thesis
      by (simp add: drain.simps [of inflate d] split: prod.splits)
  next
    case wait
    with "1.prems" t try_next_frame_None show ?thesis by (fastforce simp: drain.simps [of inflate d])
  qed (use "1.prems" t in \<open>simp add: drain.simps [of inflate d]\<close>)
qed

text \<open>
  Chunks do not matter: feeding a stream piece by piece yields what feeding it whole yields.
\<close>

lemma decode_stream_drain:
  assumes "drain inflate d = ([], None, d)"
  shows "decode_stream inflate d cs = (case drain inflate (queue_bytes (concat cs) d) of (fs, e, _) \<Rightarrow> (fs, e))"
  using assms
proof (induction cs arbitrary: d)
  case (Cons c cs)
  obtain fs r d' where d: "drain inflate (queue_bytes c d) = (fs, r, d')" by (metis prod_cases3)
  have q: "drain inflate (queue_bytes (c @ concat cs) d) =
      (case r of Some e \<Rightarrow> (fs, Some e, queue_bytes (concat cs) d')
       | None \<Rightarrow> (case drain inflate (queue_bytes (concat cs) d') of (gs, e, d'') \<Rightarrow> (fs @ gs, e, d'')))"
    using drain_append [of inflate "concat cs" "queue_bytes c d"] d by (simp split: option.splits)
  show ?case
  proof (cases r)
    case None
    with d have "drain inflate d' = ([], None, d')" using drain_None_wait by simp
    from Cons.IH [OF this] show ?thesis using d q None by (simp split: prod.splits)
  next
    case (Some e)
    then show ?thesis using d q by simp
  qed
qed simp

lemma drain_empty: "dec_buf d = [] \<Longrightarrow> drain inflate d = ([], None, d)"
  by (simp add: drain.simps try_next_frame_def varint_decode_partial_def varint_partial_steps VARINT_MAX_SIZE_def)

section \<open>What is written is what is read\<close>

primrec append_frames ::
  "(bytes \<Rightarrow> bytes) \<Rightarrow> packet_frame list \<Rightarrow> packet_encoder \<Rightarrow> protocol_error + packet_encoder" where
  "append_frames deflate [] e = Ok e"
| "append_frames deflate (f # fs) e = rbind (append_frame deflate f e) (append_frames deflate fs)"

text \<open>The decoder's limit on the uncompressed size, which only compressed packets meet.\<close>

definition frame_fits :: "i32 option \<Rightarrow> packet_frame \<Rightarrow> bool" where
  "frame_fits threshold f =
     (threshold = None \<or> varint_written_size (frame_id f) + length (frame_payload f) \<le> MAX_PACKET_DATA_SIZE)"

definition framed :: "bytes \<Rightarrow> bytes" where
  "framed body = varint_encode (word_of_nat (length body)) @ body"

lemma written_size_pos: "0 < varint_written_size v"
  using length_varint_encode [of v] varint_written_size_length [of v] by simp

lemma word_i32_small:
  assumes "n \<le> 8388608"
  shows "unat (word_of_nat n :: i32) = n" "sint (word_of_nat n :: i32) = int n"
    "unat (scast (word_of_nat n :: i32) :: u64) = n"
proof -
  show "unat (word_of_nat n :: i32) = n" using assms by (simp add: unat_of_nat)
  show s: "sint (word_of_nat n :: i32) = int n"
    using assms by (simp add: signed_of_nat signed_take_bit_int_eq_self)
  have "scast (word_of_nat n :: i32) = (word_of_nat n :: u64)" by (simp add: scast_eq s)
  then show "unat (scast (word_of_nat n :: i32) :: u64) = n" using assms by (simp add: unat_of_nat)
qed

lemma decode_packet_plain:
  "decode_packet inflate None (varint_encode (frame_id f) @ frame_payload f) = Ok f"
  by (simp add: decode_packet_def varint_decode_encode)

lemma decode_packet_below:
  "decode_packet inflate (Some t) (varint_encode 0 @ varint_encode (frame_id f) @ frame_payload f) = Ok f"
  by (simp add: decode_packet_def varint_decode_encode)

lemma decode_packet_compressed:
  assumes "n = varint_written_size (frame_id f) + length (frame_payload f)" "n \<le> MAX_PACKET_DATA_SIZE"
    and "\<forall>x. inflate (deflate x) = x"
  shows "decode_packet inflate (Some t)
    (varint_encode (word_of_nat n) @ deflate (varint_encode (frame_id f) @ frame_payload f)) = Ok f"
proof -
  have n: "unat (scast (word_of_nat n :: i32) :: u64) = n" "unat (word_of_nat n :: i32) = n"
    using assms(2) by (simp_all only: word_i32_small MAX_PACKET_DATA_SIZE_def)
  have "0 < n" using assms(1) written_size_pos [of "frame_id f"] by simp
  then have "(word_of_nat n :: i32) \<noteq> 0" using n(2) by (metis unat_0 neq0_conv)
  moreover have "decompress inflate (deflate (varint_encode (frame_id f) @ frame_payload f)) n =
      Ok (varint_encode (frame_id f) @ frame_payload f)"
    using assms(1,3) by (simp add: decompress_def varint_written_size_length)
  ultimately show ?thesis using assms(2)
    by (simp only: decode_packet_def varint_decode_encode dbind_simps rbind_simps Let_def n option.case if_False not_less) simp
qed

lemma append_frame_framed:
  assumes "append_frame deflate f e = Ok e'"
  obtains body where "enc_buf e' = enc_buf e @ framed body" "enc_threshold e' = enc_threshold e"
    "0 < length body" "length body \<le> MAX_PACKET_SIZE"
    "\<And>inflate t. (\<forall>x. inflate (deflate x) = x) \<Longrightarrow> frame_fits t f \<Longrightarrow> (t = None \<longleftrightarrow> enc_threshold e = None) \<Longrightarrow>
       decode_packet inflate t body = Ok f"
proof -
  let ?raw = "varint_encode (frame_id f) @ frame_payload f"
  let ?n = "varint_written_size (frame_id f) + length (frame_payload f)"
  note defs = append_frame_def append_raw_def framed_def Let_def varint_written_size_length [symmetric]
  consider (plain) "enc_threshold e = None"
    | (below) t where "enc_threshold e = Some t" "\<not> sint t \<le> sint (word_of_nat ?n :: i32)"
    | (comp) t where "enc_threshold e = Some t" "sint t \<le> sint (word_of_nat ?n :: i32)" by fastforce
  then show ?thesis
  proof cases
    case plain
    with assms show ?thesis
      by (intro that [of ?raw]) (auto simp: defs written_size_pos decode_packet_plain split: if_splits)
  next
    case below
    with assms show ?thesis
      by (intro that [of "varint_encode 0 @ ?raw"]) (auto simp: defs add.assoc written_size_pos decode_packet_below split: if_splits)
  next
    case comp
    with assms show ?thesis
      by (intro that [of "varint_encode (word_of_nat ?n) @ deflate ?raw"])
        (auto simp: defs frame_fits_def written_size_pos decode_packet_compressed [OF refl, unfolded of_nat_add] split: if_splits)
  qed
qed

lemma try_next_frame_framed:
  assumes "0 < length body" "length body \<le> MAX_PACKET_SIZE" "dec_buf d = framed body @ r"
  shows "try_next_frame inflate d =
     (rmap Some (decode_packet inflate (dec_threshold d) body), d\<lparr>dec_buf := r\<rparr>)"
proof -
  have w: "unat (word_of_nat (length body) :: i32) = length body" "sint (word_of_nat (length body) :: i32) = int (length body)"
    using assms(2) by (simp_all add: word_i32_small MAX_PACKET_SIZE_def)
  have "varint_decode_partial (dec_buf d) =
      Inr (word_of_nat (length body), length (varint_encode (word_of_nat (length body))))"
    using assms(3) varint_decode_partial_encode [of "word_of_nat (length body)" "body @ r"] by (simp only: framed_def append_assoc)
  then show ?thesis using assms by (simp add: try_next_frame_def w framed_def Let_def)
qed

lemma append_frames_extends:
  "append_frames deflate fs e = Ok e' \<Longrightarrow> \<exists>bs. enc_buf e' = enc_buf e @ bs"
proof (induction fs arbitrary: e)
  case (Cons f fs)
  then show ?case by (auto simp: rbind_eq_Ok) (metis append_frame_framed append_assoc)
qed simp

lemma append_frames_drain:
  assumes "append_frames deflate fs e = Ok e'"
    and "\<forall>x. inflate (deflate x) = x"
    and "\<forall>f \<in> set fs. frame_fits (dec_threshold d) f"
    and "dec_threshold d = None \<longleftrightarrow> enc_threshold e = None"
    and "enc_buf e' = enc_buf e @ bs" "dec_buf d = bs @ r"
  shows "drain inflate d = (case drain inflate (d\<lparr>dec_buf := r\<rparr>) of (gs, er, d') \<Rightarrow> (fs @ gs, er, d'))"
  using assms
proof (induction fs arbitrary: e d bs)
  case Nil
  then show ?case by (auto split: prod.splits)
next
  case (Cons f fs)
  obtain e1 where e1: "append_frame deflate f e = Ok e1" and fs: "append_frames deflate fs e1 = Ok e'"
    using Cons.prems(1) by (auto simp: rbind_eq_Ok)
  obtain body where b: "enc_buf e1 = enc_buf e @ framed body" "enc_threshold e1 = enc_threshold e"
    "0 < length body" "length body \<le> MAX_PACKET_SIZE"
    and dec: "decode_packet inflate (dec_threshold d) body = Ok f"
    using append_frame_framed [OF e1] Cons.prems(2,3,4) by (metis list.set_intros(1))
  obtain bs1 where bs1: "enc_buf e' = enc_buf e1 @ bs1" using append_frames_extends [OF fs] by blast
  with b(1) Cons.prems(5,6) have d: "dec_buf d = framed body @ bs1 @ r" by simp
  then have "try_next_frame inflate d = (Ok (Some f), d\<lparr>dec_buf := bs1 @ r\<rparr>)"
    using try_next_frame_framed [of body d "bs1 @ r"] b(3,4) dec by simp
  moreover have "drain inflate (d\<lparr>dec_buf := bs1 @ r\<rparr>) =
      (case drain inflate (d\<lparr>dec_buf := r\<rparr>) of (gs, er, d') \<Rightarrow> (fs @ gs, er, d'))"
    using Cons.IH [OF fs _ _ _ bs1, of "d\<lparr>dec_buf := bs1 @ r\<rparr>"] Cons.prems(2,3,4) b(2) by simp
  ultimately show ?case by (simp add: drain.simps [of inflate d] split: prod.splits)
qed


text \<open>C37. What the decoder yields, frames or error, depends only on the bytes
  received and not on how the reads cut them.\<close>

theorem decode_stream_chunking:
  "dec_buf d = [] \<Longrightarrow> concat cs = concat cs' \<Longrightarrow> decode_stream inflate d cs = decode_stream inflate d cs'"
  by (simp add: decode_stream_drain drain_empty)


theorem decode_stream_chunking_witness:
  "decode_stream id decoder_new [[3, 5], [7, 8]] = decode_stream id decoder_new [[3], [5, 7, 8]]"
  using decode_stream_chunking [of decoder_new "[[3, 5], [7, 8]]" "[[3], [5, 7, 8]]" id] by (simp add: decoder_new_def)

section \<open>Limits\<close>

lemma varint_decode_partial_incomplete:
  assumes "varint_decode_partial buf = Inl StatusIncomplete"
  shows "length buf < VARINT_MAX_SIZE"
proof -
  have "varint_decode_partial_loop i val buf = Inl StatusIncomplete \<Longrightarrow> length buf < VARINT_MAX_SIZE" for i val
  proof (induction i val buf rule: varint_decode_partial_loop.induct)
    case (1 i val buf)
    show ?case
    proof (cases rule: varint_partial_cases [where i = i and buf = buf])
      case cont
      then show ?thesis using "1.prems" by (intro "1.IH" [OF _ _ refl refl]) (simp_all only: varint_partial_steps not_le not_False_eq_True)
    qed (use "1.prems" in \<open>simp_all only: varint_partial_steps sum.inject varint_decode_status.distinct sum.distinct\<close>)
  qed
  with assms show ?thesis by (simp only: varint_decode_partial_def)
qed

lemma var_decode_rest_length: "varint_decode buf = Ok (v, r) \<Longrightarrow> length r < length buf"
  using varint_decode_partial_of_decode [of buf v r] varint_decode_partial_Ok [of buf v] by fastforce

lemma decode_packet_length:
  "decode_packet inflate t data = Ok f \<Longrightarrow> length data \<le> MAX_PACKET_SIZE \<Longrightarrow>
     length (frame_payload f) < (if t = None then MAX_PACKET_SIZE else MAX_PACKET_DATA_SIZE)"
  by (auto simp: decode_packet_def dbind_eq_Ok rbind_eq_Ok Let_def decompress_def MAX_PACKET_SIZE_def MAX_PACKET_DATA_SIZE_def
      dest!: var_decode_rest_length split: option.splits if_splits)



text \<open>The content of one packet as the protocol describes it, without the length prefix.\<close>

definition packet_body :: "(bytes \<Rightarrow> bytes) \<Rightarrow> i32 option \<Rightarrow> packet_frame \<Rightarrow> bytes" where
  "packet_body deflate threshold f =
     (let data = varint_encode (frame_id f) @ frame_payload f
      in case threshold of
          None \<Rightarrow> data
        | Some t \<Rightarrow> if sint t \<le> sint (word_of_nat (length data) :: i32)
                    then varint_encode (word_of_nat (length data)) @ deflate data
                    else varint_encode 0 @ data)"

text \<open>The encoder, which computes sizes ahead of writing, appends the length-prefixed
  packet of the protocol description; it refuses a packet exactly when the content is longer than the limit,
  reports the true length, and then leaves what it has buffered untouched.\<close>

theorem append_raw_refines:
  "append_frame deflate f e =
     (let body = packet_body deflate (enc_threshold e) f
      in if length body > MAX_PACKET_SIZE then Err (TooLarge MAX_PACKET_SIZE (length body))
         else Ok (e\<lparr>enc_buf := enc_buf e @ framed body\<rparr>))"
  by (auto simp: append_frame_def append_raw_def packet_body_def framed_def Let_def varint_written_size_length add.assoc
      split: option.splits)

text \<open>The encoder does not apply the limit on uncompressed data that the decoder enforces.\<close>

lemma encoder_exceeds_decoder:
  fixes p :: bytes
  defines "p \<equiv> replicate MAX_PACKET_DATA_SIZE 0"
  defines "deflate \<equiv> \<lambda>x. if x = 0 # p then [] else 0 # x"
  defines "inflate \<equiv> \<lambda>x. if x = [] then 0 # p else tl x"
  shows "inflate (deflate x) = x"
    "\<exists>bs. append_raw deflate 0 p (encoder_set_compression 64 encoder_new) = Ok \<lparr>enc_buf = bs, enc_threshold = Some 64\<rparr>
       \<and> fst (try_next_frame inflate \<lparr>dec_buf = bs, dec_threshold = Some 64\<rparr>)
         = Err (TooLarge MAX_PACKET_DATA_SIZE (MAX_PACKET_DATA_SIZE + 1))"
proof -
  show "inflate (deflate x) = x" by (simp add: deflate_def inflate_def)
  have e0: "varint_encode 0 = [0]" by (simp add: varint_encode_leb128 leb128_small)
  let ?n = "word_of_nat (Suc MAX_PACKET_DATA_SIZE) :: i32"
  have n: "?n \<noteq> 0" "unat (scast ?n :: u64) = Suc MAX_PACKET_DATA_SIZE" "sint (64 :: i32) \<le> sint ?n"
    by (simp_all add: MAX_PACKET_DATA_SIZE_def)
  have l: "length (varint_encode ?n) \<le> 5" "0 < length (varint_encode ?n)" using length_varint_encode by auto
  have "append_raw deflate 0 p (encoder_set_compression 64 encoder_new) =
      Ok \<lparr>enc_buf = framed (varint_encode ?n), enc_threshold = Some 64\<rparr>"
    using n(3) l by (simp add: append_raw_def encoder_set_compression_def encoder_new_def varint_written_size_length
        e0 Let_def p_def deflate_def framed_def MAX_PACKET_SIZE_def)
  moreover have "decode_packet inflate (Some 64) (varint_encode ?n) = Err (TooLarge MAX_PACKET_DATA_SIZE (Suc MAX_PACKET_DATA_SIZE))"
    using varint_decode_encode [of ?n "[]"] n(1,2) by (simp add: decode_packet_def Let_def)
  ultimately show "\<exists>bs. append_raw deflate 0 p (encoder_set_compression 64 encoder_new) = Ok \<lparr>enc_buf = bs, enc_threshold = Some 64\<rparr>
       \<and> fst (try_next_frame inflate \<lparr>dec_buf = bs, dec_threshold = Some 64\<rparr>)
         = Err (TooLarge MAX_PACKET_DATA_SIZE (MAX_PACKET_DATA_SIZE + 1))"
    using try_next_frame_framed [of "varint_encode ?n" "\<lparr>dec_buf = framed (varint_encode ?n), dec_threshold = Some 64\<rparr>" "[]" inflate] l
    by (simp add: MAX_PACKET_SIZE_def rmap_def)
qed

end
