(* ===== verification/Version.thy ===== *)
theory Version
  imports Wire
begin

text \<open>
  Protocol versions, connection states and directions: \<open>version.rs\<close>.

  A \<open>ProtocolVersion\<close> is the number it wraps; the code only compares it, so it is read as
  the integer the \<open>i32\<close> denotes.
\<close>

section \<open>Versions\<close>

type_synonym protocol_version = int

abbreviation UNKNOWN :: protocol_version where "UNKNOWN \<equiv> - 1"
abbreviation LEGACY :: protocol_version where "LEGACY \<equiv> 0"
abbreviation V1_7_2 :: protocol_version where "V1_7_2 \<equiv> 4"
abbreviation V1_7_6 :: protocol_version where "V1_7_6 \<equiv> 5"
abbreviation V1_8 :: protocol_version where "V1_8 \<equiv> 47"
abbreviation V1_9 :: protocol_version where "V1_9 \<equiv> 107"
abbreviation V1_9_2 :: protocol_version where "V1_9_2 \<equiv> 109"
abbreviation V1_9_4 :: protocol_version where "V1_9_4 \<equiv> 110"
abbreviation V1_12 :: protocol_version where "V1_12 \<equiv> 335"
abbreviation V1_12_1 :: protocol_version where "V1_12_1 \<equiv> 338"
abbreviation V1_12_2 :: protocol_version where "V1_12_2 \<equiv> 340"
abbreviation V1_13 :: protocol_version where "V1_13 \<equiv> 393"
abbreviation V1_14 :: protocol_version where "V1_14 \<equiv> 477"
abbreviation V1_15 :: protocol_version where "V1_15 \<equiv> 573"
abbreviation V1_16 :: protocol_version where "V1_16 \<equiv> 735"
abbreviation V1_16_2 :: protocol_version where "V1_16_2 \<equiv> 751"
abbreviation V1_16_4 :: protocol_version where "V1_16_4 \<equiv> 754"
abbreviation V1_17 :: protocol_version where "V1_17 \<equiv> 755"
abbreviation V1_18 :: protocol_version where "V1_18 \<equiv> 757"
abbreviation V1_18_2 :: protocol_version where "V1_18_2 \<equiv> 758"
abbreviation V1_19 :: protocol_version where "V1_19 \<equiv> 759"
abbreviation V1_19_1 :: protocol_version where "V1_19_1 \<equiv> 760"
abbreviation V1_19_3 :: protocol_version where "V1_19_3 \<equiv> 761"
abbreviation V1_19_4 :: protocol_version where "V1_19_4 \<equiv> 762"
abbreviation V1_20 :: protocol_version where "V1_20 \<equiv> 763"
abbreviation V1_20_2 :: protocol_version where "V1_20_2 \<equiv> 764"
abbreviation V1_20_3 :: protocol_version where "V1_20_3 \<equiv> 765"
abbreviation V1_20_5 :: protocol_version where "V1_20_5 \<equiv> 766"
abbreviation V1_21 :: protocol_version where "V1_21 \<equiv> 767"
abbreviation V1_21_2 :: protocol_version where "V1_21_2 \<equiv> 768"
abbreviation V1_21_4 :: protocol_version where "V1_21_4 \<equiv> 769"
abbreviation V1_21_5 :: protocol_version where "V1_21_5 \<equiv> 770"
abbreviation V1_21_6 :: protocol_version where "V1_21_6 \<equiv> 771"
abbreviation V1_21_7 :: protocol_version where "V1_21_7 \<equiv> 772"
abbreviation V1_21_9 :: protocol_version where "V1_21_9 \<equiv> 773"
abbreviation V1_21_11 :: protocol_version where "V1_21_11 \<equiv> 774"

definition SUPPORTED :: "protocol_version list" where
  "SUPPORTED =
     [V1_7_2, V1_7_6, V1_8, V1_9, V1_9_2, V1_9_4, V1_12, V1_12_1, V1_12_2, V1_13, V1_14, V1_15,
      V1_16, V1_16_2, V1_16_4, V1_17, V1_18, V1_18_2, V1_19, V1_19_1, V1_19_3, V1_19_4, V1_20,
      V1_20_2, V1_20_3, V1_20_5, V1_21, V1_21_2, V1_21_4, V1_21_5, V1_21_6, V1_21_7, V1_21_9,
      V1_21_11]"

definition is_legacy :: "protocol_version \<Rightarrow> bool" where
  "is_legacy v \<longleftrightarrow> v \<le> LEGACY \<and> v \<ge> 0"

definition is_unknown :: "protocol_version \<Rightarrow> bool" where
  "is_unknown v \<longleftrightarrow> v = UNKNOWN"

definition version_name :: "protocol_version \<Rightarrow> string" where
  "version_name v =
     (case map_of
        [(LEGACY, ''legacy''), (V1_7_2, ''1.7.2''), (V1_7_6, ''1.7.6''), (V1_8, ''1.8''), (V1_9, ''1.9''),
         (V1_9_2, ''1.9.2''), (V1_9_4, ''1.9.4''), (V1_12, ''1.12''), (V1_12_1, ''1.12.1''),
         (V1_12_2, ''1.12.2''), (V1_13, ''1.13''), (V1_14, ''1.14''), (V1_15, ''1.15''), (V1_16, ''1.16''),
         (V1_16_2, ''1.16.2''), (V1_16_4, ''1.16.4''), (V1_17, ''1.17''), (V1_18, ''1.18''),
         (V1_18_2, ''1.18.2''), (V1_19, ''1.19''), (V1_19_1, ''1.19.1''), (V1_19_3, ''1.19.3''),
         (V1_19_4, ''1.19.4''), (V1_20, ''1.20''), (V1_20_2, ''1.20.2''), (V1_20_3, ''1.20.3''),
         (V1_20_5, ''1.20.5''), (V1_21, ''1.21''), (V1_21_2, ''1.21.2''), (V1_21_4, ''1.21.4''),
         (V1_21_5, ''1.21.5''), (V1_21_6, ''1.21.6''), (V1_21_7, ''1.21.7''), (V1_21_9, ''1.21.9''),
         (V1_21_11, ''1.21.11'')] v of
        Some n \<Rightarrow> n
      | None \<Rightarrow> ''unknown'')"

definition version_display :: "protocol_version \<Rightarrow> string" where
  "version_display v =
     (let n = version_name v in if n = ''unknown'' then ''protocol:'' @ show_int v else n)"

definition version_range :: "protocol_version \<Rightarrow> protocol_version \<Rightarrow> protocol_version list" where
  "version_range from to = filter (\<lambda>v. v \<ge> from \<and> v \<le> to) SUPPORTED"

definition range_count :: "protocol_version \<Rightarrow> protocol_version \<Rightarrow> nat" where
  "range_count from to = length (filter (\<lambda>v. v \<ge> from \<and> v \<le> to) SUPPORTED)"

section \<open>States and directions\<close>

datatype connection_state = Handshake | Status | Login | Config | Play

definition handshake_id :: "connection_state \<Rightarrow> int option" where
  "handshake_id s = (case s of Status \<Rightarrow> Some 1 | Login \<Rightarrow> Some 2 | _ \<Rightarrow> None)"

definition from_handshake_id :: "int \<Rightarrow> connection_state option" where
  "from_handshake_id i = (if i = 1 then Some Status else if i = 2 \<or> i = 3 then Some Login else None)"

definition state_display :: "connection_state \<Rightarrow> string" where
  "state_display s = (case s of
     Handshake \<Rightarrow> ''handshake'' | Status \<Rightarrow> ''status'' | Login \<Rightarrow> ''login'' | Config \<Rightarrow> ''config'' | Play \<Rightarrow> ''play'')"

datatype direction = Serverbound | Clientbound

definition opposite :: "direction \<Rightarrow> direction" where
  "opposite d = (case d of Serverbound \<Rightarrow> Clientbound | Clientbound \<Rightarrow> Serverbound)"

lemma from_handshake_id_handshake_id: "handshake_id s = Some i \<Longrightarrow> from_handshake_id i = Some s"
  by (auto simp: handshake_id_def from_handshake_id_def split: connection_state.splits)

lemma version_name_known: "version_name v \<noteq> ''unknown'' \<longleftrightarrow> v \<in> set (LEGACY # SUPPORTED)"
  by (auto simp: SUPPORTED_def version_name_def split: option.splits)

lemma supported_sorted: "sorted_wrt (<) SUPPORTED"
  by (simp add: SUPPORTED_def)

text \<open>The table of supported versions is strictly increasing, a version has a name exactly when
  it is supported or the legacy one, and a range is the increasing list of the supported versions in it.\<close>

theorem version_table:
  "sorted_wrt (<) SUPPORTED \<and> (version_name v \<noteq> ''unknown'' \<longleftrightarrow> v = LEGACY \<or> v \<in> set SUPPORTED) \<and>
   sorted_wrt (<) (version_range a b) \<and> set (version_range a b) = {v \<in> set SUPPORTED. a \<le> v \<and> v \<le> b} \<and>
   range_count a b = card {v \<in> set SUPPORTED. a \<le> v \<and> v \<le> b}"
proof -
  have "sorted_wrt (<) (version_range a b)"
    unfolding version_range_def by (rule sorted_wrt_filter [OF supported_sorted])
  moreover from this have "distinct (version_range a b)" by (simp add: strict_sorted_iff)
  moreover have "set (version_range a b) = {v \<in> set SUPPORTED. a \<le> v \<and> v \<le> b}" by (auto simp: version_range_def)
  ultimately have "range_count a b = card {v \<in> set SUPPORTED. a \<le> v \<and> v \<le> b}"
    by (metis distinct_card range_count_def version_range_def)
  then show ?thesis
    using supported_sorted version_name_known [of v] \<open>sorted_wrt (<) (version_range a b)\<close>
      \<open>set (version_range a b) = _\<close> by simp
qed

end
