(* ===== verification/Packets.thy ===== *)
theory Packets
  imports Version
begin

text \<open>
  The packets of the handshake, status and login states: \<open>packets/handshake.rs\<close>,
  \<open>packets/status.rs\<close> and \<open>packets/login.rs\<close>.

  A packet type is a record; its \<open>decode\<close> returns the packet and the bytes left in the
  buffer, its \<open>encode\<close> the bytes written or the first error. The text form of a UUID is
  made and read by the \<open>uuid\<close> crate and is a parameter of the one packet that uses it.
\<close>

section \<open>Handshake\<close>

record s_handshake =
  hs_protocol_version :: i32
  hs_server_address :: string
  hs_server_port :: u16
  hs_next_state :: connection_state

definition s_handshake_decode :: "bytes \<Rightarrow> protocol_error + (s_handshake \<times> bytes)" where
  "s_handshake_decode r =
     dbind (read_varint_from_reader r) (\<lambda>protocol_version r.
     dbind (read_string_bounded 255 r) (\<lambda>server_address r.
     dbind (read_be 2 r) (\<lambda>server_port r.
     dbind (read_varint_from_reader r) (\<lambda>next_state_id r.
     case from_handshake_id (sint next_state_id) of
       None \<Rightarrow> Err (Invalid (''invalid handshake next_state: '' @ show_int (sint next_state_id)))
     | Some next_state \<Rightarrow>
         Ok (\<lparr>hs_protocol_version = protocol_version, hs_server_address = server_address,
              hs_server_port = server_port, hs_next_state = next_state\<rparr>, r)))))"

definition s_handshake_encode :: "s_handshake \<Rightarrow> protocol_error + bytes" where
  "s_handshake_encode p = write_seq
     [write_var_int (hs_protocol_version p), write_string (hs_server_address p), write_be 2 (hs_server_port p),
      (case handshake_id (hs_next_state p) of
         None \<Rightarrow> Err (Invalid (''cannot encode handshake next_state: '' @ state_display (hs_next_state p)))
       | Some i \<Rightarrow> write_var_int (word_of_int i))]"

section \<open>Status\<close>

record c_status_response = json_response :: string

definition c_status_response_decode :: "bytes \<Rightarrow> protocol_error + (c_status_response \<times> bytes)" where
  "c_status_response_decode r = dbind (read_string r) (\<lambda>json r. Ok (\<lparr>json_response = json\<rparr>, r))"

definition c_status_response_encode :: "c_status_response \<Rightarrow> protocol_error + bytes" where
  "c_status_response_encode p = write_seq [write_string (json_response p)]"

text \<open>\<open>SPingRequest\<close> and \<open>CPingResponse\<close> have the same body; \<open>SStatusRequest\<close> has none.\<close>

record s_ping_request = ping_payload :: i64

definition s_ping_request_decode :: "bytes \<Rightarrow> protocol_error + (s_ping_request \<times> bytes)" where
  "s_ping_request_decode r = dbind (read_be 8 r) (\<lambda>payload r. Ok (\<lparr>ping_payload = payload\<rparr>, r))"

definition s_ping_request_encode :: "s_ping_request \<Rightarrow> protocol_error + bytes" where
  "s_ping_request_encode p = write_seq [write_be 8 (ping_payload p)]"

record c_ping_response = pong_payload :: i64

definition c_ping_response_decode :: "bytes \<Rightarrow> protocol_error + (c_ping_response \<times> bytes)" where
  "c_ping_response_decode r = dbind (read_be 8 r) (\<lambda>payload r. Ok (\<lparr>pong_payload = payload\<rparr>, r))"

definition c_ping_response_encode :: "c_ping_response \<Rightarrow> protocol_error + bytes" where
  "c_ping_response_encode p = write_seq [write_be 8 (pong_payload p)]"

section \<open>Login helpers\<close>

record property =
  prop_name :: string
  prop_value :: string
  prop_signature :: "string option"

definition read_byte_array_short :: "bytes \<Rightarrow> protocol_error + (bytes \<times> bytes)" where
  "read_byte_array_short r = dbind (read_be 2 r) (\<lambda>len r.
     if sint (len :: 16 word) < 0 then Err (Invalid ''negative byte array length'')
     else read_exact (unat len) r)"

definition write_byte_array_short :: "bytes \<Rightarrow> protocol_error + bytes" where
  "write_byte_array_short data =
     (if length data > 32767 then Err (TooLarge 32767 (length data))
      else write_seq [write_be 2 (word_of_nat (length data) :: 16 word), Ok data])"

definition read_uuid_int_array :: "bytes \<Rightarrow> protocol_error + (u128 \<times> bytes)" where
  "read_uuid_int_array r =
     dbind (read_be 4 r) (\<lambda>a r. dbind (read_be 4 r) (\<lambda>b r.
     dbind (read_be 4 r) (\<lambda>c r. dbind (read_be 4 r) (\<lambda>d r.
       let msb = push_bit 32 (ucast (a :: i32)) OR ucast (b :: i32) :: u64;
           lsb = push_bit 32 (ucast (c :: i32)) OR ucast (d :: i32) :: u64
       in Ok (push_bit 64 (ucast msb) OR ucast lsb, r)))))"

definition write_uuid_int_array :: "u128 \<Rightarrow> protocol_error + bytes" where
  "write_uuid_int_array uuid =
     (let msb = ucast (drop_bit 64 uuid) :: u64; lsb = ucast uuid :: u64
      in write_seq [write_be 4 (ucast (drop_bit 32 msb) :: i32), write_be 4 (ucast msb :: i32),
                    write_be 4 (ucast (drop_bit 32 lsb) :: i32), write_be 4 (ucast lsb :: i32)])"

section \<open>Login start\<close>

record s_login_start =
  ls_name :: string
  ls_uuid :: "u128 option"
  ls_signature_data :: "bytes option"

text \<open>The player key of 1.19 to 1.19.2, kept as the opaque bytes it is sent as.\<close>

definition read_player_key :: "bytes \<Rightarrow> protocol_error + (bytes \<times> bytes)" where
  "read_player_key r =
     dbind (read_be 8 r) (\<lambda>ts r.
     dbind (read_byte_array 512 r) (\<lambda>pk r.
     dbind (read_byte_array 4096 r) (\<lambda>sig r.
       Ok (be_bytes 8 (ts :: i64) @ varint_encode (word_of_nat (length pk)) @ pk
             @ varint_encode (word_of_nat (length sig)) @ sig, r))))"

definition s_login_start_decode :: "protocol_version \<Rightarrow> bytes \<Rightarrow> protocol_error + (s_login_start \<times> bytes)" where
  "s_login_start_decode v r =
     dbind (read_string_bounded 16 r) (\<lambda>name r.
     if name = [] then Err (Invalid ''empty username in SLoginStart'')
     else if v \<ge> V1_19 then
       dbind (if v < V1_19_3 then
                dbind (read_bool r) (\<lambda>b r.
                  if b then dbind (read_player_key r) (\<lambda>k r. Ok (Some k, r)) else Ok (None, r))
              else Ok (None, r)) (\<lambda>signature_data r.
       dbind (if v \<ge> V1_20_2 then Ok (True, r)
              else if v \<ge> V1_19_1 then read_bool r
              else Ok (False, r)) (\<lambda>has_uuid r.
       dbind (if has_uuid then dbind (read_uuid r) (\<lambda>u r. Ok (Some u, r)) else Ok (None, r)) (\<lambda>uuid r.
         Ok (\<lparr>ls_name = name, ls_uuid = uuid, ls_signature_data = signature_data\<rparr>, r))))
     else Ok (\<lparr>ls_name = name, ls_uuid = None, ls_signature_data = None\<rparr>, r))"

definition s_login_start_encode :: "protocol_version \<Rightarrow> s_login_start \<Rightarrow> protocol_error + bytes" where
  "s_login_start_encode v p = write_seq
     [write_string (ls_name p),
      (if v \<ge> V1_19 then write_seq
         [(if v < V1_19_3 then
             (case ls_signature_data p of
                Some sig \<Rightarrow> write_seq [write_bool True, Ok sig]
              | None \<Rightarrow> write_bool False)
           else Ok []),
          (if v \<ge> V1_20_2 then write_uuid (case ls_uuid p of Some u \<Rightarrow> u | None \<Rightarrow> 0)
           else if v \<ge> V1_19_1 then
             (case ls_uuid p of
                Some u \<Rightarrow> write_seq [write_bool True, write_uuid u]
              | None \<Rightarrow> write_bool False)
           else Ok [])]
       else Ok [])]"

section \<open>Encryption\<close>

record c_encryption_request =
  er_server_id :: string
  er_public_key :: bytes
  er_verify_token :: bytes
  er_should_authenticate :: bool

definition c_encryption_request_decode ::
  "protocol_version \<Rightarrow> bytes \<Rightarrow> protocol_error + (c_encryption_request \<times> bytes)" where
  "c_encryption_request_decode v r =
     dbind (read_string_bounded 20 r) (\<lambda>server_id r.
     dbind (if v \<ge> V1_8 then read_byte_array 256 r else read_byte_array_short r) (\<lambda>pk r.
     dbind (if v \<ge> V1_8 then read_byte_array 16 r else read_byte_array_short r) (\<lambda>vt r.
     dbind (if v \<ge> V1_20_5 then read_bool r else Ok (True, r)) (\<lambda>should_authenticate r.
       Ok (\<lparr>er_server_id = server_id, er_public_key = pk, er_verify_token = vt,
            er_should_authenticate = should_authenticate\<rparr>, r)))))"

definition c_encryption_request_encode ::
  "protocol_version \<Rightarrow> c_encryption_request \<Rightarrow> protocol_error + bytes" where
  "c_encryption_request_encode v p = write_seq
     [write_string (er_server_id p),
      (if v \<ge> V1_8 then write_seq [write_byte_array (er_public_key p), write_byte_array (er_verify_token p)]
       else write_seq [write_byte_array_short (er_public_key p), write_byte_array_short (er_verify_token p)]),
      (if v \<ge> V1_20_5 then write_bool (er_should_authenticate p) else Ok [])]"

record s_encryption_response =
  es_shared_secret :: bytes
  es_verify_token :: bytes
  es_salt :: "i64 option"

definition s_encryption_response_decode ::
  "protocol_version \<Rightarrow> bytes \<Rightarrow> protocol_error + (s_encryption_response \<times> bytes)" where
  "s_encryption_response_decode v r =
     (if v \<ge> V1_8 then
        dbind (read_byte_array 128 r) (\<lambda>shared_secret r.
        dbind (if v \<ge> V1_19 \<and> v < V1_19_3 then
                 dbind (read_bool r) (\<lambda>b r.
                   if \<not> b then dbind (read_be 8 r) (\<lambda>s r. Ok (Some s, r)) else Ok (None, r))
               else Ok (None, r)) (\<lambda>salt r.
        dbind (read_byte_array (if v \<ge> V1_19 then 256 else 128) r) (\<lambda>verify_token r.
          Ok (\<lparr>es_shared_secret = shared_secret, es_verify_token = verify_token, es_salt = salt\<rparr>, r))))
      else
        dbind (read_byte_array_short r) (\<lambda>shared_secret r.
        dbind (read_byte_array_short r) (\<lambda>verify_token r.
          Ok (\<lparr>es_shared_secret = shared_secret, es_verify_token = verify_token, es_salt = None\<rparr>, r))))"

definition s_encryption_response_encode ::
  "protocol_version \<Rightarrow> s_encryption_response \<Rightarrow> protocol_error + bytes" where
  "s_encryption_response_encode v p =
     (if v \<ge> V1_8 then write_seq
        [write_byte_array (es_shared_secret p),
         (if v \<ge> V1_19 \<and> v < V1_19_3 then
            (case es_salt p of
               Some salt \<Rightarrow> write_seq [write_bool False, write_be 8 salt]
             | None \<Rightarrow> write_bool True)
          else Ok []),
         write_byte_array (es_verify_token p)]
      else write_seq [write_byte_array_short (es_shared_secret p), write_byte_array_short (es_verify_token p)])"

record c_set_compression = sc_threshold :: i32

definition c_set_compression_decode :: "bytes \<Rightarrow> protocol_error + (c_set_compression \<times> bytes)" where
  "c_set_compression_decode r =
     dbind (read_varint_from_reader r) (\<lambda>threshold r. Ok (\<lparr>sc_threshold = threshold\<rparr>, r))"

definition c_set_compression_encode :: "c_set_compression \<Rightarrow> protocol_error + bytes" where
  "c_set_compression_encode p = write_seq [write_var_int (sc_threshold p)]"

section \<open>Login success\<close>

record c_login_success =
  lk_uuid :: u128
  lk_username :: string
  lk_properties :: "property list"
  lk_strict_error_handling :: bool

text \<open>The \<open>uuid\<close> crate: hyphenated and simple text, and the parser that accepts both.\<close>

record uuid_text =
  uuid_to_string :: "u128 \<Rightarrow> string"
  uuid_as_simple :: "u128 \<Rightarrow> string"
  uuid_parse_str :: "string \<Rightarrow> string + u128"

definition property_decode :: "bytes \<Rightarrow> protocol_error + (property \<times> bytes)" where
  "property_decode r =
     dbind (read_string r) (\<lambda>name r.
     dbind (read_string r) (\<lambda>value r.
     dbind (read_bool r) (\<lambda>b r.
     dbind (if b then dbind (read_string r) (\<lambda>s r. Ok (Some s, r)) else Ok (None, r)) (\<lambda>signature r.
       Ok (\<lparr>prop_name = name, prop_value = value, prop_signature = signature\<rparr>, r)))))"

definition property_encode :: "property \<Rightarrow> protocol_error + bytes" where
  "property_encode p = write_seq
     [write_string (prop_name p), write_string (prop_value p),
      (case prop_signature p of
         Some sig \<Rightarrow> write_seq [write_bool True, write_string sig]
       | None \<Rightarrow> write_bool False)]"

definition c_login_success_decode ::
  "uuid_text \<Rightarrow> protocol_version \<Rightarrow> bytes \<Rightarrow> protocol_error + (c_login_success \<times> bytes)" where
  "c_login_success_decode U v r =
     dbind (if v \<ge> V1_19 then read_uuid r
            else if v \<ge> V1_16 then read_uuid_int_array r
            else if v \<ge> V1_7_6 then
              dbind (read_string_bounded 36 r) (\<lambda>s r. case uuid_parse_str U s of
                  Inl e \<Rightarrow> Err (Invalid (''invalid UUID string: '' @ e)) | Inr u \<Rightarrow> Ok (u, r))
            else
              dbind (read_string_bounded 32 r) (\<lambda>s r. case uuid_parse_str U s of
                  Inl e \<Rightarrow> Err (Invalid (''invalid undashed UUID: '' @ e)) | Inr u \<Rightarrow> Ok (u, r))) (\<lambda>uuid r.
     dbind (read_string_bounded 16 r) (\<lambda>username r.
     dbind (if v \<ge> V1_19 then
              dbind (read_varint_from_reader r) (\<lambda>count r.
                decode_seq property_decode (unat (scast count :: u64)) r)
            else Ok ([], r)) (\<lambda>properties r.
     dbind (if v = V1_20_5 \<or> v = V1_21 then read_bool r else Ok (False, r)) (\<lambda>strict r.
       Ok (\<lparr>lk_uuid = uuid, lk_username = username, lk_properties = properties,
            lk_strict_error_handling = strict\<rparr>, r)))))"

definition c_login_success_encode ::
  "uuid_text \<Rightarrow> protocol_version \<Rightarrow> c_login_success \<Rightarrow> protocol_error + bytes" where
  "c_login_success_encode U v p = write_seq
     [(if v \<ge> V1_19 then write_uuid (lk_uuid p)
       else if v \<ge> V1_16 then write_uuid_int_array (lk_uuid p)
       else if v \<ge> V1_7_6 then write_string (uuid_to_string U (lk_uuid p))
       else write_string (uuid_as_simple U (lk_uuid p))),
      write_string (lk_username p),
      (if v \<ge> V1_19 then write_seq
         [write_var_int (word_of_nat (length (lk_properties p))), encode_seq property_encode (lk_properties p)]
       else Ok []),
      (if v = V1_20_5 \<or> v = V1_21 then write_bool (lk_strict_error_handling p) else Ok [])]"

section \<open>Disconnect, plugin messages\<close>

record c_login_disconnect = ld_reason :: string

definition c_login_disconnect_decode :: "bytes \<Rightarrow> protocol_error + (c_login_disconnect \<times> bytes)" where
  "c_login_disconnect_decode r = dbind (read_string r) (\<lambda>reason r. Ok (\<lparr>ld_reason = reason\<rparr>, r))"

definition c_login_disconnect_encode :: "c_login_disconnect \<Rightarrow> protocol_error + bytes" where
  "c_login_disconnect_encode p = write_seq [write_string (ld_reason p)]"

record c_login_plugin_request =
  pq_message_id :: i32
  pq_channel :: string
  pq_data :: bytes

definition c_login_plugin_request_decode :: "bytes \<Rightarrow> protocol_error + (c_login_plugin_request \<times> bytes)" where
  "c_login_plugin_request_decode r =
     dbind (read_varint_from_reader r) (\<lambda>message_id r.
     dbind (read_string r) (\<lambda>channel r.
     dbind (read_remaining r) (\<lambda>data r.
       Ok (\<lparr>pq_message_id = message_id, pq_channel = channel, pq_data = data\<rparr>, r))))"

definition c_login_plugin_request_encode :: "c_login_plugin_request \<Rightarrow> protocol_error + bytes" where
  "c_login_plugin_request_encode p =
     write_seq [write_var_int (pq_message_id p), write_string (pq_channel p), Ok (pq_data p)]"

record s_login_plugin_response =
  pr_message_id :: i32
  pr_successful :: bool
  pr_data :: bytes

definition s_login_plugin_response_decode :: "bytes \<Rightarrow> protocol_error + (s_login_plugin_response \<times> bytes)" where
  "s_login_plugin_response_decode r =
     dbind (read_varint_from_reader r) (\<lambda>message_id r.
     dbind (read_bool r) (\<lambda>successful r.
     dbind (read_remaining r) (\<lambda>data r.
       Ok (\<lparr>pr_message_id = message_id, pr_successful = successful, pr_data = data\<rparr>, r))))"

definition s_login_plugin_response_encode :: "s_login_plugin_response \<Rightarrow> protocol_error + bytes" where
  "s_login_plugin_response_encode p =
     write_seq [write_var_int (pr_message_id p), write_bool (pr_successful p), Ok (pr_data p)]"

section \<open>Round trips\<close>

lemmas packet_defs = s_handshake_decode_def s_handshake_encode_def c_status_response_decode_def
  c_status_response_encode_def s_ping_request_decode_def s_ping_request_encode_def
  c_ping_response_decode_def c_ping_response_encode_def c_set_compression_decode_def
  c_set_compression_encode_def c_login_disconnect_decode_def c_login_disconnect_encode_def
  c_login_plugin_request_decode_def c_login_plugin_request_encode_def
  s_login_plugin_response_decode_def s_login_plugin_response_encode_def

lemma write_seq_Ok:
  "write_seq (w # ws) = Ok bs \<longleftrightarrow> (\<exists>b cs. w = Ok b \<and> write_seq ws = Ok cs \<and> bs = b @ cs)"
  "write_seq [] = Ok bs \<longleftrightarrow> bs = []"
  by (auto simp: rbind_eq_Ok)

lemma read_byte_array_short_write [codec_rt]:
  "write_byte_array_short d = Ok bs \<Longrightarrow> read_byte_array_short (bs @ r) = Ok (d, r)"
  by (auto simp: write_byte_array_short_def read_byte_array_short_def write_be_def codec_rt signed_of_nat
      signed_take_bit_int_eq_self unat_of_nat split: if_splits)

lemma uuid_halves:
  fixes u :: u128
  shows "push_bit 64 (ucast (ucast (drop_bit 64 u) :: u64)) OR ucast (ucast u :: u64) = u"
  by (rule bit_word_eqI) (auto simp: bit_simps)

lemma u64_halves:
  fixes w :: u64
  shows "push_bit 32 (ucast (ucast (drop_bit 32 w) :: i32)) OR ucast (ucast w :: i32) = w"
  by (rule bit_word_eqI) (auto simp: bit_simps)

lemma read_uuid_int_array_write [codec_rt]:
  "write_uuid_int_array u = Ok bs \<Longrightarrow> read_uuid_int_array (bs @ r) = Ok (u, r)"
  by (auto simp: write_uuid_int_array_def read_uuid_int_array_def write_be_def codec_rt Let_def u64_halves uuid_halves)

lemma read_write_bool [codec_rt]: "write_bool b = Ok bs \<Longrightarrow> read_bool (bs @ r) = Ok (b, r)"
  by (auto simp: write_bool_def codec_rt)

interpretation handshake_codec: lossless_codec s_handshake_encode s_handshake_decode
  "\<lambda>p. rust_string (hs_server_address p) \<and> str_chars (hs_server_address p) \<le> 255"
proof
  fix p bs r
  assume v: "rust_string (hs_server_address p) \<and> str_chars (hs_server_address p) \<le> 255"
    and e: "s_handshake_encode p = Ok bs"
  from e obtain i where i: "handshake_id (hs_next_state p) = Some i"
    by (auto simp: s_handshake_encode_def rbind_eq_Ok split: option.splits)
  have "sint (word_of_int i :: i32) = i" using i by (auto simp: handshake_id_def split: connection_state.splits)
  with v e i from_handshake_id_handshake_id [OF i] show "s_handshake_decode (bs @ r) = Ok (p, r)"
    by (auto simp: packet_defs rbind_eq_Ok writer_defs codec_rt MAX_STRING_CHARS_def)
qed

interpretation status_response_codec: lossless_codec c_status_response_encode c_status_response_decode
  "\<lambda>p. rust_string (json_response p)"
  by unfold_locales (auto simp: packet_defs rbind_eq_Ok codec_rt)

interpretation ping_codec: lossless_codec s_ping_request_encode s_ping_request_decode "\<lambda>_. True"
  by unfold_locales (auto simp: packet_defs rbind_eq_Ok codec_rt writer_defs)

interpretation pong_codec: lossless_codec c_ping_response_encode c_ping_response_decode "\<lambda>_. True"
  by unfold_locales (auto simp: packet_defs rbind_eq_Ok codec_rt writer_defs)

interpretation set_compression_codec: lossless_codec c_set_compression_encode c_set_compression_decode "\<lambda>_. True"
  by unfold_locales (auto simp: packet_defs rbind_eq_Ok codec_rt writer_defs)

interpretation login_disconnect_codec: lossless_codec c_login_disconnect_encode c_login_disconnect_decode
  "\<lambda>p. rust_string (ld_reason p)"
  by unfold_locales (auto simp: packet_defs rbind_eq_Ok codec_rt)

interpretation plugin_request_codec: packet_codec c_login_plugin_request_encode c_login_plugin_request_decode
  "\<lambda>p. rust_string (pq_channel p)"
  by unfold_locales (auto simp: packet_defs rbind_eq_Ok codec_rt writer_defs read_remaining_def)

interpretation plugin_response_codec: packet_codec s_login_plugin_response_encode s_login_plugin_response_decode
  "\<lambda>_. True"
  by unfold_locales (auto simp: packet_defs rbind_eq_Ok codec_rt writer_defs read_remaining_def)

text \<open>
  What of a login start survives the wire in a version: the key exists from 1.19 to 1.19.2,
  the UUID from 1.19.1 on, and from 1.20.2 on an absent UUID is sent as the nil UUID.
\<close>

definition login_start_on_wire :: "protocol_version \<Rightarrow> s_login_start \<Rightarrow> s_login_start" where
  "login_start_on_wire v p = p\<lparr>
     ls_uuid := if v \<ge> V1_20_2 then Some (case ls_uuid p of Some u \<Rightarrow> u | None \<Rightarrow> 0)
                else if v \<ge> V1_19_1 then ls_uuid p else None,
     ls_signature_data := if v \<ge> V1_19 \<and> v < V1_19_3 then ls_signature_data p else None\<rparr>"

definition player_key :: "i64 \<Rightarrow> bytes \<Rightarrow> bytes \<Rightarrow> bytes" where
  "player_key ts pk sig = be_bytes 8 ts @ varint_encode (word_of_nat (length pk)) @ pk
     @ varint_encode (word_of_nat (length sig)) @ sig"

lemma read_player_key_Ok [codec_rt]:
  "length pk \<le> 512 \<Longrightarrow> length sig \<le> 4096 \<Longrightarrow> read_player_key (player_key ts pk sig @ r) = Ok (player_key ts pk sig, r)"
  by (simp add: read_player_key_def player_key_def codec_rt)

definition login_start_valid :: "s_login_start \<Rightarrow> bool" where
  "login_start_valid p \<longleftrightarrow> rust_string (ls_name p) \<and> ls_name p \<noteq> [] \<and> str_chars (ls_name p) \<le> 16 \<and>
     pred_option (\<lambda>k. \<exists>ts pk sig. k = player_key ts pk sig \<and> length pk \<le> 512 \<and> length sig \<le> 4096) (ls_signature_data p)"

text \<open>C34. A login start written for any protocol version is read back in that version as
  what the version carries of it: the player key from 1.19 to 1.19.2, the optional UUID from 1.19.1, and the
  mandatory UUID from 1.20.2 on, where an absent one comes back as nil.\<close>

theorem login_start_roundtrip:
  assumes "login_start_valid p" "s_login_start_encode v p = Ok bs"
  shows "s_login_start_decode v (bs @ r) = Ok (login_start_on_wire v p, r)"
proof -
  obtain n u k where p: "p = \<lparr>ls_name = n, ls_uuid = u, ls_signature_data = k\<rparr>" by (cases p)
  show ?thesis
  proof (cases k)
    case None
    with assms p show ?thesis
      by (auto simp: s_login_start_encode_def s_login_start_decode_def login_start_on_wire_def login_start_valid_def
          rbind_eq_Ok writer_defs codec_rt MAX_STRING_CHARS_def split: option.splits if_splits)
  next
    case (Some key)
    with assms p obtain ts pk sig where "key = player_key ts pk sig" "length pk \<le> 512" "length sig \<le> 4096"
      by (auto simp: login_start_valid_def)
    with Some assms p show ?thesis
      by (auto simp: s_login_start_encode_def s_login_start_decode_def login_start_on_wire_def login_start_valid_def
          rbind_eq_Ok writer_defs codec_rt MAX_STRING_CHARS_def split: option.splits if_splits)
  qed
qed

theorem login_start_roundtrip_witness:
  "s_login_start_decode V1_19_1 ([2, 0x68, 0x69, 0, 1] @ be_bytes 16 (7 :: u128) @ [9]) =
     Ok (\<lparr>ls_name = ''hi'', ls_uuid = Some 7, ls_signature_data = None\<rparr>, [9])"
  using login_start_roundtrip [of "\<lparr>ls_name = ''hi'', ls_uuid = Some 7, ls_signature_data = None\<rparr>" V1_19_1
      "[2, 0x68, 0x69, 0, 1] @ be_bytes 16 (7 :: u128)" "[9]"]
  by (simp add: login_start_valid_def login_start_on_wire_def s_login_start_encode_def writer_defs
      write_string_def encode_string_def Let_def rust_string_def str_bytes_def str_chars_def chars_count_def utf8_cont_def
      MAX_STRING_CHARS_def varint_encode_leb128 leb128_small)

section \<open>Encryption and login success\<close>

interpretation encryption_request_codec: lossless_codec "c_encryption_request_encode v" "c_encryption_request_decode v"
  "\<lambda>p. rust_string (er_server_id p) \<and> str_chars (er_server_id p) \<le> 20
     \<and> (v \<ge> V1_8 \<longrightarrow> length (er_public_key p) \<le> 256 \<and> length (er_verify_token p) \<le> 16)
     \<and> (v < V1_20_5 \<longrightarrow> er_should_authenticate p)" for v
  by unfold_locales
    (auto simp: c_encryption_request_encode_def c_encryption_request_decode_def rbind_eq_Ok writer_defs codec_rt
      MAX_STRING_CHARS_def split: if_splits)

interpretation encryption_response_codec: lossless_codec "s_encryption_response_encode v" "s_encryption_response_decode v"
  "\<lambda>p. (v \<ge> V1_8 \<longrightarrow> length (es_shared_secret p) \<le> 128 \<and> length (es_verify_token p) \<le> (if v \<ge> V1_19 then 256 else 128))
     \<and> (\<not> (v \<ge> V1_19 \<and> v < V1_19_3) \<longrightarrow> es_salt p = None)" for v
  by unfold_locales
    (auto simp: s_encryption_response_encode_def s_encryption_response_decode_def rbind_eq_Ok writer_defs codec_rt
      split: if_splits option.splits)

definition property_valid :: "property \<Rightarrow> bool" where
  "property_valid p \<longleftrightarrow> rust_string (prop_name p) \<and> rust_string (prop_value p) \<and> pred_option rust_string (prop_signature p)"

interpretation property_codec: lossless_codec property_encode property_decode property_valid
  by unfold_locales
    (auto simp: property_encode_def property_decode_def property_valid_def rbind_eq_Ok writer_defs codec_rt split: option.splits)

text \<open>What the code relies on of the \<open>uuid\<close> crate: its parser reads both text forms it prints.\<close>

definition uuid_text_ok :: "uuid_text \<Rightarrow> bool" where
  "uuid_text_ok U \<longleftrightarrow> (\<forall>u. uuid_parse_str U (uuid_to_string U u) = Inr u \<and> uuid_parse_str U (uuid_as_simple U u) = Inr u
     \<and> rust_string (uuid_to_string U u) \<and> str_chars (uuid_to_string U u) = 36
     \<and> rust_string (uuid_as_simple U u) \<and> str_chars (uuid_as_simple U u) = 32)"

definition login_success_valid :: "protocol_version \<Rightarrow> c_login_success \<Rightarrow> bool" where
  "login_success_valid v p \<longleftrightarrow> rust_string (lk_username p) \<and> str_chars (lk_username p) \<le> 16
     \<and> (if v \<ge> V1_19 then list_all property_valid (lk_properties p) \<and> length (lk_properties p) < 2 ^ 31
        else lk_properties p = [])
     \<and> (v \<noteq> V1_20_5 \<and> v \<noteq> V1_21 \<longrightarrow> \<not> lk_strict_error_handling p)"

lemma scast_len_i32: "n < 2 ^ 31 \<Longrightarrow> unat (scast (word_of_nat n :: i32) :: u64) = n"
  by (simp add: scast_eq signed_of_nat signed_take_bit_int_eq_self unat_of_nat)

lemma login_success_properties [codec_rt]:
  assumes "list_all property_valid ps" "length ps < 2 ^ 31" "encode_seq property_encode ps = Ok bs"
  shows "decode_seq property_decode (unat (scast (word_of_nat (length ps) :: i32) :: u64)) (bs @ r) = Ok (ps, r)"
  using property_codec.seq_dec_enc [OF _ assms(3), of r] assms(1,2) by (simp add: scast_len_i32 list_all_iff)


text \<open>An instance of the parameter: the hexadecimal text forms.\<close>

definition hex_digit :: "nat \<Rightarrow> char" where
  "hex_digit n = char_of (if n < 10 then 48 + n else 87 + n)"

definition unhex :: "char \<Rightarrow> nat" where
  "unhex c = (if of_char c < (58 :: nat) then of_char c - 48 else of_char c - 87)"

definition hex_byte :: "u8 \<Rightarrow> string" where
  "hex_byte b = [hex_digit (unat b div 16), hex_digit (unat b mod 16)]"

fun unhex_bytes :: "string \<Rightarrow> bytes" where
  "unhex_bytes (h # l # r) = word_of_nat (16 * unhex h + unhex l) # unhex_bytes r"
| "unhex_bytes _ = []"

definition hex_simple :: "u128 \<Rightarrow> string" where
  "hex_simple u = concat (map hex_byte (be_bytes 16 u))"

definition hex_hyphenated :: "u128 \<Rightarrow> string" where
  "hex_hyphenated u = (let s = hex_simple u in take 8 s @ ''-'' @ take 4 (drop 8 s) @ ''-'' @ take 4 (drop 12 s)
     @ ''-'' @ take 4 (drop 16 s) @ ''-'' @ drop 20 s)"

definition hex_uuid :: uuid_text where
  "hex_uuid = \<lparr>uuid_to_string = hex_hyphenated, uuid_as_simple = hex_simple,
     uuid_parse_str = (\<lambda>s. Inr (from_be_bytes (unhex_bytes (filter (\<lambda>c. c \<noteq> CHR ''-'') s))))\<rparr>"

lemma hex_digit_props:
  assumes "n < 16"
  shows "unhex (hex_digit n) = n" "of_char (hex_digit n) < (128 :: nat)" "hex_digit n \<noteq> CHR ''-''"
proof -
  have o: "of_char (hex_digit n) = (if n < 10 then 48 + n else 87 + n)" using assms by (simp add: hex_digit_def)
  with assms show "unhex (hex_digit n) = n" "of_char (hex_digit n) < (128 :: nat)" by (simp_all add: unhex_def)
  have "of_char (CHR ''-'') = (45 :: nat)" by simp
  moreover have "of_char (hex_digit n) \<noteq> (45 :: nat)" using o by simp
  ultimately show "hex_digit n \<noteq> CHR ''-''" by metis
qed

lemma hex_byte_props:
  "unhex_bytes (hex_byte b @ s) = b # unhex_bytes s"
  "\<forall>c \<in> set (hex_byte b). of_char c < (128 :: nat) \<and> c \<noteq> CHR ''-''" "length (hex_byte b) = 2"
proof -
  have b: "unat b div 16 < 16" using unsigned_less [of b, where 'a = nat] by (simp add: less_mult_imp_div_less)
  then show "unhex_bytes (hex_byte b @ s) = b # unhex_bytes s"
    by (simp add: hex_byte_def hex_digit_props)
  show "\<forall>c \<in> set (hex_byte b). of_char c < (128 :: nat) \<and> c \<noteq> CHR ''-''" "length (hex_byte b) = 2"
    using b by (auto simp: hex_byte_def hex_digit_props)
qed

lemma hex_bytes_props:
  "unhex_bytes (concat (map hex_byte bs)) = bs"
  "\<forall>c \<in> set (concat (map hex_byte bs)). of_char c < (128 :: nat) \<and> c \<noteq> CHR ''-''"
  "length (concat (map hex_byte bs)) = 2 * length bs"
  by (induction bs) (use hex_byte_props in auto)

lemma hex_filter: "filter (\<lambda>c. c \<noteq> CHR ''-'') (hex_hyphenated u) = hex_simple u"
proof -
  let ?s = "hex_simple u" and ?P = "\<lambda>c. c \<noteq> CHR ''-''"
  have keep: "filter ?P (take i (drop j ?s)) = take i (drop j ?s)" "filter ?P (drop j ?s) = drop j ?s" "filter ?P (take i ?s) = take i ?s" for i j
    using hex_bytes_props(2) [of "be_bytes 16 u"] unfolding hex_simple_def [symmetric]
    by (auto simp: filter_id_conv dest!: in_set_takeD in_set_dropD)
  have "take 8 ?s @ take 4 (drop 8 ?s) @ take 4 (drop 12 ?s) @ take 4 (drop 16 ?s) @ drop 20 ?s = ?s"
    using append_take_drop_id [of 4 "drop 16 ?s"] append_take_drop_id [of 4 "drop 12 ?s"]
      append_take_drop_id [of 4 "drop 8 ?s"] append_take_drop_id [of 8 ?s] by simp
  then show ?thesis by (simp add: hex_hyphenated_def Let_def keep)
qed

lemma hex_uuid_ok: "uuid_text_ok hex_uuid"
proof -
  have "\<forall>c \<in> set (hex_simple u). of_char c < (128 :: nat) \<and> c \<noteq> CHR ''-''" "length (hex_simple u) = 32"
    "unhex_bytes (hex_simple u) = be_bytes 16 u" for u
    using hex_bytes_props [of "be_bytes 16 u"] by (simp_all add: hex_simple_def)
  note s = this
  have h: "\<forall>c \<in> set (hex_hyphenated u). of_char c < (128 :: nat)" "length (hex_hyphenated u) = 36" for u
    using s [of u] by (auto simp: hex_hyphenated_def Let_def dest!: in_set_takeD in_set_dropD)
  have f: "filter (\<lambda>c. c \<noteq> CHR ''-'') (hex_simple u) = hex_simple u" for u
    using s(1) [of u] by (auto simp: filter_id_conv)
  show ?thesis
    using s h ascii_string [of "hex_simple _"] ascii_string [of "hex_hyphenated _"]
    by (simp add: uuid_text_ok_def hex_uuid_def hex_filter f from_be_be_bytes)
qed


text \<open>C36. A handshake whose address has at most 255 characters is written and read back
  unchanged exactly when its next state is one that can follow a handshake, and refused otherwise.\<close>

theorem handshake_roundtrip:
  assumes "rust_string (hs_server_address p)" "str_chars (hs_server_address p) \<le> 255"
  shows "if hs_next_state p \<in> {Status, Login}
    then \<exists>bs. s_handshake_encode p = Ok bs \<and> (\<forall>r. s_handshake_decode (bs @ r) = Ok (p, r))
    else \<exists>m. s_handshake_encode p = Err (Invalid m)"
proof -
  show ?thesis
  proof (cases "handshake_id (hs_next_state p)")
    case None
    then show ?thesis using assms(2) by (auto simp: s_handshake_encode_def handshake_id_def writer_defs write_string_wire MAX_STRING_CHARS_def split: connection_state.splits)
  next
    case (Some i)
    then obtain bs where "s_handshake_encode p = Ok bs" using assms(2)
      by (auto simp: s_handshake_encode_def writer_defs write_string_wire MAX_STRING_CHARS_def)
    with Some handshake_codec.dec_enc [of p bs] assms show ?thesis by (auto simp: handshake_id_def split: connection_state.splits)
  qed
qed

theorem handshake_roundtrip_witness:
  "\<exists>bs. s_handshake_encode \<lparr>hs_protocol_version = 767, hs_server_address = ''a.b'', hs_server_port = 25565, hs_next_state = Login\<rparr> = Ok bs"
  using handshake_roundtrip [of "\<lparr>hs_protocol_version = 767, hs_server_address = ''a.b'', hs_server_port = 25565, hs_next_state = Login\<rparr>"]
    ascii_string [of "''a.b''"] by auto

end
