(* ===== verification/PacketRegistry.thy ===== *)
theory PacketRegistry
  imports Frames Version
begin

text \<open>
  The packet registry: \<open>registry/mod.rs\<close> and \<open>registry/builder.rs\<close>, with the table of packet ids of
  \<open>build_default_registry\<close>.

  A packet type stands for its \<open>TypeId\<close> and for its decoder; what the decoder of a type answers is a
  parameter of \<open>decode_frame\<close>.
\<close>

section \<open>The registry\<close>

type_synonym registry_key = "connection_state \<times> direction \<times> protocol_version"

datatype 'p decoded_packet = Typed i32 'p | Opaque i32 bytes

record 't version_registry =
  id_to_decoder :: "i32 \<rightharpoonup> 't"
  type_to_id :: "'t \<rightharpoonup> i32"

type_synonym 't packet_registry = "registry_key \<rightharpoonup> 't version_registry"

definition packet_registry_new :: "'t packet_registry" where
  "packet_registry_new = Map.empty"

definition version_entry :: "registry_key \<Rightarrow> 't packet_registry \<Rightarrow> 't version_registry" where
  "version_entry key reg = (case reg key of Some ver_reg \<Rightarrow> ver_reg | None \<Rightarrow> \<lparr>id_to_decoder = Map.empty, type_to_id = Map.empty\<rparr>)"

definition decode_frame ::
  "('t \<Rightarrow> bytes \<Rightarrow> protocol_version \<Rightarrow> protocol_error + 'p) \<Rightarrow> packet_frame \<Rightarrow> connection_state \<Rightarrow> direction \<Rightarrow> protocol_version \<Rightarrow>
   't packet_registry \<Rightarrow> protocol_error + 'p decoded_packet" where
  "decode_frame decoder frame state dir version reg =
     (case reg (state, dir, version) of
        None \<Rightarrow> Ok (Opaque (frame_id frame) (frame_payload frame))
      | Some ver_reg \<Rightarrow>
          (case id_to_decoder ver_reg (frame_id frame) of
             None \<Rightarrow> Ok (Opaque (frame_id frame) (frame_payload frame))
           | Some t \<Rightarrow> rbind (decoder t (frame_payload frame) version) (\<lambda>packet. Ok (Typed (frame_id frame) packet))))"

definition get_packet_id :: "'t \<Rightarrow> connection_state \<Rightarrow> direction \<Rightarrow> protocol_version \<Rightarrow> 't packet_registry \<Rightarrow> i32 option" where
  "get_packet_id t state dir version reg =
     (case reg (state, dir, version) of None \<Rightarrow> None | Some ver_reg \<Rightarrow> type_to_id ver_reg t)"

definition has_decoder :: "connection_state \<Rightarrow> direction \<Rightarrow> protocol_version \<Rightarrow> i32 \<Rightarrow> 't packet_registry \<Rightarrow> bool" where
  "has_decoder state dir version pid reg =
     (case reg (state, dir, version) of None \<Rightarrow> False | Some ver_reg \<Rightarrow> id_to_decoder ver_reg pid \<noteq> None)"

definition insert_type_mapping :: "registry_key \<Rightarrow> 't \<Rightarrow> i32 \<Rightarrow> 't packet_registry \<Rightarrow> 't packet_registry" where
  "insert_type_mapping key t pid reg =
     (let ver_reg = version_entry key reg in reg(key \<mapsto> ver_reg\<lparr>type_to_id := (type_to_id ver_reg)(t \<mapsto> pid)\<rparr>))"

definition insert_decoder :: "registry_key \<Rightarrow> i32 \<Rightarrow> 't \<Rightarrow> 't packet_registry \<Rightarrow> 't packet_registry" where
  "insert_decoder key pid t reg =
     (let ver_reg = version_entry key reg in reg(key \<mapsto> ver_reg\<lparr>id_to_decoder := (id_to_decoder ver_reg)(pid \<mapsto> t)\<rparr>))"

section \<open>Registrations\<close>

record packet_mapping =
  mp_id :: i32
  mp_from :: protocol_version
  mp_to :: "protocol_version option"
  mp_encode_only :: bool

record 't packet_registration =
  pr_packet :: 't
  pr_state :: connection_state
  pr_direction :: direction
  pr_mappings :: "packet_mapping list"

definition registration_new :: "'t \<Rightarrow> connection_state \<Rightarrow> direction \<Rightarrow> 't packet_registration" where
  "registration_new t state dir = \<lparr>pr_packet = t, pr_state = state, pr_direction = dir, pr_mappings = []\<rparr>"

definition map_packet :: "i32 \<Rightarrow> protocol_version \<Rightarrow> bool \<Rightarrow> 't packet_registration \<Rightarrow> 't packet_registration" where
  "map_packet pid from encode_only r =
     r\<lparr>pr_mappings := pr_mappings r @ [\<lparr>mp_id = pid, mp_from = from, mp_to = None, mp_encode_only = encode_only\<rparr>]\<rparr>"

definition map_range ::
  "i32 \<Rightarrow> protocol_version \<Rightarrow> protocol_version \<Rightarrow> bool \<Rightarrow> 't packet_registration \<Rightarrow> 't packet_registration" where
  "map_range pid from to encode_only r =
     r\<lparr>pr_mappings := pr_mappings r @ [\<lparr>mp_id = pid, mp_from = from, mp_to = Some to, mp_encode_only = encode_only\<rparr>]\<rparr>"

text \<open>The last version of the mapping at an index, and whether it is included.\<close>

definition mapping_end :: "packet_mapping list \<Rightarrow> nat \<Rightarrow> packet_mapping \<Rightarrow> protocol_version \<times> bool" where
  "mapping_end mappings i m =
     (case mp_to m of
        Some to \<Rightarrow> (to, True)
      | None \<Rightarrow> if Suc i < length mappings then (mp_from (mappings ! Suc i), False) else (last SUPPORTED, True))"

definition register_version ::
  "'t packet_registration \<Rightarrow> packet_mapping \<Rightarrow> protocol_version \<Rightarrow> 't packet_registry \<Rightarrow> 't packet_registry" where
  "register_version r m version reg =
     (let key = (pr_state r, pr_direction r, version);
          reg = insert_type_mapping key (pr_packet r) (mp_id m) reg
      in if mp_encode_only m then reg else insert_decoder key (mp_id m) (pr_packet r) reg)"

definition register_packet :: "'t packet_registration \<Rightarrow> 't packet_registry \<Rightarrow> 't packet_registry" where
  "register_packet r reg =
     (if SUPPORTED = [] then reg
      else fold (\<lambda>(i, m) reg.
             let (to, inclusive) = mapping_end (pr_mappings r) i m
             in fold (\<lambda>version reg. if \<not> inclusive \<and> version = to then reg else register_version r m version reg)
                  (version_range (mp_from m) to) reg)
           (enumerate 0 (pr_mappings r)) reg)"

section \<open>The default registry\<close>

definition registration ::
  "'t \<Rightarrow> connection_state \<Rightarrow> direction \<Rightarrow> (i32 \<times> protocol_version \<times> bool) list \<Rightarrow> 't packet_registration" where
  "registration t state dir ms = fold (\<lambda>(pid, from, encode_only). map_packet pid from encode_only) ms (registration_new t state dir)"

datatype packet_type =
    SHandshake | SStatusRequest | SPingRequest | CStatusResponse | CPingResponse | SLoginStart
  | SEncryptionResponse | SLoginPluginResponse | SLoginAcknowledged | CLoginDisconnect | CEncryptionRequest
  | CLoginSuccess | CSetCompression | CLoginPluginRequest | SConfigPluginMessage | SAcknowledgeFinishConfig
  | SKnownPacks | CConfigPluginMessage | CConfigDisconnect | CFinishConfig | CRegistryData | CKnownPacks
  | CCommands | STabCompleteRequest | CTabCompleteResponse | CKeepAlive | CDisconnect | CJoinGame | CRespawn
  | CPluginMessage | CChatMessageLegacy | CSystemChatMessage | CTitleLegacy | CSetTitle | CSetSubtitle
  | CSetTitleTimes | CTransfer | CStartConfiguration | CGameEvent | CSetCenterChunk | CChunkBatchStart
  | CChunkBatchFinished | CSetDefaultSpawnPosition | CSynchronizePlayerPosition | SAcknowledgeConfiguration
  | SKeepAlive | SChatMessage | SChatCommand | SChatSessionUpdate | SPluginMessage

definition handshake_status_login_packets :: "packet_type packet_registration list" where
  "handshake_status_login_packets =
     [
      registration SHandshake Handshake Serverbound
        [(0x00, V1_7_2, False)],
      registration SStatusRequest Status Serverbound
        [(0x00, V1_7_2, False)],
      registration SPingRequest Status Serverbound
        [(0x01, V1_7_2, False)],
      registration CStatusResponse Status Clientbound
        [(0x00, V1_7_2, False)],
      registration CPingResponse Status Clientbound
        [(0x01, V1_7_2, False)],
      registration SLoginStart Login Serverbound
        [(0x00, V1_7_2, False)],
      registration SEncryptionResponse Login Serverbound
        [(0x01, V1_7_2, False)],
      registration SLoginPluginResponse Login Serverbound
        [(0x02, V1_13, False)],
      registration SLoginAcknowledged Login Serverbound
        [(0x03, V1_20_2, False)],
      registration CLoginDisconnect Login Clientbound
        [(0x00, V1_7_2, False)],
      registration CEncryptionRequest Login Clientbound
        [(0x01, V1_7_2, False)],
      registration CLoginSuccess Login Clientbound
        [(0x02, V1_7_2, False)],
      registration CSetCompression Login Clientbound
        [(0x03, V1_8, False)],
      registration CLoginPluginRequest Login Clientbound
        [(0x04, V1_13, False)]]"

definition config_packets :: "packet_type packet_registration list" where
  "config_packets =
     [
      registration SConfigPluginMessage Config Serverbound
        [(0x01, V1_20_2, False), (0x02, V1_20_5, False)],
      registration SAcknowledgeFinishConfig Config Serverbound
        [(0x02, V1_20_2, False), (0x03, V1_20_5, False)],
      registration SKnownPacks Config Serverbound
        [(0x07, V1_20_5, False)],
      registration CConfigPluginMessage Config Clientbound
        [(0x00, V1_20_2, False), (0x01, V1_20_5, False)],
      registration CConfigDisconnect Config Clientbound
        [(0x01, V1_20_2, False), (0x02, V1_20_5, False)],
      registration CFinishConfig Config Clientbound
        [(0x02, V1_20_2, False), (0x03, V1_20_5, False)],
      registration CRegistryData Config Clientbound
        [(0x05, V1_20_2, False), (0x07, V1_20_5, False)],
      registration CKnownPacks Config Clientbound
        [(0x0E, V1_20_5, False)]]"

definition play_command_packets :: "packet_type packet_registration list" where
  "play_command_packets =
     [
      registration CCommands Play Clientbound
        [(0x11, V1_13, False), (0x12, V1_15, False), (0x11, V1_16, False), (0x10, V1_16_2, False),
         (0x12, V1_17, False), (0x0F, V1_19, False), (0x0E, V1_19_3, False), (0x10, V1_19_4, False),
         (0x11, V1_20_2, False), (0x10, V1_21_5, False)],
      registration STabCompleteRequest Play Serverbound
        [(0x05, V1_13, False), (0x06, V1_14, False), (0x08, V1_19, False), (0x09, V1_19_1, False),
         (0x08, V1_19_3, False), (0x09, V1_19_4, False), (0x0A, V1_20_2, False), (0x0B, V1_20_5, False),
         (0x0D, V1_21_2, False), (0x0E, V1_21_6, False)],
      registration CTabCompleteResponse Play Clientbound
        [(0x10, V1_13, False), (0x11, V1_15, False), (0x10, V1_16, False), (0x0F, V1_16_2, False),
         (0x11, V1_17, False), (0x0E, V1_19, False), (0x0D, V1_19_3, False), (0x0F, V1_19_4, False),
         (0x10, V1_20_2, False), (0x0F, V1_21_5, False)],
      registration CKeepAlive Play Clientbound
        [(0x00, V1_7_2, False), (0x1F, V1_9, False), (0x21, V1_13, False), (0x20, V1_14, False),
         (0x21, V1_15, False), (0x20, V1_16, False), (0x1F, V1_16_2, False), (0x21, V1_17, False),
         (0x1E, V1_19, False), (0x20, V1_19_1, False), (0x1F, V1_19_3, False), (0x23, V1_19_4, False),
         (0x24, V1_20_2, False), (0x26, V1_20_5, False), (0x27, V1_21_2, False), (0x26, V1_21_5, False),
         (0x2B, V1_21_9, False)],
      registration CDisconnect Play Clientbound
        [(0x40, V1_7_2, False), (0x1A, V1_9, False), (0x1B, V1_13, False), (0x1A, V1_14, False),
         (0x1B, V1_15, False), (0x1A, V1_16, False), (0x19, V1_16_2, False), (0x1A, V1_17, False),
         (0x17, V1_19, False), (0x19, V1_19_1, False), (0x17, V1_19_3, False), (0x1A, V1_19_4, False),
         (0x1B, V1_20_2, False), (0x1D, V1_20_5, False), (0x1C, V1_21_5, False), (0x20, V1_21_9, False)]]"

definition play_world_packets :: "packet_type packet_registration list" where
  "play_world_packets =
     [
      registration CJoinGame Play Clientbound
        [(0x01, V1_7_2, True), (0x23, V1_9, True), (0x25, V1_13, True), (0x25, V1_14, True),
         (0x26, V1_15, True), (0x25, V1_16, True), (0x24, V1_16_2, True), (0x26, V1_17, True),
         (0x23, V1_19, True), (0x25, V1_19_1, True), (0x24, V1_19_3, True), (0x28, V1_19_4, True),
         (0x29, V1_20_2, True), (0x2B, V1_20_5, True), (0x2C, V1_21_2, True), (0x2B, V1_21_5, True),
         (0x30, V1_21_9, True)],
      registration CRespawn Play Clientbound
        [(0x07, V1_7_2, True), (0x33, V1_9, True), (0x34, V1_12, True), (0x35, V1_12_1, True),
         (0x38, V1_13, True), (0x3A, V1_14, True), (0x3B, V1_15, True), (0x3A, V1_16, True),
         (0x39, V1_16_2, True), (0x3D, V1_17, True), (0x3B, V1_19, True), (0x3E, V1_19_1, True),
         (0x3D, V1_19_3, True), (0x41, V1_19_4, True), (0x43, V1_20_2, True), (0x45, V1_20_3, True),
         (0x47, V1_20_5, True), (0x4C, V1_21_2, True), (0x4B, V1_21_5, True), (0x50, V1_21_9, True)],
      registration CPluginMessage Play Clientbound
        [(0x3F, V1_7_2, True), (0x18, V1_9, True), (0x19, V1_13, True), (0x18, V1_14, True),
         (0x19, V1_15, True), (0x18, V1_16, True), (0x17, V1_16_2, True), (0x18, V1_17, True),
         (0x15, V1_19, True), (0x16, V1_19_1, True), (0x15, V1_19_3, True), (0x17, V1_19_4, True),
         (0x18, V1_20_2, True), (0x19, V1_20_5, True), (0x18, V1_21_5, True)],
      registration CChatMessageLegacy Play Clientbound
        [(0x02, V1_7_2, True), (0x0F, V1_9, True), (0x0E, V1_13, True), (0x0F, V1_15, True),
         (0x0E, V1_16, True), (0x0F, V1_17, True)],
      registration CSystemChatMessage Play Clientbound
        [(0x5F, V1_19, True), (0x62, V1_19_1, True), (0x60, V1_19_3, True), (0x64, V1_19_4, True),
         (0x67, V1_20_2, True), (0x69, V1_20_3, True), (0x6C, V1_20_5, True), (0x73, V1_21_2, True),
         (0x72, V1_21_5, True), (0x77, V1_21_9, True)]]"

definition play_title_packets :: "packet_type packet_registration list" where
  "play_title_packets =
     [
      registration CTitleLegacy Play Clientbound
        [(0x45, V1_8, True), (0x47, V1_9, True), (0x48, V1_12, True), (0x4B, V1_13, True),
         (0x4F, V1_14, True), (0x50, V1_15, True), (0x4F, V1_16, True)],
      registration CSetTitle Play Clientbound
        [(0x59, V1_17, True), (0x5A, V1_18, True), (0x5D, V1_19_1, True), (0x5B, V1_19_3, True),
         (0x5F, V1_19_4, True), (0x61, V1_20_2, True), (0x63, V1_20_3, True), (0x65, V1_20_5, True),
         (0x6C, V1_21_2, True), (0x6B, V1_21_5, True), (0x70, V1_21_9, True)],
      registration CSetSubtitle Play Clientbound
        [(0x57, V1_17, True), (0x58, V1_18, True), (0x5B, V1_19_1, True), (0x59, V1_19_3, True),
         (0x5D, V1_19_4, True), (0x5F, V1_20_2, True), (0x61, V1_20_3, True), (0x63, V1_20_5, True),
         (0x6A, V1_21_2, True), (0x69, V1_21_5, True), (0x6E, V1_21_9, True)],
      registration CSetTitleTimes Play Clientbound
        [(0x5A, V1_17, True), (0x5B, V1_18, True), (0x5E, V1_19_1, True), (0x5C, V1_19_3, True),
         (0x60, V1_19_4, True), (0x62, V1_20_2, True), (0x64, V1_20_3, True), (0x66, V1_20_5, True),
         (0x6D, V1_21_2, True), (0x6C, V1_21_5, True), (0x71, V1_21_9, True)],
      registration CTransfer Play Clientbound
        [(0x73, V1_20_5, True), (0x7A, V1_21_2, True), (0x7F, V1_21_9, True)],
      registration CStartConfiguration Play Clientbound
        [(0x65, V1_20_2, True), (0x67, V1_20_3, True), (0x69, V1_20_5, True), (0x70, V1_21_2, True),
         (0x6F, V1_21_5, True), (0x74, V1_21_9, True)]]"

definition play_limbo_packets :: "packet_type packet_registration list" where
  "play_limbo_packets =
     [
      registration CGameEvent Play Clientbound
        [(0x1B, V1_9, True), (0x1E, V1_13, True), (0x1D, V1_14, True), (0x1E, V1_15, True),
         (0x1D, V1_16, True), (0x1C, V1_16_2, True), (0x1D, V1_17, True), (0x1B, V1_19, True),
         (0x1D, V1_19_1, True), (0x1C, V1_19_3, True), (0x20, V1_19_4, True), (0x20, V1_20_2, True),
         (0x22, V1_20_5, True), (0x23, V1_21_2, True), (0x22, V1_21_5, True), (0x26, V1_21_9, True)],
      registration CSetCenterChunk Play Clientbound
        [(0x40, V1_14, True), (0x41, V1_15, True), (0x40, V1_16, True), (0x49, V1_17, True),
         (0x4A, V1_18, True), (0x48, V1_19, True), (0x4B, V1_19_1, True), (0x4A, V1_19_3, True),
         (0x4E, V1_19_4, True), (0x50, V1_20_2, True), (0x52, V1_20_3, True), (0x54, V1_20_5, True),
         (0x58, V1_21_2, True), (0x57, V1_21_5, True), (0x5C, V1_21_9, True)],
      registration CChunkBatchStart Play Clientbound
        [(0x0D, V1_20_2, True), (0x0D, V1_20_5, True), (0x0C, V1_21_5, True), (0x0C, V1_21_9, True)],
      registration CChunkBatchFinished Play Clientbound
        [(0x0C, V1_20_2, True), (0x0C, V1_20_5, True), (0x0B, V1_21_5, True), (0x0B, V1_21_9, True)],
      registration CSetDefaultSpawnPosition Play Clientbound
        [(0x05, V1_7_2, True), (0x43, V1_9, True), (0x46, V1_12, True), (0x49, V1_13, True),
         (0x4D, V1_14, True), (0x4E, V1_15, True), (0x42, V1_16, True), (0x4B, V1_17, True),
         (0x4C, V1_18, True), (0x4A, V1_19, True), (0x4D, V1_19_1, True), (0x4C, V1_19_3, True),
         (0x50, V1_19_4, True), (0x52, V1_20_2, True), (0x54, V1_20_3, True), (0x56, V1_20_5, True),
         (0x5B, V1_21_2, True), (0x5A, V1_21_5, True), (0x5F, V1_21_9, True)],
      registration CSynchronizePlayerPosition Play Clientbound
        [(0x08, V1_7_2, True), (0x2E, V1_9, True), (0x2F, V1_12_1, True), (0x32, V1_13, True),
         (0x35, V1_14, True), (0x36, V1_15, True), (0x35, V1_16, True), (0x34, V1_16_2, True),
         (0x38, V1_17, True), (0x39, V1_18, True), (0x36, V1_19, True), (0x39, V1_19_1, True),
         (0x38, V1_19_3, True), (0x3C, V1_19_4, True), (0x3E, V1_20_2, True), (0x40, V1_20_3, True),
         (0x42, V1_20_5, True), (0x42, V1_21_2, True), (0x41, V1_21_5, True), (0x46, V1_21_9, True)]]"

definition play_serverbound_packets :: "packet_type packet_registration list" where
  "play_serverbound_packets =
     [
      registration SAcknowledgeConfiguration Play Serverbound
        [(0x0B, V1_20_2, False), (0x0C, V1_20_5, False), (0x0E, V1_21_2, False), (0x0F, V1_21_6, False)],
      registration SKeepAlive Play Serverbound
        [(0x00, V1_7_2, False), (0x0B, V1_9, False), (0x0C, V1_12, False), (0x0B, V1_12_1, False),
         (0x0E, V1_13, False), (0x0F, V1_14, False), (0x10, V1_16, False), (0x0F, V1_17, False),
         (0x11, V1_19, False), (0x12, V1_19_1, False), (0x11, V1_19_3, False), (0x12, V1_19_4, False),
         (0x14, V1_20_2, False), (0x15, V1_20_3, False), (0x18, V1_20_5, False), (0x1A, V1_21_2, False),
         (0x1B, V1_21_6, False)],
      registration SChatMessage Play Serverbound
        [(0x01, V1_7_2, True), (0x02, V1_9, True), (0x03, V1_12, True), (0x02, V1_12_1, True),
         (0x02, V1_13, True), (0x03, V1_14, True), (0x03, V1_15, True), (0x03, V1_16, True),
         (0x03, V1_17, True), (0x05, V1_19, True), (0x05, V1_19_1, True), (0x05, V1_19_3, True),
         (0x05, V1_19_4, True), (0x06, V1_20_2, True), (0x06, V1_20_5, True), (0x07, V1_21_2, True),
         (0x08, V1_21_6, True)],
      registration SChatCommand Play Serverbound
        [(0x04, V1_19, True), (0x04, V1_19_1, True), (0x04, V1_19_3, True), (0x04, V1_19_4, True),
         (0x04, V1_20_2, True), (0x04, V1_20_5, True), (0x05, V1_21_2, True), (0x06, V1_21_6, True)],
      registration SChatSessionUpdate Play Serverbound
        [(0x07, V1_21, True), (0x08, V1_21_2, True), (0x09, V1_21_6, True)],
      registration SPluginMessage Play Serverbound
        [(0x17, V1_7_2, True), (0x09, V1_9, True), (0x0A, V1_12, True), (0x09, V1_12_1, True),
         (0x0A, V1_13, True), (0x0B, V1_14, True), (0x0A, V1_17, True), (0x0C, V1_19, True),
         (0x0D, V1_19_1, True), (0x0C, V1_19_3, True), (0x0D, V1_19_4, True), (0x0F, V1_20_2, True),
         (0x10, V1_20_3, True), (0x12, V1_20_5, True), (0x14, V1_21_2, True), (0x15, V1_21_6, True)]]"

definition default_registrations :: "packet_type packet_registration list" where
  "default_registrations =
     handshake_status_login_packets @ config_packets @ play_command_packets @ play_world_packets
     @ play_title_packets @ play_limbo_packets @ play_serverbound_packets"

definition build_default_registry :: "packet_type packet_registry" where
  "build_default_registry = fold register_packet default_registrations packet_registry_new"

section \<open>Reading the table\<close>

text \<open>
  What a registration says about one version: the ids of its mappings that cover it, and the
  entries of all registrations for one state, direction and version.
\<close>

lemma last_supported [code_unfold]: "last SUPPORTED = V1_21_11"
  by (simp add: SUPPORTED_def)

definition range_end :: "packet_mapping \<Rightarrow> packet_mapping list \<Rightarrow> protocol_version \<times> bool" where
  "range_end m ms = (case mp_to m of Some to \<Rightarrow> (to, True) | None \<Rightarrow>
     (case ms of [] \<Rightarrow> (last SUPPORTED, True) | m' # _ \<Rightarrow> (mp_from m', False)))"

fun active :: "packet_mapping list \<Rightarrow> protocol_version \<Rightarrow> (i32 \<times> bool) list" where
  "active [] v = []"
| "active (m # ms) v =
     (if mp_from m \<le> v \<and> v \<le> fst (range_end m ms) \<and> (snd (range_end m ms) \<or> v \<noteq> fst (range_end m ms))
      then (mp_id m, mp_encode_only m) # active ms v else active ms v)"

definition table :: "'t packet_registration list \<Rightarrow> connection_state \<Rightarrow> direction \<Rightarrow> protocol_version \<Rightarrow> ('t \<times> i32 \<times> bool) list" where
  "table rs st d v =
     (if v \<in> set SUPPORTED
      then concat (map (\<lambda>r. if pr_state r = st \<and> pr_direction r = d then map (Pair (pr_packet r)) (active (pr_mappings r) v) else []) rs)
      else [])"

definition consistent :: "(packet_type \<times> i32 \<times> bool) list \<Rightarrow> protocol_version \<Rightarrow> bool" where
  "consistent T v \<longleftrightarrow> distinct (map fst T) \<and> list_all (\<lambda>(t, pid, e). t = CChatMessageLegacy \<longrightarrow> e) T
     \<and> distinct (map (\<lambda>(t, pid, e). pid) (filter (\<lambda>(t, pid, e). t \<noteq> CChatMessageLegacy \<or> v < V1_19) T))"

definition consistent_group :: "packet_type packet_registration list \<Rightarrow> connection_state \<Rightarrow> direction \<Rightarrow> bool" where
  "consistent_group rs st d = list_all (\<lambda>v. consistent (table rs st d v) v) SUPPORTED"

definition decoder_of :: "connection_state \<Rightarrow> direction \<Rightarrow> protocol_version \<Rightarrow> 't packet_registry \<Rightarrow> i32 \<Rightarrow> 't option" where
  "decoder_of st d v reg pid = (case reg (st, d, v) of None \<Rightarrow> None | Some ver_reg \<Rightarrow> id_to_decoder ver_reg pid)"

lemmas registry_defs = get_packet_id_def decoder_of_def register_version_def insert_type_mapping_def insert_decoder_def version_entry_def

lemma register_version_lookup:
  "get_packet_id t st d v (register_version r m v' reg) =
     (if pr_state r = st \<and> pr_direction r = d \<and> v = v' \<and> t = pr_packet r then Some (mp_id m) else get_packet_id t st d v reg)"
  "decoder_of st d v (register_version r m v' reg) pid =
     (if pr_state r = st \<and> pr_direction r = d \<and> v = v' \<and> \<not> mp_encode_only m \<and> pid = mp_id m then Some (pr_packet r)
      else decoder_of st d v reg pid)"
  by (auto simp: registry_defs Let_def split: option.splits)

lemma fold_versions_lookup:
  "get_packet_id t st d v (fold (\<lambda>version reg. if \<not> inclusive \<and> version = to then reg else register_version r m version reg) vs reg) =
     (if pr_state r = st \<and> pr_direction r = d \<and> v \<in> set vs \<and> (inclusive \<or> v \<noteq> to) \<and> t = pr_packet r then Some (mp_id m)
      else get_packet_id t st d v reg)"
  "decoder_of st d v (fold (\<lambda>version reg. if \<not> inclusive \<and> version = to then reg else register_version r m version reg) vs reg) pid =
     (if pr_state r = st \<and> pr_direction r = d \<and> v \<in> set vs \<and> (inclusive \<or> v \<noteq> to) \<and> \<not> mp_encode_only m \<and> pid = mp_id m
      then Some (pr_packet r) else decoder_of st d v reg pid)"
  by (induction vs arbitrary: reg) (auto simp: register_version_lookup)

text \<open>The effect of an entry on the two maps of a version.\<close>

definition type_entry :: "'t \<times> i32 \<times> bool \<Rightarrow> ('t \<rightharpoonup> i32) \<Rightarrow> 't \<rightharpoonup> i32" where
  "type_entry = (\<lambda>(t, pid, e) m. m(t \<mapsto> pid))"

definition decoder_entry :: "'t \<times> i32 \<times> bool \<Rightarrow> (i32 \<rightharpoonup> 't) \<Rightarrow> i32 \<rightharpoonup> 't" where
  "decoder_entry = (\<lambda>(t, pid, e) m. if e then m else m(pid \<mapsto> t))"

lemma mapping_end_suffix: "mapping_end (pre @ m # ms) (length pre) m = range_end m ms"
  by (cases ms) (simp_all add: mapping_end_def range_end_def nth_append split: option.splits)

definition register_mappings ::
  "'t packet_registration \<Rightarrow> packet_mapping list \<Rightarrow> nat \<Rightarrow> packet_mapping list \<Rightarrow> 't packet_registry \<Rightarrow> 't packet_registry" where
  "register_mappings r all k ms reg = fold (\<lambda>(i, m) reg.
             let (to, inclusive) = mapping_end all i m
             in fold (\<lambda>version reg. if \<not> inclusive \<and> version = to then reg else register_version r m version reg)
                  (version_range (mp_from m) to) reg)
           (enumerate k ms) reg"

lemma register_mappings_lookup:
  "(\<lambda>t. get_packet_id t st d v (register_mappings r (pre @ ms) (length pre) ms reg)) =
     fold type_entry (if v \<in> set SUPPORTED \<and> pr_state r = st \<and> pr_direction r = d then map (Pair (pr_packet r)) (active ms v) else [])
       (\<lambda>t. get_packet_id t st d v reg)
   \<and> decoder_of st d v (register_mappings r (pre @ ms) (length pre) ms reg) =
     fold decoder_entry (if v \<in> set SUPPORTED \<and> pr_state r = st \<and> pr_direction r = d then map (Pair (pr_packet r)) (active ms v) else [])
       (decoder_of st d v reg)"
proof (induction ms arbitrary: pre reg)
  case (Cons m ms)
  obtain to inclusive where e: "range_end m ms = (to, inclusive)" by fastforce
  define reg' where "reg' = fold (\<lambda>version reg. if \<not> inclusive \<and> version = to then reg else register_version r m version reg)
                  (version_range (mp_from m) to) reg"
  have step: "register_mappings r (pre @ m # ms) (length pre) (m # ms) reg = register_mappings r ((pre @ [m]) @ ms) (length (pre @ [m])) ms reg'"
    by (simp add: register_mappings_def mapping_end_suffix e reg'_def)
  note l = fold_versions_lookup [where r = r and m = m and inclusive = inclusive and to = to and vs = "version_range (mp_from m) to" and reg = reg, folded reg'_def]
  have "(\<lambda>t. get_packet_id t st d v reg') =
      fold type_entry (if v \<in> set SUPPORTED \<and> pr_state r = st \<and> pr_direction r = d \<and> mp_from m \<le> v \<and> v \<le> to \<and> (inclusive \<or> v \<noteq> to)
        then [(pr_packet r, mp_id m, mp_encode_only m)] else []) (\<lambda>t. get_packet_id t st d v reg)"
    by (auto simp: l(1) type_entry_def version_range_def fun_eq_iff)
  moreover have "decoder_of st d v reg' =
      fold decoder_entry (if v \<in> set SUPPORTED \<and> pr_state r = st \<and> pr_direction r = d \<and> mp_from m \<le> v \<and> v \<le> to \<and> (inclusive \<or> v \<noteq> to)
        then [(pr_packet r, mp_id m, mp_encode_only m)] else []) (decoder_of st d v reg)"
    by (auto simp: l(2) decoder_entry_def version_range_def fun_eq_iff)
  moreover have "(if v \<in> set SUPPORTED \<and> pr_state r = st \<and> pr_direction r = d then map (Pair (pr_packet r)) (active (m # ms) v) else []) =
      (if v \<in> set SUPPORTED \<and> pr_state r = st \<and> pr_direction r = d \<and> mp_from m \<le> v \<and> v \<le> to \<and> (inclusive \<or> v \<noteq> to)
        then [(pr_packet r, mp_id m, mp_encode_only m)] else [])
      @ (if v \<in> set SUPPORTED \<and> pr_state r = st \<and> pr_direction r = d then map (Pair (pr_packet r)) (active ms v) else [])"
    by (auto simp: e)
  ultimately show ?case unfolding step using Cons.IH [of "pre @ [m]" reg'] by (simp only: fold_append o_apply)
qed (simp add: register_mappings_def)

lemma register_all_lookup:
  "(\<lambda>t. get_packet_id t st d v (fold register_packet rs reg)) = fold type_entry (table rs st d v) (\<lambda>t. get_packet_id t st d v reg)
   \<and> decoder_of st d v (fold register_packet rs reg) = fold decoder_entry (table rs st d v) (decoder_of st d v reg)"
proof (induction rs arbitrary: reg)
  case (Cons r rs)
  have "register_packet r reg = register_mappings r (pr_mappings r) 0 (pr_mappings r) reg"
    by (simp add: register_packet_def register_mappings_def SUPPORTED_def)
  with register_mappings_lookup [of st d v r "[]" "pr_mappings r" reg] Cons [of "register_packet r reg"]
  show ?case by (simp add: table_def)
qed (simp add: table_def)

lemma fold_type_entry: "fold type_entry T m = m ++ map_of (rev (map (\<lambda>(t, pid, e). (t, pid)) T))"
  by (induction T arbitrary: m) (auto simp: type_entry_def)

lemma fold_decoder_entry:
  "fold decoder_entry T m = m ++ map_of (rev (map (\<lambda>(t, pid, e). (pid, t)) (filter (\<lambda>(t, pid, e). \<not> e) T)))"
  by (induction T arbitrary: m) (auto simp: decoder_entry_def)

text \<open>What a consistent version of the table says: a type has at most one id, and an id at most one decoder.\<close>

lemma type_lookup:
  assumes "distinct (map fst T)"
  shows "fold type_entry T Map.empty t = Some pid \<longleftrightarrow> (\<exists>e. (t, pid, e) \<in> set T)"
proof -
  have "map fst (rev (map (\<lambda>(t, pid, e). (t, pid)) T)) = rev (map fst T)" by (simp add: rev_map case_prod_beta o_def)
  then have "distinct (map fst (rev (map (\<lambda>(t, pid, e). (t, pid)) T)))" using assms by simp
  from map_of_eq_Some_iff [OF this, of t pid] show ?thesis by (force simp: fold_type_entry)
qed

lemma decoder_lookup:
  assumes "consistent T v"
  shows "fold decoder_entry T Map.empty pid = Some t \<longleftrightarrow> (t, pid, False) \<in> set T"
proof -
  let ?D = "filter (\<lambda>(t, pid, e). \<not> e) T" and ?L = "filter (\<lambda>(t, pid, e). t \<noteq> CChatMessageLegacy \<or> v < V1_19) T"
  have "?D = filter (\<lambda>(t, pid, e). \<not> e) ?L" using assms by (auto simp: consistent_def list_all_iff intro!: filter_cong)
  moreover have "distinct (map (\<lambda>(t, pid, e). pid) ?L)" using assms by (simp add: consistent_def)
  ultimately have "distinct (map (\<lambda>(t, pid, e). pid) ?D)" by (simp only: distinct_map_filter)
  moreover have "map fst (rev (map (\<lambda>(t, pid, e). (pid, t)) ?D)) = rev (map (\<lambda>(t, pid, e). pid) ?D)"
    by (simp add: rev_map case_prod_beta o_def)
  ultimately have "distinct (map fst (rev (map (\<lambda>(t, pid, e). (pid, t)) ?D)))" by simp
  from map_of_eq_Some_iff [OF this, of pid t] show ?thesis by (force simp: fold_decoder_entry)
qed

lemma table_filter: "table (filter (\<lambda>r. pr_state r = st \<and> pr_direction r = d) rs) st d v = table rs st d v"
  by (induction rs) (auto simp: table_def)

lemma consistent_groupD:
  assumes "consistent_group (filter (\<lambda>r. pr_state r = st \<and> pr_direction r = d) rs) st d"
  shows "consistent (table rs st d v) v"
proof (cases "v \<in> set SUPPORTED")
  case True
  then show ?thesis using assms by (auto simp: consistent_group_def list_all_iff table_filter)
next
  case False
  then show ?thesis by (simp add: table_def consistent_def)
qed

section \<open>The table is consistent\<close>

lemma registration_fields [simp]:
  "pr_packet (registration t st d ms) = t" "pr_state (registration t st d ms) = st" "pr_direction (registration t st d ms) = d"
  "pr_mappings (registration t st d ms) =
     map (\<lambda>(pid, from, e). \<lparr>mp_id = pid, mp_from = from, mp_to = None, mp_encode_only = e\<rparr>) ms"
proof -
  have "fold (\<lambda>(pid, from, e). map_packet pid from e) ms r =
      r\<lparr>pr_mappings := pr_mappings r @ map (\<lambda>(pid, from, e). \<lparr>mp_id = pid, mp_from = from, mp_to = None, mp_encode_only = e\<rparr>) ms\<rparr>" for r :: "'a packet_registration"
    by (induction ms arbitrary: r) (auto simp: map_packet_def)
  then show "pr_packet (registration t st d ms) = t" "pr_state (registration t st d ms) = st" "pr_direction (registration t st d ms) = d"
    "pr_mappings (registration t st d ms) =
       map (\<lambda>(pid, from, e). \<lparr>mp_id = pid, mp_from = from, mp_to = None, mp_encode_only = e\<rparr>) ms"
    by (simp_all add: registration_def registration_new_def)
qed

lemmas table_groups = handshake_status_login_packets_def config_packets_def play_command_packets_def play_world_packets_def
  play_title_packets_def play_limbo_packets_def play_serverbound_packets_def

lemma default_states:
  "filter (\<lambda>r. pr_state r = st \<and> pr_direction r = d) default_registrations =
     (if st = Play then filter (\<lambda>r. pr_direction r = d) (play_command_packets @ play_world_packets @ play_title_packets @ play_limbo_packets @ play_serverbound_packets)
      else filter (\<lambda>r. pr_state r = st \<and> pr_direction r = d) (handshake_status_login_packets @ config_packets))"
  by (cases st) (simp_all add: default_registrations_def table_groups)

lemma play_consistent:
  "consistent_group (filter (\<lambda>r. pr_direction r = d) (play_command_packets @ play_world_packets @ play_title_packets @ play_limbo_packets @ play_serverbound_packets)) Play d"
proof (cases d)
  case Serverbound
  then show ?thesis unfolding table_groups by simp code_simp
next
  case Clientbound
  then show ?thesis unfolding table_groups by simp code_simp
qed

lemma setup_consistent:
  "list_all (\<lambda>st. list_all (\<lambda>d. consistent_group (filter (\<lambda>r. pr_state r = st \<and> pr_direction r = d) (handshake_status_login_packets @ config_packets)) st d)
     [Serverbound, Clientbound]) [Handshake, Status, Login, Config]"
  by code_simp

lemma default_consistent: "consistent (table default_registrations st d v) v"
proof -
  have "consistent_group (filter (\<lambda>r. pr_state r = st \<and> pr_direction r = d) default_registrations) st d"
    using play_consistent [of d] setup_consistent by (cases st; cases d) (simp_all add: default_states)
  then show ?thesis by (rule consistent_groupD)
qed

text \<open>The types the proxy decodes: those whose mappings are not marked as encode-only.\<close>

definition intercepted :: "packet_type list" where
  "intercepted = map pr_packet (filter (\<lambda>r. list_all (\<lambda>m. \<not> mp_encode_only m) (pr_mappings r)) default_registrations)"

lemma encode_only_uniform:
  "list_all (\<lambda>r. list_all (\<lambda>m. mp_encode_only m = (pr_packet r \<notin> set intercepted)) (pr_mappings r)) default_registrations"
proof -
  have i: "intercepted = [SHandshake, SStatusRequest, SPingRequest, CStatusResponse, CPingResponse, SLoginStart, SEncryptionResponse,
      SLoginPluginResponse, SLoginAcknowledged, CLoginDisconnect, CEncryptionRequest, CLoginSuccess, CSetCompression,
      CLoginPluginRequest, SConfigPluginMessage, SAcknowledgeFinishConfig, SKnownPacks, CConfigPluginMessage, CConfigDisconnect,
      CFinishConfig, CRegistryData, CKnownPacks, CCommands, STabCompleteRequest, CTabCompleteResponse, CKeepAlive, CDisconnect,
      SAcknowledgeConfiguration, SKeepAlive]"
    by (simp add: intercepted_def default_registrations_def table_groups)
  show ?thesis unfolding i by (simp add: default_registrations_def table_groups)
qed

lemma active_mapping: "(pid, e) \<in> set (active ms v) \<Longrightarrow> \<exists>m \<in> set ms. mp_id m = pid \<and> mp_encode_only m = e"
  by (induction ms) (auto split: if_splits)

lemma table_encode_only: "(t, pid, e) \<in> set (table default_registrations st d v) \<Longrightarrow> e = (t \<notin> set intercepted)"
  using encode_only_uniform by (fastforce simp: table_def list_all_iff dest: active_mapping split: if_splits)

lemma registry_lookup:
  "get_packet_id t st d v build_default_registry = Some pid \<longleftrightarrow> (\<exists>e. (t, pid, e) \<in> set (table default_registrations st d v))"
  "decoder_of st d v build_default_registry pid = Some t \<longleftrightarrow> t \<in> set intercepted \<and> get_packet_id t st d v build_default_registry = Some pid"
proof -
  have empty: "(\<lambda>t. get_packet_id t st d v packet_registry_new) = Map.empty" "decoder_of st d v packet_registry_new = Map.empty"
    by (simp_all add: get_packet_id_def decoder_of_def packet_registry_new_def fun_eq_iff)
  note l = register_all_lookup [of st d v default_registrations packet_registry_new, folded build_default_registry_def, unfolded empty]
  have d: "distinct (map fst (table default_registrations st d v))" using default_consistent by (simp add: consistent_def)
  have "get_packet_id t st d v build_default_registry = fold type_entry (table default_registrations st d v) Map.empty t"
    by (rule fun_cong [OF conjunct1 [OF l], of t])
  then show t: "get_packet_id t st d v build_default_registry = Some pid \<longleftrightarrow> (\<exists>e. (t, pid, e) \<in> set (table default_registrations st d v))"
    by (simp add: type_lookup [OF d])
  have "decoder_of st d v build_default_registry pid = Some t \<longleftrightarrow> (t, pid, False) \<in> set (table default_registrations st d v)"
    unfolding conjunct2 [OF l] by (rule decoder_lookup [OF default_consistent])
  moreover have "t \<in> set intercepted" if "(t, pid, False) \<in> set (table default_registrations st d v)"
    using table_encode_only [OF that] by simp
  moreover have "(t, pid, False) \<in> set (table default_registrations st d v)"
    if "(t, pid, e) \<in> set (table default_registrations st d v)" "t \<in> set intercepted" for e
    using table_encode_only [OF that(1)] that by simp
  ultimately show "decoder_of st d v build_default_registry pid = Some t \<longleftrightarrow> t \<in> set intercepted \<and> get_packet_id t st d v build_default_registry = Some pid"
    unfolding t by blast
qed

lemma decode_frame_alt:
  "decode_frame dec f st d v reg = (case decoder_of st d v reg (frame_id f) of
      None \<Rightarrow> Ok (Opaque (frame_id f) (frame_payload f))
    | Some t \<Rightarrow> rbind (dec t (frame_payload f) v) (\<lambda>p. Ok (Typed (frame_id f) p)))"
  "has_decoder st d v pid reg \<longleftrightarrow> decoder_of st d v reg pid \<noteq> None"
  by (simp_all add: decode_frame_def has_decoder_def decoder_of_def split: option.splits)

lemma shared_id:
  assumes "(t, pid, e) \<in> set (table default_registrations st d v)" "(u, pid, e') \<in> set (table default_registrations st d v)" "t \<noteq> u"
  shows "(t = CChatMessageLegacy \<or> u = CChatMessageLegacy) \<and> v \<ge> V1_19"
proof (rule ccontr)
  let ?L = "filter (\<lambda>(t, pid, e). t \<noteq> CChatMessageLegacy \<or> v < V1_19) (table default_registrations st d v)"
  assume "\<not> ?thesis"
  then have "(t, pid, e) \<in> set ?L" "(u, pid, e') \<in> set ?L" using assms by auto
  moreover have "inj_on (\<lambda>(t, pid, e). pid) (set ?L)"
    using default_consistent [of st d v] unfolding consistent_def by (simp add: distinct_map)
  ultimately have "(t, pid, e) = (u, pid, e')" by (auto dest!: inj_onD [where x = "(t, pid, e)" and y = "(u, pid, e')"])
  then show False using assms(3) by simp
qed

text \<open>C28. The registry of the proxy, for every state, direction and version: a frame that
  carries the id of a packet type the proxy decodes is decoded as that type, and every other frame is passed on unchanged;
  no two packet types have the same id, except that the chat message of versions before 1.19 keeps an id in later versions;
  versions that are not supported have no packets.\<close>

theorem packet_registry_consistent:
  "(case find (\<lambda>t. get_packet_id t st d v build_default_registry = Some (frame_id f)) intercepted of
      Some t \<Rightarrow> decode_frame dec f st d v build_default_registry =
                  rbind (dec t (frame_payload f) v) (\<lambda>p. Ok (Typed (frame_id f) p))
    | None \<Rightarrow> decode_frame dec f st d v build_default_registry = Ok (Opaque (frame_id f) (frame_payload f)))
   \<and> (get_packet_id t st d v build_default_registry = Some pid \<and> get_packet_id u st d v build_default_registry = Some pid \<and> t \<noteq> u
       \<longrightarrow> CChatMessageLegacy \<in> {t, u} \<and> v \<ge> V1_19)
   \<and> (get_packet_id t st d v build_default_registry = Some pid \<longrightarrow> v \<in> set SUPPORTED)"
proof (intro conjI impI)
  show "case find (\<lambda>t. get_packet_id t st d v build_default_registry = Some (frame_id f)) intercepted of
      Some t \<Rightarrow> decode_frame dec f st d v build_default_registry = rbind (dec t (frame_payload f) v) (\<lambda>p. Ok (Typed (frame_id f) p))
    | None \<Rightarrow> decode_frame dec f st d v build_default_registry = Ok (Opaque (frame_id f) (frame_payload f))"
  proof (cases "find (\<lambda>t. get_packet_id t st d v build_default_registry = Some (frame_id f)) intercepted")
    case None
    then have "\<not> (\<exists>t \<in> set intercepted. get_packet_id t st d v build_default_registry = Some (frame_id f))" by (simp add: find_None_iff)
    then have "decoder_of st d v build_default_registry (frame_id f) = None" using registry_lookup(2) by (metis option.exhaust)
    then show ?thesis using None by (simp add: decode_frame_alt)
  next
    case (Some t)
    then have "t \<in> set intercepted \<and> get_packet_id t st d v build_default_registry = Some (frame_id f)" by (auto simp: find_Some_iff)
    then have "decoder_of st d v build_default_registry (frame_id f) = Some t" using registry_lookup(2) by blast
    then show ?thesis using Some by (simp add: decode_frame_alt)
  qed
  assume "get_packet_id t st d v build_default_registry = Some pid \<and> get_packet_id u st d v build_default_registry = Some pid \<and> t \<noteq> u"
  then obtain e e' where "(t, pid, e) \<in> set (table default_registrations st d v)" "(u, pid, e') \<in> set (table default_registrations st d v)" "t \<noteq> u"
    using registry_lookup(1) by blast
  from shared_id [OF this] show "CChatMessageLegacy \<in> {t, u}" "v \<ge> V1_19" by auto
next
  assume "get_packet_id t st d v build_default_registry = Some pid"
  then show "v \<in> set SUPPORTED" unfolding registry_lookup(1) by (auto simp: table_def split: if_splits)
qed

lemma sample_entries:
  "(CKeepAlive, 0x24, False) \<in> set (table default_registrations Play Clientbound V1_20_2)"
  "(CChatMessageLegacy, 0x0F, True) \<in> set (table default_registrations Play Clientbound V1_19_1)"
  "(CCommands, 0x0F, False) \<in> set (table default_registrations Play Clientbound V1_19_1)"
  "CKeepAlive \<in> set intercepted" "CChatMessageLegacy \<notin> set intercepted"
  by (simp_all add: table_def default_registrations_def table_groups range_end_def SUPPORTED_def intercepted_def)

theorem packet_registry_consistent_witness:
  "get_packet_id CChatMessageLegacy Play Clientbound V1_19_1 build_default_registry = get_packet_id CCommands Play Clientbound V1_19_1 build_default_registry
   \<and> decode_frame (\<lambda>t payload v. Ok t) \<lparr>frame_id = 0x24, frame_payload = [1]\<rparr> Play Clientbound V1_20_2 build_default_registry = Ok (Typed 0x24 CKeepAlive)"
proof -
  let ?reg = build_default_registry and ?f = "\<lparr>frame_id = 0x24, frame_payload = [1 :: u8]\<rparr>"
  have k: "get_packet_id CKeepAlive Play Clientbound V1_20_2 ?reg = Some 0x24"
    "get_packet_id CChatMessageLegacy Play Clientbound V1_19_1 ?reg = Some 0x0F" "get_packet_id CCommands Play Clientbound V1_19_1 ?reg = Some 0x0F"
    using sample_entries(1-3) registry_lookup(1) by blast+
  note con = packet_registry_consistent [where st = Play and d = Clientbound and v = V1_20_2 and f = ?f
      and dec = "\<lambda>t payload v. Ok t" and pid = "0x24" and u = CKeepAlive]
  have "decode_frame (\<lambda>t payload v. Ok t) ?f Play Clientbound V1_20_2 ?reg = Ok (Typed 0x24 CKeepAlive)"
  proof (cases "find (\<lambda>t. get_packet_id t Play Clientbound V1_20_2 ?reg = Some (frame_id ?f)) intercepted")
    case None
    then show ?thesis using k(1) sample_entries(4) by (simp add: find_None_iff)
  next
    case (Some t)
    then have t: "t \<in> set intercepted" "get_packet_id t Play Clientbound V1_20_2 ?reg = Some 0x24" by (auto simp: find_Some_iff)
    have "t = CKeepAlive" using con [of t] t k(1) sample_entries(5) by auto
    then show ?thesis using con [of t] Some by simp
  qed
  then show ?thesis using k(2,3) by simp
qed

end
