(* ===== verification/Config.thy ===== *)
theory Config
  imports Prelude
begin

text \<open>
  The server configuration and its checks: \<open>infrarust_config\<close> (\<open>server.rs\<close>, the types under
  \<open>types/\<close>, \<open>validation.rs\<close> and the static domain index of \<open>domain.rs\<close>).

  A \<open>Duration\<close> is a number of nanoseconds. An \<open>IpNet\<close> comes from the \<open>ipnet\<close> crate: its type is
  a type variable and \<open>contains\<close> a parameter. So are \<open>str::to_lowercase\<close> for text outside ASCII
  (the Unicode tables), written \<open>lc\<close>, and the matcher of the \<open>wildmatch\<close> crate, written \<open>wm\<close>
  (pattern first).
\<close>

section \<open>Types of the configuration\<close>

datatype proxy_mode = Passthrough | ZeroCopy | ClientOnly | Offline | ServerOnly | Full

definition is_intercepted :: "proxy_mode \<Rightarrow> bool" where
  "is_intercepted m \<longleftrightarrow> m \<in> {ClientOnly, Offline, Full}"

definition is_forwarding :: "proxy_mode \<Rightarrow> bool" where
  "is_forwarding m \<longleftrightarrow> m \<in> {Passthrough, ZeroCopy, ServerOnly}"

record server_address =
  host :: string
  port :: u16

definition address_display :: "server_address \<Rightarrow> string" where
  "address_display a = host a @ '':'' @ show_nat (unat (port a))"

datatype domain_rewrite = NoRewrite | Explicit string | FromBackend

datatype forwarding_mode = NoForwarding | BungeeCord | BungeeGuard | Velocity

type_synonym duration = nat

record timeout_config =
  tc_connect :: duration
  tc_read :: duration
  tc_write :: duration

record motd_entry =
  motd_text :: string
  motd_favicon :: "string option"
  motd_version_name :: "string option"
  motd_max_players :: "u32 option"

record motd_config =
  motd_online :: "motd_entry option"
  motd_offline :: "motd_entry option"
  motd_sleeping :: "motd_entry option"
  motd_starting :: "motd_entry option"
  motd_crashed :: "motd_entry option"
  motd_stopping :: "motd_entry option"
  motd_unreachable :: "motd_entry option"

record local_manager_config =
  lm_command :: string
  lm_working_dir :: string
  lm_args :: "string list"
  lm_ready_pattern :: string
  lm_shutdown_timeout :: duration
  lm_shutdown_after :: "duration option"
  lm_start_timeout :: duration

text \<open>\<open>PterodactylManagerConfig\<close> and \<open>CraftyManagerConfig\<close> have the same fields.\<close>

record api_manager_config =
  am_api_url :: string
  am_api_key :: string
  am_server_id :: string
  am_shutdown_after :: "duration option"
  am_start_timeout :: duration
  am_poll_interval :: duration

datatype server_manager_config =
  LocalManager local_manager_config | Pterodactyl api_manager_config | Crafty api_manager_config

datatype ip_addr = V4 u32 | V6 u128

record 'net ip_filter_config =
  whitelist :: "'net list"
  blacklist :: "'net list"

definition is_allowed :: "('net \<Rightarrow> ip_addr \<Rightarrow> bool) \<Rightarrow> 'net ip_filter_config \<Rightarrow> ip_addr \<Rightarrow> bool" where
  "is_allowed contains f ip =
     (if \<exists>net \<in> set (blacklist f). contains net ip then False
      else if whitelist f = [] then True
      else \<exists>net \<in> set (whitelist f). contains net ip)"

record 'net server_config =
  sc_id :: "string option"
  sc_name :: "string option"
  sc_network :: "string option"
  sc_domains :: "string list"
  sc_addresses :: "server_address list"
  sc_proxy_mode :: proxy_mode
  sc_forwarding_mode :: "forwarding_mode option"
  sc_send_proxy_protocol :: bool
  sc_domain_rewrite :: domain_rewrite
  sc_motd :: motd_config
  sc_server_manager :: "server_manager_config option"
  sc_timeouts :: "timeout_config option"
  sc_max_players :: u32
  sc_ip_filter :: "'net ip_filter_config option"
  sc_disconnect_message :: "string option"
  sc_limbo_handlers :: "string list"

definition effective_id :: "'net server_config \<Rightarrow> string" where
  "effective_id c = (case sc_name c of Some n \<Rightarrow> n | None \<Rightarrow>
     (case sc_id c of Some i \<Rightarrow> i | None \<Rightarrow> ''unknown''))"

definition effective_disconnect_message :: "'net server_config \<Rightarrow> string" where
  "effective_disconnect_message c = (case sc_disconnect_message c of
     Some m \<Rightarrow> m | None \<Rightarrow> ''Server is currently unreachable. Please try again later.'')"

section \<open>Validation\<close>

datatype config_error =
  NoDomains string proxy_mode | NoAddresses string | DuplicateId string | Validation string | InvalidAddress string

definition proxy_mode_debug :: "proxy_mode \<Rightarrow> string" where
  "proxy_mode_debug m = (case m of
     Passthrough \<Rightarrow> ''Passthrough'' | ZeroCopy \<Rightarrow> ''ZeroCopy'' | ClientOnly \<Rightarrow> ''ClientOnly''
   | Offline \<Rightarrow> ''Offline'' | ServerOnly \<Rightarrow> ''ServerOnly'' | Full \<Rightarrow> ''Full'')"

text \<open>
  \<open>s.trim().is_empty()\<close> on UTF-8 bytes: only characters with the Unicode property
  \<open>White_Space\<close>.
\<close>

fun all_whitespace :: "nat list \<Rightarrow> bool" where
  "all_whitespace [] = True"
| "all_whitespace (a # r) =
     (if (9 \<le> a \<and> a \<le> 13) \<or> a = 32 then all_whitespace r
      else if a = 0xC2 then (case r of b # r \<Rightarrow> b \<in> {0x85, 0xA0} \<and> all_whitespace r | _ \<Rightarrow> False)
      else (case r of
          b # c # r \<Rightarrow>
            ((a, b, c) \<in> {(0xE1, 0x9A, 0x80), (0xE2, 0x80, 0xA8), (0xE2, 0x80, 0xA9), (0xE2, 0x80, 0xAF),
                          (0xE2, 0x81, 0x9F), (0xE3, 0x80, 0x80)}
             \<or> (a = 0xE2 \<and> b = 0x80 \<and> 0x80 \<le> c \<and> c \<le> 0x8A))
            \<and> all_whitespace r
        | _ \<Rightarrow> False))"

definition trim_is_empty :: "string \<Rightarrow> bool" where
  "trim_is_empty s = all_whitespace (map of_char s)"

definition identifier_char :: "char \<Rightarrow> bool" where
  "identifier_char c \<longleftrightarrow> (let n = of_char c :: nat in
     (97 \<le> n \<and> n \<le> 122) \<or> (48 \<le> n \<and> n \<le> 57) \<or> c = CHR ''_'' \<or> c = CHR ''-'')"

definition quoted :: "string \<Rightarrow> string" where
  "quoted s = CHR 0x27 # s @ [CHR 0x27]"

definition validate_identifier :: "string \<Rightarrow> string \<Rightarrow> string \<Rightarrow> config_error + unit" where
  "validate_identifier v field server_id =
     (if v = [] then
        Err (Validation (''server '' @ quoted server_id @ '': '' @ field @ '' must not be empty''))
      else if length v > 64 then
        Err (Validation (''server '' @ quoted server_id @ '': '' @ field @ '' must be at most 64 characters''))
      else if \<not> list_all identifier_char v then
        Err (Validation (''server '' @ quoted server_id @ '': '' @ field @ '' '' @ quoted v
               @ '' contains invalid characters (allowed: a-z, 0-9, _, -)''))
      else Ok ())"

definition validate_server_config :: "'net server_config \<Rightarrow> config_error + unit" where
  "validate_server_config c =
     (let i = effective_id c in
      if is_forwarding (sc_proxy_mode c) \<and> sc_domains c = [] then Err (NoDomains i (sc_proxy_mode c))
      else if is_forwarding (sc_proxy_mode c) \<and> sc_network c \<noteq> None then
        Err (Validation (''server '' @ quoted i @ '' uses '' @ proxy_mode_debug (sc_proxy_mode c)
               @ '' mode which cannot belong to a network (forwarding modes don't support server switching)''))
      else if sc_addresses c = [] then Err (NoAddresses i)
      else if \<exists>d \<in> set (sc_domains c). trim_is_empty d then
        Err (Validation (''server config '' @ i @ '' has an empty domain''))
      else
        rbind (case sc_name c of Some n \<Rightarrow> validate_identifier n ''name'' i | None \<Rightarrow> Ok ()) (\<lambda>_.
          case sc_network c of Some n \<Rightarrow> validate_identifier n ''network'' i | None \<Rightarrow> Ok ()))"

primrec validate_ids :: "string set \<Rightarrow> 'net server_config list \<Rightarrow> config_error + unit" where
  "validate_ids seen [] = Ok ()"
| "validate_ids seen (c # cs) =
     (let i = effective_id c in
      if i \<in> seen then Err (DuplicateId i) else validate_ids (insert i seen) cs)"

definition validate_server_configs :: "'net server_config list \<Rightarrow> config_error + unit" where
  "validate_server_configs cs = validate_ids {} cs"

lemma validate_ids_Ok:
  "validate_ids seen cs = Ok () \<longleftrightarrow> distinct (map effective_id cs) \<and> seen \<inter> effective_id ` set cs = {}"
  by (induction cs arbitrary: seen) (auto simp: Let_def)

lemma validate_ids_Err:
  "validate_ids seen cs = Err e \<Longrightarrow> \<exists>i. e = DuplicateId i \<and> i \<in> effective_id ` set cs"
  by (induction cs arbitrary: seen) (auto simp: Let_def split: if_splits)

definition ident :: "string \<Rightarrow> bool" where
  "ident s \<longleftrightarrow> s \<noteq> [] \<and> length s \<le> 64 \<and> list_all identifier_char s"

lemma validate_identifier_Ok: "validate_identifier v f i = Ok () \<longleftrightarrow> ident v"
  by (auto simp: validate_identifier_def ident_def)


text \<open>A configuration for the examples: everything at its default but the name and the domains.\<close>

definition sample_config :: "string \<Rightarrow> string list \<Rightarrow> nat server_config" where
  "sample_config n ds = \<lparr>sc_id = None, sc_name = Some n, sc_network = None, sc_domains = ds,
     sc_addresses = [\<lparr>host = ''10.0.0.1'', port = 25565\<rparr>], sc_proxy_mode = Passthrough, sc_forwarding_mode = None,
     sc_send_proxy_protocol = False, sc_domain_rewrite = NoRewrite,
     sc_motd = \<lparr>motd_online = None, motd_offline = None, motd_sleeping = None, motd_starting = None,
       motd_crashed = None, motd_stopping = None, motd_unreachable = None\<rparr>,
     sc_server_manager = None, sc_timeouts = None, sc_max_players = 0, sc_ip_filter = None,
     sc_disconnect_message = None, sc_limbo_handlers = []\<rparr>"


end
