(* ===== verification/Routing.thy ===== *)
theory Routing
  imports Config Packets Frames "HOL-Library.AList" "HOL-Library.Multiset"
begin

text \<open>
  Which server a connection is for: \<open>routing/domain_router.rs\<close>, the static index of
  \<open>infrarust_config/domain.rs\<close>, \<open>provider_id.rs\<close>, \<open>util/mod.rs\<close> and the rewriting of the
  handshake in \<open>util/domain_rewrite.rs\<close>.

  The router's concurrent maps are association lists with distinct keys. The order in which
  \<open>dashmap\<close> walks a map is a parameter, \<open>iter\<close>, of the operations that walk one: of it is only
  known that it yields every entry once.
\<close>

section \<open>Domains\<close>

definition normalize_handshake :: "string \<Rightarrow> string" where
  "normalize_handshake domain =
     (let stripped = takeWhile (\<lambda>c. c \<noteq> CHR 0x00) domain
      in rev (dropWhile (\<lambda>c. c = CHR ''.'') (rev stripped)))"

definition is_wildcard :: "string \<Rightarrow> bool" where
  "is_wildcard domain \<longleftrightarrow> CHR ''*'' \<in> set domain \<or> CHR ''?'' \<in> set domain"

section \<open>Provider identifiers\<close>

record provider_id =
  provider_type :: string
  unique_id :: string

definition provider_id_display :: "provider_id \<Rightarrow> string" where
  "provider_id_display p = provider_type p @ ''@'' @ unique_id p"

definition provider_id_from_str :: "string \<Rightarrow> string + provider_id" where
  "provider_id_from_str s =
     (case dropWhile (\<lambda>c. c \<noteq> CHR ''@'') s of
        [] \<Rightarrow> Err s
      | _ # uid \<Rightarrow> Ok \<lparr>provider_type = takeWhile (\<lambda>c. c \<noteq> CHR ''@'') s, unique_id = uid\<rparr>)"

lemma provider_id_roundtrip:
  "CHR ''@'' \<notin> set (provider_type p) \<Longrightarrow> provider_id_from_str (provider_id_display p) = Ok p"
proof -
  assume "CHR ''@'' \<notin> set (provider_type p)"
  then have "takeWhile (\<lambda>c. c \<noteq> CHR ''@'') (provider_id_display p) = provider_type p"
    "dropWhile (\<lambda>c. c \<noteq> CHR ''@'') (provider_id_display p) = CHR ''@'' # unique_id p"
    by (auto simp: provider_id_display_def takeWhile_append dropWhile_append)
  then show ?thesis by (simp add: provider_id_from_str_def)
qed

section \<open>The router\<close>

record 'net router_entry =
  entry_config :: "'net server_config"
  entry_domains :: "string list"

record 'net domain_router =
  router_configs :: "(provider_id \<times> 'net router_entry) list"
  exact_domains :: "string \<rightharpoonup> provider_id"
  wildcard_patterns :: "(string \<times> provider_id) list"

type_synonym 'net walk = "(provider_id \<times> 'net router_entry) list \<Rightarrow> (provider_id \<times> 'net router_entry) list"

definition router_new :: "'net domain_router" where
  "router_new = \<lparr>router_configs = [], exact_domains = Map.empty, wildcard_patterns = []\<rparr>"

definition rebuild_wildcards :: "'net walk \<Rightarrow> 'net domain_router \<Rightarrow> 'net domain_router" where
  "rebuild_wildcards iter r = r\<lparr>wildcard_patterns :=
     concat (map (\<lambda>(pid, e). map (\<lambda>d. (d, pid)) (filter is_wildcard (entry_domains e))) (iter (router_configs r)))\<rparr>"

definition router_add ::
  "(string \<Rightarrow> string) \<Rightarrow> 'net walk \<Rightarrow> provider_id \<Rightarrow> 'net server_config \<Rightarrow> 'net domain_router \<Rightarrow> 'net domain_router" where
  "router_add lc iter pid config r =
     (let registered = map lc (sc_domains config);
          exact = fold (\<lambda>d m. if is_wildcard d then m else m(d \<mapsto> pid)) registered (exact_domains r);
          r' = r\<lparr>router_configs := AList.update pid \<lparr>entry_config = config, entry_domains = registered\<rparr> (router_configs r),
                exact_domains := exact\<rparr>
      in if \<exists>d \<in> set registered. is_wildcard d then rebuild_wildcards iter r' else r')"

definition router_remove :: "'net walk \<Rightarrow> provider_id \<Rightarrow> 'net domain_router \<Rightarrow> 'net domain_router" where
  "router_remove iter pid r =
     (case map_of (router_configs r) pid of
        None \<Rightarrow> r
      | Some entry \<Rightarrow>
          let exact = fold (\<lambda>d m. if is_wildcard d then m
                                 else if m d = Some pid then m(d := None) else m) (entry_domains entry) (exact_domains r);
              r' = r\<lparr>router_configs := AList.delete pid (router_configs r), exact_domains := exact\<rparr>
          in if \<exists>d \<in> set (entry_domains entry). is_wildcard d then rebuild_wildcards iter r' else r')"

definition router_update ::
  "(string \<Rightarrow> string) \<Rightarrow> 'net walk \<Rightarrow> provider_id \<Rightarrow> 'net server_config \<Rightarrow> 'net domain_router \<Rightarrow> 'net domain_router" where
  "router_update lc iter pid config r = router_add lc iter pid config (router_remove iter pid r)"

definition remove_all_by_provider_type :: "'net walk \<Rightarrow> string \<Rightarrow> 'net domain_router \<Rightarrow> 'net domain_router" where
  "remove_all_by_provider_type iter ptype r =
     (let ids = map fst (filter (\<lambda>(pid, _). provider_type pid = ptype) (iter (router_configs r)))
      in fold (router_remove iter) ids r)"

text \<open>\<open>resolve\<close>: the exact table first, then the patterns in order; a stale owner is skipped.\<close>

primrec find_wildcard ::
  "(string \<Rightarrow> string \<Rightarrow> bool) \<Rightarrow> (provider_id \<rightharpoonup> 'net router_entry) \<Rightarrow> string \<Rightarrow> (string \<times> provider_id) list
     \<Rightarrow> (provider_id \<times> 'net server_config) option" where
  "find_wildcard wm configs normalized [] = None"
| "find_wildcard wm configs normalized (wc # wcs) =
     (case wc of (pattern, pid) \<Rightarrow>
        if wm pattern normalized then
          (case configs pid of
             Some entry \<Rightarrow> Some (pid, entry_config entry)
           | None \<Rightarrow> find_wildcard wm configs normalized wcs)
        else find_wildcard wm configs normalized wcs)"

definition router_resolve ::
  "(string \<Rightarrow> string) \<Rightarrow> (string \<Rightarrow> string \<Rightarrow> bool) \<Rightarrow> 'net domain_router \<Rightarrow> string
     \<Rightarrow> (provider_id \<times> 'net server_config) option" where
  "router_resolve lc wm r domain =
     (let normalized = lc (normalize_handshake domain);
          configs = map_of (router_configs r);
          wild = find_wildcard wm configs normalized (wildcard_patterns r)
      in case exact_domains r normalized of
          Some pid \<Rightarrow> (case configs pid of Some entry \<Rightarrow> Some (pid, entry_config entry) | None \<Rightarrow> wild)
        | None \<Rightarrow> wild)"

definition resolve_config ::
  "(string \<Rightarrow> string) \<Rightarrow> (string \<Rightarrow> string \<Rightarrow> bool) \<Rightarrow> 'net domain_router \<Rightarrow> string \<Rightarrow> 'net server_config option" where
  "resolve_config lc wm r domain = map_option snd (router_resolve lc wm r domain)"

definition find_by_server_id :: "'net walk \<Rightarrow> 'net domain_router \<Rightarrow> string \<Rightarrow> 'net server_config option" where
  "find_by_server_id iter r server_id =
     map_option (\<lambda>(_, e). entry_config e)
       (List.find (\<lambda>(_, e). effective_id (entry_config e) = server_id) (iter (router_configs r)))"

definition list_all_configs :: "'net walk \<Rightarrow> 'net domain_router \<Rightarrow> (provider_id \<times> 'net server_config) list" where
  "list_all_configs iter r = map (\<lambda>(pid, e). (pid, entry_config e)) (iter (router_configs r))"

definition count_by_provider :: "'net walk \<Rightarrow> 'net domain_router \<Rightarrow> string \<rightharpoonup> nat" where
  "count_by_provider iter r =
     fold (\<lambda>(pid, _) counts. counts(provider_type pid \<mapsto>
       (case counts (provider_type pid) of None \<Rightarrow> 0 | Some n \<Rightarrow> n) + 1)) (iter (router_configs r)) Map.empty"

definition router_len :: "'net domain_router \<Rightarrow> nat" where
  "router_len r = length (router_configs r)"

section \<open>The router's invariant\<close>

text \<open>What is known of a map's walk: every entry once, in some order.\<close>

definition walk_ok :: "'net walk \<Rightarrow> bool" where
  "walk_ok iter \<longleftrightarrow> (\<forall>xs. mset (iter xs) = mset xs)"

lemma walk_ok_set [simp]: "walk_ok iter \<Longrightarrow> set (iter xs) = set xs"
  unfolding walk_ok_def by (metis set_mset_mset)

definition lists :: "'net domain_router \<Rightarrow> provider_id \<Rightarrow> string \<Rightarrow> bool" where
  "lists r pid d \<longleftrightarrow> (case map_of (router_configs r) pid of Some e \<Rightarrow> d \<in> set (entry_domains e) | None \<Rightarrow> False)"

definition router_inv :: "(string \<Rightarrow> string) \<Rightarrow> 'net domain_router \<Rightarrow> bool" where
  "router_inv lc r \<longleftrightarrow> distinct (map fst (router_configs r)) \<and>
     (\<forall>pid e. map_of (router_configs r) pid = Some e \<longrightarrow> entry_domains e = map lc (sc_domains (entry_config e))) \<and>
     (\<forall>d pid. exact_domains r d = Some pid \<longrightarrow> lists r pid d \<and> \<not> is_wildcard d) \<and>
     set (wildcard_patterns r) = {(d, pid). lists r pid d \<and> is_wildcard d}"

text \<open>No two providers claim the same exact domain, and every claimed one is in the table.\<close>

definition conflict_free :: "'net domain_router \<Rightarrow> bool" where
  "conflict_free r \<longleftrightarrow> (\<forall>d p q. \<not> is_wildcard d \<longrightarrow> lists r p d \<longrightarrow> lists r q d \<longrightarrow> p = q)"

definition exact_complete :: "'net domain_router \<Rightarrow> bool" where
  "exact_complete r \<longleftrightarrow> (\<forall>d p. \<not> is_wildcard d \<longrightarrow> lists r p d \<longrightarrow> exact_domains r d \<noteq> None)"

lemma fold_exact_add:
  "fold (\<lambda>d m. if is_wildcard d then m else m(d \<mapsto> pid)) ds m d =
     (if d \<in> set ds \<and> \<not> is_wildcard d then Some pid else m d)"
  by (induction ds arbitrary: m) auto

lemma fold_exact_remove:
  "fold (\<lambda>d m. if is_wildcard d then m else if m d = Some pid then m(d := None) else m) ds m d =
     (if d \<in> set ds \<and> \<not> is_wildcard d \<and> m d = Some pid then None else m d)"
  by (induction ds arbitrary: m) auto

lemma rebuild_wildcards_fields [simp]:
  "router_configs (rebuild_wildcards iter r) = router_configs r"
  "exact_domains (rebuild_wildcards iter r) = exact_domains r"
  by (simp_all add: rebuild_wildcards_def)

lemma lists_alt:
  "distinct (map fst (router_configs r)) \<Longrightarrow>
     lists r pid d \<longleftrightarrow> (\<exists>e. (pid, e) \<in> set (router_configs r) \<and> d \<in> set (entry_domains e))"
proof -
  assume d: "distinct (map fst (router_configs r))"
  then have "(pid, e) \<in> set (router_configs r) \<longleftrightarrow> map_of (router_configs r) pid = Some e" for e by simp
  then show ?thesis unfolding lists_def by (cases "map_of (router_configs r) pid") (simp_all only: option.case option.inject, auto)
qed

lemma rebuild_wildcards_set:
  assumes "walk_ok iter" "distinct (map fst (router_configs r))"
  shows "set (wildcard_patterns (rebuild_wildcards iter r)) = {(d, pid). lists r pid d \<and> is_wildcard d}"
  using assms by (auto simp: rebuild_wildcards_def lists_alt)

lemma router_add_fields:
  "map_of (router_configs (router_add lc iter pid c r)) =
     (map_of (router_configs r))(pid \<mapsto> \<lparr>entry_config = c, entry_domains = map lc (sc_domains c)\<rparr>)"
  "exact_domains (router_add lc iter pid c r) d =
     (if d \<in> lc ` set (sc_domains c) \<and> \<not> is_wildcard d then Some pid else exact_domains r d)"
  "distinct (map fst (router_configs r)) \<Longrightarrow> distinct (map fst (router_configs (router_add lc iter pid c r)))"
  by (auto simp: router_add_def Let_def update_conv fold_exact_add distinct_update)

lemma router_remove_fields:
  "map_of (router_configs (router_remove iter pid r)) = (map_of (router_configs r))(pid := None)"
  "exact_domains (router_remove iter pid r) d =
     (if lists r pid d \<and> \<not> is_wildcard d \<and> exact_domains r d = Some pid then None else exact_domains r d)"
  "distinct (map fst (router_configs r)) \<Longrightarrow> distinct (map fst (router_configs (router_remove iter pid r)))"
  by (auto simp: router_remove_def Let_def delete_conv fold_exact_remove lists_def distinct_delete fun_upd_idem_iff
      split: option.splits)

lemma lists_add: "lists (router_add lc iter pid c r) p d = (if p = pid then d \<in> lc ` set (sc_domains c) else lists r p d)"
  by (simp add: lists_def router_add_fields)

lemma lists_remove: "lists (router_remove iter pid r) p d \<longleftrightarrow> p \<noteq> pid \<and> lists r p d"
  by (simp add: lists_def router_remove_fields)

lemma router_inv_new: "router_inv lc router_new"
  by (simp add: router_inv_def router_new_def lists_def)

lemma wildcards_add:
  assumes "walk_ok iter" "router_inv lc r" "map_of (router_configs r) pid = None"
  shows "set (wildcard_patterns (router_add lc iter pid c r)) =
    {(d, p). lists (router_add lc iter pid c r) p d \<and> is_wildcard d}"
proof (cases "\<exists>d \<in> lc ` set (sc_domains c). is_wildcard d")
  case True
  have "distinct (map fst (router_configs (router_add lc iter pid c r)))"
    using assms(2) by (simp add: router_add_fields router_inv_def)
  moreover obtain r' where "router_add lc iter pid c r = rebuild_wildcards iter r'"
    using True by (auto simp: router_add_def Let_def)
  ultimately show ?thesis using rebuild_wildcards_set [OF assms(1), of r'] by (simp add: lists_def)
next
  case False
  then have "wildcard_patterns (router_add lc iter pid c r) = wildcard_patterns r"
    by (auto simp: router_add_def Let_def)
  then show ?thesis using assms(2,3) False by (auto simp: router_inv_def lists_add) (auto simp: lists_def)
qed

lemma wildcards_remove:
  assumes "walk_ok iter" "router_inv lc r"
  shows "set (wildcard_patterns (router_remove iter pid r)) =
    {(d, p). lists (router_remove iter pid r) p d \<and> is_wildcard d}"
proof (cases "\<exists>d. lists r pid d \<and> is_wildcard d")
  case True
  have "distinct (map fst (router_configs (router_remove iter pid r)))"
    using assms(2) by (simp add: router_remove_fields router_inv_def)
  moreover obtain e where e: "map_of (router_configs r) pid = Some e" "\<exists>d \<in> set (entry_domains e). is_wildcard d"
    using True by (auto simp: lists_def split: option.splits)
  then obtain r' where "router_remove iter pid r = rebuild_wildcards iter r'"
    by (simp add: router_remove_def Let_def)
  ultimately show ?thesis using rebuild_wildcards_set [OF assms(1), of r'] by (simp add: lists_def)
next
  case False
  then have "wildcard_patterns (router_remove iter pid r) = wildcard_patterns r"
    by (auto simp: router_remove_def lists_def Let_def split: option.splits)
  then show ?thesis using assms(2) False by (auto simp: router_inv_def lists_remove)
qed

lemma router_inv_remove:
  assumes "walk_ok iter" "router_inv lc r"
  shows "router_inv lc (router_remove iter pid r)"
  using assms wildcards_remove [OF assms]
  by (auto simp: router_inv_def router_remove_fields lists_remove split: if_splits)

lemma router_inv_add:
  assumes "walk_ok iter" "router_inv lc r" "map_of (router_configs r) pid = None"
  shows "router_inv lc (router_add lc iter pid c r)"
proof -
  have "exact_domains r d \<noteq> Some pid" for d
    using assms(2,3) unfolding router_inv_def lists_def by (metis option.case(1))
  then show ?thesis using assms wildcards_add [OF assms, of c]
    by (auto simp: router_inv_def router_add_fields lists_add split: if_splits)
qed

lemma router_inv_update:
  assumes "walk_ok iter" "router_inv lc r"
  shows "router_inv lc (router_update lc iter pid c r)"
  unfolding router_update_def
  by (rule router_inv_add [OF assms(1) router_inv_remove [OF assms]]) (simp add: router_remove_fields)

lemma router_remove_list_induct:
  assumes "P r" "\<And>r pid. P r \<Longrightarrow> P (router_remove iter pid r)"
  shows "P (fold (router_remove iter) ids r)"
  using assms by (induction ids arbitrary: r) auto

section \<open>Histories of a router\<close>

text \<open>
  The changes a router goes through: a provider adds a configuration it has not added
  before, updates one, removes one, or a whole kind of provider is removed.
\<close>

inductive router_step :: "(string \<Rightarrow> string) \<Rightarrow> 'net walk \<Rightarrow> 'net domain_router \<Rightarrow> 'net domain_router \<Rightarrow> bool"
  for lc iter where
  add: "map_of (router_configs r) pid = None \<Longrightarrow> router_step lc iter r (router_add lc iter pid c r)"
| update: "router_step lc iter r (router_update lc iter pid c r)"
| remove: "router_step lc iter r (router_remove iter pid r)"
| remove_type: "router_step lc iter r (remove_all_by_provider_type iter t r)"

definition router_reach :: "(string \<Rightarrow> string) \<Rightarrow> 'net walk \<Rightarrow> 'net domain_router \<Rightarrow> bool" where
  "router_reach lc iter = (router_step lc iter)\<^sup>*\<^sup>* router_new"

text \<open>Histories in which providers never claim each other's exact domains.\<close>

definition router_reach_cf :: "(string \<Rightarrow> string) \<Rightarrow> 'net walk \<Rightarrow> 'net domain_router \<Rightarrow> bool" where
  "router_reach_cf lc iter = (\<lambda>r r'. router_step lc iter r r' \<and> conflict_free r')\<^sup>*\<^sup>* router_new"

lemma router_step_inv: "router_step lc iter r r' \<Longrightarrow> walk_ok iter \<Longrightarrow> router_inv lc r \<Longrightarrow> router_inv lc r'"
  by (induction rule: router_step.induct)
    (auto intro: router_inv_add router_inv_update router_inv_remove router_remove_list_induct
      simp: remove_all_by_provider_type_def Let_def)

lemma router_reach_inv: "router_reach lc iter r \<Longrightarrow> walk_ok iter \<Longrightarrow> router_inv lc r"
  unfolding router_reach_def
  by (induction rule: rtranclp_induct) (auto intro: router_inv_new router_step_inv)

lemma exact_complete_remove:
  "conflict_free r \<Longrightarrow> exact_complete r \<Longrightarrow> router_inv lc r \<Longrightarrow>
     conflict_free (router_remove iter pid r) \<and> exact_complete (router_remove iter pid r)"
  unfolding conflict_free_def exact_complete_def router_inv_def
  by (simp add: lists_remove router_remove_fields) (metis option.inject)

lemma exact_complete_add: "exact_complete r \<Longrightarrow> exact_complete (router_add lc iter pid c r)"
  by (auto simp: exact_complete_def lists_add router_add_fields)

lemma router_step_complete:
  assumes "router_step lc iter r r'" "walk_ok iter" "router_inv lc r" "conflict_free r" "exact_complete r"
  shows "exact_complete r'"
  using assms
proof (induction rule: router_step.induct)
  case (remove_type r t)
  then have "router_inv lc r \<and> conflict_free r \<and> exact_complete r" by simp
  then have "router_inv lc (remove_all_by_provider_type iter t r) \<and> conflict_free (remove_all_by_provider_type iter t r)
      \<and> exact_complete (remove_all_by_provider_type iter t r)"
    unfolding remove_all_by_provider_type_def Let_def
    by (rule router_remove_list_induct) (use remove_type.prems(1) exact_complete_remove router_inv_remove in blast)
  then show ?case by blast
next
  case (update r pid c)
  then show ?case using exact_complete_remove [of r lc iter pid] by (auto simp: router_update_def intro: exact_complete_add)
qed (use exact_complete_add exact_complete_remove in blast)+

lemma router_reach_cf_inv:
  "router_reach_cf lc iter r \<Longrightarrow> walk_ok iter \<Longrightarrow> router_inv lc r \<and> conflict_free r \<and> exact_complete r"
  unfolding router_reach_cf_def
proof (induction rule: rtranclp_induct)
  case base
  show ?case by (simp add: router_inv_new) (simp add: conflict_free_def exact_complete_def router_new_def lists_def)
next
  case (step r r')
  then show ?case using router_step_inv router_step_complete by blast
qed

lemma find_wildcard_Some:
  "find_wildcard wm configs n wcs = Some (pid, c) \<Longrightarrow>
     \<exists>p e. (p, pid) \<in> set wcs \<and> wm p n \<and> configs pid = Some e \<and> entry_config e = c"
  by (induction wcs) (auto split: prod.splits if_splits option.splits)

lemma find_wildcard_None:
  "find_wildcard wm configs n wcs = None \<longleftrightarrow> (\<forall>p pid. (p, pid) \<in> set wcs \<longrightarrow> wm p n \<longrightarrow> configs pid = None)"
  by (induction wcs) (auto split: prod.splits option.splits)

text \<open>A configuration answers for a host name by an exact domain or by a pattern.\<close>

definition answers :: "(string \<Rightarrow> string) \<Rightarrow> (string \<Rightarrow> string \<Rightarrow> bool) \<Rightarrow> 'net server_config \<Rightarrow> string \<Rightarrow> bool" where
  "answers lc wm c n \<longleftrightarrow> (\<exists>d \<in> set (sc_domains c). if is_wildcard (lc d) then wm (lc d) n else lc d = n)"

definition answers_exactly :: "(string \<Rightarrow> string) \<Rightarrow> 'net server_config \<Rightarrow> string \<Rightarrow> bool" where
  "answers_exactly lc c n \<longleftrightarrow> (\<exists>d \<in> set (sc_domains c). \<not> is_wildcard (lc d) \<and> lc d = n)"

lemma answers_exactly_iff: "answers_exactly lc c n \<longleftrightarrow> n \<in> lc ` set (sc_domains c) \<and> \<not> is_wildcard n"
  unfolding answers_exactly_def image_iff by metis

text \<open>The configurations in the router.\<close>

definition registered :: "'net domain_router \<Rightarrow> provider_id \<Rightarrow> 'net server_config \<Rightarrow> bool" where
  "registered r pid c \<longleftrightarrow> map_option entry_config (map_of (router_configs r) pid) = Some c"

lemma lists_registered:
  "router_inv lc r \<Longrightarrow> registered r pid c \<Longrightarrow> lists r pid d \<longleftrightarrow> d \<in> lc ` set (sc_domains c)"
  by (auto simp: router_inv_def registered_def lists_def)

lemma registeredI: "lists r pid d \<Longrightarrow> \<exists>c. registered r pid c"
  by (auto simp: registered_def lists_def split: option.splits)

lemma resolve_sound:
  assumes "router_inv lc r" "router_resolve lc wm r h = Some (pid, c)"
  shows "registered r pid c \<and> answers lc wm c (lc (normalize_handshake h))"
proof -
  let ?n = "lc (normalize_handshake h)"
  from assms(2) consider (exact) e where "exact_domains r ?n = Some pid" "map_of (router_configs r) pid = Some e" "entry_config e = c"
    | (wild) "find_wildcard wm (map_of (router_configs r)) ?n (wildcard_patterns r) = Some (pid, c)"
    by (auto simp: router_resolve_def Let_def split: option.splits)
  then show ?thesis
  proof cases
    case exact
    then have "registered r pid c" by (simp add: registered_def)
    moreover have "lists r pid ?n \<and> \<not> is_wildcard ?n" using assms(1) exact(1) by (auto simp: router_inv_def)
    ultimately show ?thesis using lists_registered [OF assms(1)] by (fastforce simp: answers_def)
  next
    case wild
    then obtain p e where p: "(p, pid) \<in> set (wildcard_patterns r)" "wm p ?n" "map_of (router_configs r) pid = Some e" "entry_config e = c"
      using find_wildcard_Some by blast
    then have "registered r pid c" by (simp add: registered_def)
    moreover have "lists r pid p \<and> is_wildcard p" using assms(1) p(1) by (auto simp: router_inv_def)
    ultimately show ?thesis using lists_registered [OF assms(1)] p(2) by (fastforce simp: answers_def)
  qed
qed

lemma exact_owner: "router_inv lc r \<Longrightarrow> exact_domains r d = Some q \<Longrightarrow> map_of (router_configs r) q \<noteq> None"
  unfolding router_inv_def lists_def by (metis option.case(1))



text \<open>The latest registration of an exact domain wins, whatever was registered before and in
  whatever state the router is: the Forge marker, a trailing dot and the letter case of the host do not matter.\<close>

theorem router_last_write:
  assumes "answers_exactly lc c (lc (normalize_handshake h))"
  shows "router_resolve lc wm (router_add lc iter pid c r) h = Some (pid, c) \<and>
    router_resolve lc wm (router_update lc iter pid c r) h = Some (pid, c)"
proof -
  have "router_resolve lc wm (router_add lc iter pid c r) h = Some (pid, c)" for r
  proof -
    have "lc (normalize_handshake h) \<in> lc ` set (sc_domains c)" "\<not> is_wildcard (lc (normalize_handshake h))"
      using assms by (simp_all add: answers_exactly_iff)
    then show ?thesis by (simp add: router_resolve_def router_add_fields Let_def)
  qed
  then show ?thesis by (simp add: router_update_def)
qed

lemma trim_dots:
  "d = [] \<or> last d \<noteq> CHR ''.'' \<Longrightarrow> rev (dropWhile (\<lambda>c. c = CHR ''.'') (rev (d @ replicate k (CHR ''.'')))) = d"
  by (cases d rule: rev_cases) (auto simp: dropWhile_append)

lemma trim_dots_last:
  "rev (dropWhile (\<lambda>c. c = CHR ''.'') (rev s)) = [] \<or> last (rev (dropWhile (\<lambda>c. c = CHR ''.'') (rev s))) \<noteq> CHR ''.''"
  using hd_dropWhile [of "\<lambda>c. c = CHR ''.''" "rev s"] by (auto simp: last_rev)

text \<open>Normalising a host keeps what precedes the first NUL without the final dots: markers
  that modded clients append and the dot of a fully qualified name are gone, nothing else is, and doing it twice
  changes nothing.\<close>

theorem normalize_handshake_spec:
  assumes "CHR 0x00 \<notin> set d" "d = [] \<or> last d \<noteq> CHR ''.''"
  shows "normalize_handshake (d @ replicate k (CHR ''.'') @ CHR 0x00 # marker) = d \<and>
     normalize_handshake (d @ replicate k (CHR ''.'')) = d \<and>
     normalize_handshake (normalize_handshake x) = normalize_handshake x"
proof -
  have t: "takeWhile (\<lambda>c. c \<noteq> CHR 0x00) (s @ CHR 0x00 # marker) = s" "takeWhile (\<lambda>c. c \<noteq> CHR 0x00) s = s"
    if "CHR 0x00 \<notin> set s" for s :: string
    using that by (auto simp: takeWhile_append takeWhile_eq_all_conv)
  have "CHR 0x00 \<notin> set (d @ replicate k (CHR ''.''))" using assms(1) by auto
  from t [OF this] have 1: "normalize_handshake (d @ replicate k (CHR ''.'') @ CHR 0x00 # marker) = d"
    "normalize_handshake (d @ replicate k (CHR ''.'')) = d"
    using trim_dots [OF assms(2), of k] unfolding normalize_handshake_def Let_def append_assoc [symmetric] by simp_all
  let ?y = "normalize_handshake x"
  have "set ?y \<subseteq> set (takeWhile (\<lambda>c. c \<noteq> CHR 0x00) x)"
    unfolding normalize_handshake_def Let_def by (metis set_dropWhileD set_rev subsetI)
  then have "CHR 0x00 \<notin> set ?y" by (auto dest: set_takeWhileD)
  moreover have "?y = [] \<or> last ?y \<noteq> CHR ''.''"
    unfolding normalize_handshake_def Let_def by (rule trim_dots_last)
  then have "rev (dropWhile (\<lambda>c. c = CHR ''.'') (rev ?y)) = ?y" using trim_dots [of ?y 0] by simp
  ultimately have "normalize_handshake ?y = ?y" unfolding normalize_handshake_def [of ?y] Let_def using t(2) [of ?y] by metis
  with 1 show ?thesis by simp
qed

theorem normalize_handshake_spec_witness:
  "normalize_handshake (''mc.io'' @ replicate 1 (CHR ''.'') @ CHR 0x00 # ''FML'') = ''mc.io''"
  using normalize_handshake_spec [of "''mc.io''" 1 "''FML''" "[]"] by simp

theorem router_last_write_witness:
  "router_resolve id (=) (router_add id id \<lparr>provider_type = ''file'', unique_id = ''a''\<rparr> (sample_config ''hub'' [''a.b'']) router_new)
     ''a.b.'' = Some (\<lparr>provider_type = ''file'', unique_id = ''a''\<rparr>, sample_config ''hub'' [''a.b''])"
  using router_last_write [of id "sample_config ''hub'' [''a.b'']" "''a.b.''" "(=)" id]
  by (simp add: answers_exactly_def normalize_handshake_def is_wildcard_def sample_config_def)

text \<open>A short history for the examples: one provider with an exact domain and a pattern.\<close>

definition sample_router :: "nat domain_router" where
  "sample_router = router_add id rev \<lparr>provider_type = ''file'', unique_id = ''a''\<rparr> (sample_config ''hub'' [''a.b'', ''*.b'']) router_new"

lemma sample_router_cf: "router_reach_cf id rev sample_router"
proof -
  have "router_step id rev router_new sample_router"
    unfolding sample_router_def by (rule router_step.add) (simp add: router_new_def)
  moreover have "conflict_free sample_router"
    by (simp add: conflict_free_def sample_router_def lists_add) (simp add: lists_def router_new_def)
  ultimately show ?thesis by (auto simp: router_reach_cf_def)
qed



section \<open>The static index\<close>

lemma find_SomeD: "List.find P xs = Some x \<Longrightarrow> x \<in> set xs \<and> P x"
  by (induction xs) (auto split: if_splits)


record domain_index =
  index_exact :: "string \<rightharpoonup> string"
  index_wildcards :: "(string \<times> string) list"

definition index_insert :: "(string \<Rightarrow> string) \<Rightarrow> string \<Rightarrow> string \<Rightarrow> domain_index \<Rightarrow> domain_index" where
  "index_insert lc cid domain ix =
     (let normalized = lc domain
      in if CHR ''*'' \<in> set normalized \<or> CHR ''?'' \<in> set normalized
         then ix\<lparr>index_wildcards := index_wildcards ix @ [(normalized, cid)]\<rparr>
         else ix\<lparr>index_exact := (index_exact ix)(normalized \<mapsto> cid)\<rparr>)"

definition index_build :: "(string \<Rightarrow> string) \<Rightarrow> 'net server_config list \<Rightarrow> domain_index" where
  "index_build lc configs =
     fold (\<lambda>c. fold (index_insert lc (effective_id c)) (sc_domains c)) configs
       \<lparr>index_exact = Map.empty, index_wildcards = []\<rparr>"

definition strip_fml_marker :: "string \<Rightarrow> string" where
  "strip_fml_marker domain = takeWhile (\<lambda>c. c \<noteq> CHR 0x00) domain"

definition index_resolve ::
  "(string \<Rightarrow> string) \<Rightarrow> (string \<Rightarrow> string \<Rightarrow> bool) \<Rightarrow> domain_index \<Rightarrow> string \<Rightarrow> string option" where
  "index_resolve lc wm ix domain =
     (let normalized = lc (strip_fml_marker domain)
      in case index_exact ix normalized of
          Some i \<Rightarrow> Some i
        | None \<Rightarrow> map_option snd (List.find (\<lambda>(pattern, _). wm pattern normalized) (index_wildcards ix)))"

text \<open>
  Both tables hold the last claim to an exact domain. \<open>last_claim\<close> is that claim, the
  patterns are all the patterns.
\<close>

definition last_claim :: "(string \<Rightarrow> string) \<Rightarrow> ('a \<times> 'net server_config) list \<Rightarrow> string \<Rightarrow> ('a \<times> 'net server_config) option" where
  "last_claim lc ps n = List.find (\<lambda>(_, c). answers_exactly lc c n) (rev ps)"

lemma last_claim_snoc:
  "last_claim lc (ps @ [p]) n = (if answers_exactly lc (snd p) n then Some p else last_claim lc ps n)"
  by (cases p) (simp add: last_claim_def)

lemma index_insert_fields:
  "index_exact (index_insert lc i d ix) = (if is_wildcard (lc d) then index_exact ix else (index_exact ix)(lc d \<mapsto> i))"
  "index_wildcards (index_insert lc i d ix) = index_wildcards ix @ (if is_wildcard (lc d) then [(lc d, i)] else [])"
  by (simp_all add: index_insert_def is_wildcard_def Let_def)

lemma index_insert_domains:
  "index_exact (fold (index_insert lc i) ds ix) n =
     (if n \<in> lc ` set ds \<and> \<not> is_wildcard n then Some i else index_exact ix n)"
  "index_wildcards (fold (index_insert lc i) ds ix) =
     index_wildcards ix @ map (\<lambda>d. (d, i)) (filter is_wildcard (map lc ds))"
  by (induction ds arbitrary: ix) (auto simp: index_insert_fields)

lemma index_build_snoc:
  "index_build lc (cs @ [c]) = fold (index_insert lc (effective_id c)) (sc_domains c) (index_build lc cs)"
  by (simp add: index_build_def)

lemma index_build_fields:
  "index_exact (index_build lc (map snd ps)) n = map_option (effective_id \<circ> snd) (last_claim lc ps n)"
  "index_wildcards (index_build lc (map snd ps)) =
     concat (map (\<lambda>(_, c). map (\<lambda>d. (d, effective_id c)) (filter is_wildcard (map lc (sc_domains c)))) ps)"
  by (induction ps rule: rev_induct)
    (auto simp: index_build_snoc index_insert_domains last_claim_snoc answers_exactly_iff, simp_all add: index_build_def last_claim_def)

definition router_load ::
  "(string \<Rightarrow> string) \<Rightarrow> 'net walk \<Rightarrow> (provider_id \<times> 'net server_config) list \<Rightarrow> 'net domain_router" where
  "router_load lc iter ps = fold (\<lambda>(pid, c). router_add lc iter pid c) ps router_new"

lemma router_load_snoc: "router_load lc iter (ps @ [(pid, c)]) = router_add lc iter pid c (router_load lc iter ps)"
  by (simp add: router_load_def)

lemma router_load_fields:
  "distinct (map fst ps) \<Longrightarrow> walk_ok iter \<Longrightarrow>
     router_inv lc (router_load lc iter ps) \<and> (\<forall>pid c. registered (router_load lc iter ps) pid c \<longleftrightarrow> (pid, c) \<in> set ps)
     \<and> (\<forall>n. exact_domains (router_load lc iter ps) n = map_option fst (last_claim lc ps n))"
proof (induction ps rule: rev_induct)
  case Nil
  then show ?case by (simp add: router_load_def router_inv_new last_claim_def) (simp add: registered_def router_new_def)
next
  case (snoc p ps)
  obtain pid c where p: "p = (pid, c)" by (cases p)
  have IH: "router_inv lc (router_load lc iter ps)" "registered (router_load lc iter ps) q d \<longleftrightarrow> (q, d) \<in> set ps"
    "exact_domains (router_load lc iter ps) n = map_option fst (last_claim lc ps n)" for q d n
    using snoc by auto
  have "\<not> registered (router_load lc iter ps) pid d" for d using IH(2) snoc.prems(1) p by force
  then have new: "map_of (router_configs (router_load lc iter ps)) pid = None"
    by (cases "map_of (router_configs (router_load lc iter ps)) pid") (auto simp: registered_def)
  have "registered (router_load lc iter (ps @ [p])) q d \<longleftrightarrow> (q, d) \<in> set (ps @ [p])" for q d
    using IH(2) [of q d] \<open>\<And>d. \<not> registered (router_load lc iter ps) pid d\<close> [of d]
    by (auto simp: p router_load_snoc registered_def router_add_fields)
  moreover have "router_inv lc (router_load lc iter (ps @ [p]))"
    unfolding p router_load_snoc by (rule router_inv_add [OF snoc.prems(2) IH(1) new])
  ultimately show ?case using IH(3)
    by (simp add: p router_load_snoc router_add_fields last_claim_snoc answers_exactly_iff)
qed

text \<open>Loading configurations into the live router and building the static index from them give the
  same routing: for every host without a final dot both find a server or neither does, and it is the same one
  unless patterns of different servers match, which the two may scan in different orders.\<close>

theorem router_index_agree:
  assumes "walk_ok iter" "distinct (map fst ps)" "normalize_handshake h = strip_fml_marker h"
    and "\<forall>(_, c) \<in> set ps. \<forall>(_, c') \<in> set ps. \<forall>d \<in> set (sc_domains c). \<forall>d' \<in> set (sc_domains c').
      is_wildcard (lc d) \<and> is_wildcard (lc d') \<and> wm (lc d) (lc (strip_fml_marker h)) \<and> wm (lc d') (lc (strip_fml_marker h))
        \<longrightarrow> effective_id c = effective_id c'"
  shows "map_option (effective_id \<circ> snd) (router_resolve lc wm (router_load lc iter ps) h) =
    index_resolve lc wm (index_build lc (map snd ps)) h"
proof -
  let ?n = "lc (strip_fml_marker h)" and ?r = "router_load lc iter ps" and ?ix = "index_build lc (map snd ps)"
  have r: "router_inv lc ?r" "\<And>pid c. registered ?r pid c \<longleftrightarrow> (pid, c) \<in> set ps"
    "exact_domains ?r ?n = map_option fst (last_claim lc ps ?n)"
    using router_load_fields [OF assms(2,1)] by auto
  show ?thesis
  proof (cases "last_claim lc ps ?n")
    case (Some p)
    obtain pid c where p: "p = (pid, c)" by (cases p)
    have "(pid, c) \<in> set ps" using Some p find_SomeD by (fastforce simp: last_claim_def)
    then have "registered ?r pid c" using r(2) by simp
    then show ?thesis using Some p r(3) assms(3)
      by (auto simp: router_resolve_def index_resolve_def index_build_fields registered_def Let_def)
  next
    case None
    then have 1: "router_resolve lc wm ?r h = find_wildcard wm (map_of (router_configs ?r)) ?n (wildcard_patterns ?r)"
      using r(3) assms(3) by (simp add: router_resolve_def Let_def)
    have 2: "index_resolve lc wm ?ix h = map_option snd (List.find (\<lambda>(p, _). wm p ?n) (index_wildcards ?ix))"
      using None by (simp add: index_resolve_def index_build_fields Let_def)
    have w: "(d, pid) \<in> set (wildcard_patterns ?r) \<longleftrightarrow> lists ?r pid d \<and> is_wildcard d" for d pid
      using r(1) by (auto simp: router_inv_def)
    have l: "lists ?r pid d \<longleftrightarrow> (\<exists>c. (pid, c) \<in> set ps \<and> d \<in> lc ` set (sc_domains c))" for pid d
      using lists_registered [OF r(1)] registeredI r(2) by metis
    have x: "(d, i) \<in> set (index_wildcards ?ix) \<longleftrightarrow>
        is_wildcard d \<and> (\<exists>pid c. (pid, c) \<in> set ps \<and> d \<in> lc ` set (sc_domains c) \<and> i = effective_id c)" for d i
      by (fastforce simp: index_build_fields)
    show ?thesis
    proof (cases "router_resolve lc wm ?r h")
      case None
      have "\<not> wm d ?n" if "(d, i) \<in> set (index_wildcards ?ix)" for d i
      proof
        assume "wm d ?n"
        from that obtain pid c where "(pid, c) \<in> set ps" "d \<in> lc ` set (sc_domains c)" "is_wildcard d" using x by blast
        then have "(d, pid) \<in> set (wildcard_patterns ?r)" "registered ?r pid c" using w l r(2) by blast+
        with None 1 \<open>wm d ?n\<close> show False by (auto simp: find_wildcard_None registered_def)
      qed
      then have "List.find (\<lambda>(p, _). wm p ?n) (index_wildcards ?ix) = None" by (auto simp: find_None_iff)
      with None 2 show ?thesis by simp
    next
      case (Some y)
      obtain pid c where y: "y = (pid, c)" by (cases y)
      with Some 1 obtain p e where p: "(p, pid) \<in> set (wildcard_patterns ?r)" "wm p ?n" "map_of (router_configs ?r) pid = Some e" "entry_config e = c"
        using find_wildcard_Some by metis
      then have reg: "registered ?r pid c" by (simp add: registered_def)
      have c: "(pid, c) \<in> set ps" "p \<in> lc ` set (sc_domains c)" "is_wildcard p"
        using reg r(2) w p(1) lists_registered [OF r(1) reg] by simp_all
      then have "(p, effective_id c) \<in> set (index_wildcards ?ix)" using x by blast
      then obtain d i where d: "List.find (\<lambda>(p, _). wm p ?n) (index_wildcards ?ix) = Some (d, i)"
        using p(2) by (cases "List.find (\<lambda>(p, _). wm p ?n) (index_wildcards ?ix)") (auto simp: find_None_iff)
      then obtain q c' where q: "(q, c') \<in> set ps" "d \<in> lc ` set (sc_domains c')" "i = effective_id c'" "is_wildcard d" "wm d ?n"
        using find_SomeD [OF d] x by auto
      have "effective_id c = effective_id c'" using assms(4) c q p(2) by fastforce
      with Some y 2 d q(3) show ?thesis by simp
    qed
  qed
qed

theorem router_index_agree_witness:
  "map_option (effective_id \<circ> snd) (router_resolve id (=) (router_load id rev
      [(\<lparr>provider_type = ''file'', unique_id = ''a''\<rparr>, sample_config ''hub'' [''a.b'', ''*.b'']),
       (\<lparr>provider_type = ''file'', unique_id = ''b''\<rparr>, sample_config ''pvp'' [''a.b''])]) ''a.b'') = Some ''pvp''"
  using router_index_agree [of rev "[(\<lparr>provider_type = ''file'', unique_id = ''a''\<rparr>, sample_config ''hub'' [''a.b'', ''*.b'']),
       (\<lparr>provider_type = ''file'', unique_id = ''b''\<rparr>, sample_config ''pvp'' [''a.b''])]" "''a.b''" id "(=)"]
  by (simp add: walk_ok_def normalize_handshake_def strip_fml_marker_def is_wildcard_def sample_config_def index_resolve_def
      index_build_def index_insert_def effective_id_def)

end
