(* ===== verification/Rewrite.thy ===== *)
theory Rewrite
  imports Routing
begin

text \<open>
  The core's error type (\<open>error.rs\<close>), the data the pipeline attaches to a connection
  (\<open>pipeline/types.rs\<close>) and the rewriting of a handshake for the backend
  (\<open>util/domain_rewrite.rs\<close>).
\<close>

section \<open>Errors\<close>

text \<open>Errors of other crates that the core only wraps and prints are their text.\<close>

datatype core_error =
    TransportError string
  | ProtocolError protocol_error
  | ConfigError config_error
  | Rejected string
  | UnknownDomain string
  | ConnectionClosed
  | Timeout string
  | BackendUnreachable string
  | IoError io_error_kind
  | ForwardingError string
  | AuthError string
  | MissingExtension string
  | InvalidProviderId string
  | DockerConnection string
  | TelemetryInit string
  | OtherError string

definition is_expected_disconnect :: "core_error \<Rightarrow> bool" where
  "is_expected_disconnect e = (case e of
     IoError k \<Rightarrow> k \<in> {ConnectionReset, BrokenPipe, ConnectionAborted, UnexpectedEof}
   | ConnectionClosed \<Rightarrow> True
   | TransportError _ \<Rightarrow> True
   | _ \<Rightarrow> False)"

definition lift_protocol :: "protocol_error + 'a \<Rightarrow> core_error + 'a" where
  "lift_protocol r = (case r of Inl e \<Rightarrow> Err (ProtocolError e) | Inr a \<Rightarrow> Ok a)"

lemma lift_protocol_simps [simp]: "lift_protocol (Ok a) = Ok a" "lift_protocol (Err e) = Err (ProtocolError e)"
  by (simp_all add: lift_protocol_def)

lemma lift_protocol_eq_Ok [simp]: "lift_protocol r = Ok a \<longleftrightarrow> r = Ok a"
  by (cases r) simp_all

section \<open>Pipeline data\<close>

datatype connection_intent = IntentStatus | IntentLogin | IntentTransfer

record handshake_data =
  hd_domain :: string
  hd_port :: u16
  hd_protocol_version :: protocol_version
  hd_intent :: connection_intent
  hd_raw_packets :: "bytes list"

record 'net routing_data =
  rd_server_config :: "'net server_config"
  rd_config_id :: string

record login_data =
  ld_username :: string
  ld_player_uuid :: "u128 option"

section \<open>Rewriting\<close>

definition first_raw_packet :: "handshake_data \<Rightarrow> bytes" where
  "first_raw_packet h = (case hd_raw_packets h of b # _ \<Rightarrow> b | [] \<Rightarrow> [])"

definition encode_handshake_with_domain ::
  "(bytes \<Rightarrow> bytes) \<Rightarrow> handshake_data \<Rightarrow> string \<Rightarrow> core_error + bytes" where
  "encode_handshake_with_domain deflate h new_domain =
     (let next_state = (case hd_intent h of IntentStatus \<Rightarrow> Status | IntentLogin \<Rightarrow> Login | IntentTransfer \<Rightarrow> Login);
          modified = \<lparr>hs_protocol_version = word_of_int (hd_protocol_version h), hs_server_address = new_domain,
                      hs_server_port = hd_port h, hs_next_state = next_state\<rparr>
      in rbind (lift_protocol (s_handshake_encode modified)) (\<lambda>payload.
         rbind (lift_protocol (append_raw deflate 0 payload encoder_new)) (\<lambda>enc.
         Ok (fst (encoder_take enc)))))"

definition rewrite_handshake ::
  "(bytes \<Rightarrow> bytes) \<Rightarrow> handshake_data \<Rightarrow> 'net server_config \<Rightarrow> core_error + bytes" where
  "rewrite_handshake deflate h config =
     (case sc_domain_rewrite config of
        NoRewrite \<Rightarrow> Ok (first_raw_packet h)
      | Explicit domain \<Rightarrow> encode_handshake_with_domain deflate h domain
      | FromBackend \<Rightarrow> (case sc_addresses config of
            [] \<Rightarrow> Ok (first_raw_packet h)
          | addr # _ \<Rightarrow> encode_handshake_with_domain deflate h (host addr)))"

text \<open>The host name a configuration asks to present to the backend.\<close>

definition rewritten_host :: "'net server_config \<Rightarrow> string option" where
  "rewritten_host config = (case sc_domain_rewrite config of
     NoRewrite \<Rightarrow> None
   | Explicit d \<Rightarrow> Some d
   | FromBackend \<Rightarrow> (case sc_addresses config of [] \<Rightarrow> None | a # _ \<Rightarrow> Some (host a)))"

lemma rewrite_handshake_host:
  "rewrite_handshake deflate h config =
     (case rewritten_host config of None \<Rightarrow> Ok (first_raw_packet h) | Some d \<Rightarrow> encode_handshake_with_domain deflate h d)"
  by (auto simp: rewrite_handshake_def rewritten_host_def split: domain_rewrite.splits list.splits)

lemma framed_stream:
  assumes "append_frames deflate fs encoder_new = Ok e" "\<forall>x. inflate (deflate x) = x"
  shows "decode_stream inflate decoder_new [enc_buf e] = (fs, None)"
proof -
  have "drain inflate (queue_bytes (enc_buf e) decoder_new) = (case drain inflate decoder_new of (gs, er, d') \<Rightarrow> (fs @ gs, er, d'))"
    using append_frames_drain [OF assms, of "queue_bytes (enc_buf e) decoder_new" "enc_buf e" "[]"]
    by (simp add: queue_bytes_def decoder_new_def encoder_new_def frame_fits_def)
  then show ?thesis using drain_empty [of decoder_new inflate] by (simp add: decoder_new_def)
qed



end
