(* ===== verification/Ordering.thy ===== *)
theory Ordering
  imports Prelude "HOL-Library.AList" "HOL-Library.Multiset" "HOL-Library.Product_Lexorder"
begin

text \<open>
  Ordering by constraints: the order of packet filters (\<open>filter/ordering.rs\<close>,
  \<open>filter/registry_base.rs\<close>) and the load order of plugins (\<open>plugin/dependency.rs\<close>). Both are
  Kahn's algorithm, with a priority heap and with a queue.

  A \<open>HashMap\<close> is an association list; the order in which one is walked is the parameter
  \<open>iter\<close>. A heap is the list of its entries in the order they are popped. Decrementing a
  degree of zero, which would overflow, is the value \<open>None\<close>.
\<close>

section \<open>Metadata\<close>

datatype filter_priority = First | Early | Normal | Late | Last

fun priority_rank :: "filter_priority \<Rightarrow> nat" where
  "priority_rank First = 0" | "priority_rank Early = 1" | "priority_rank Normal = 2"
| "priority_rank Late = 3" | "priority_rank Last = 4"

instantiation filter_priority :: linorder
begin

definition less_eq_filter_priority :: "filter_priority \<Rightarrow> filter_priority \<Rightarrow> bool" where
  "p \<le> q \<longleftrightarrow> priority_rank p \<le> priority_rank q"

definition less_filter_priority :: "filter_priority \<Rightarrow> filter_priority \<Rightarrow> bool" where
  "p < q \<longleftrightarrow> priority_rank p < priority_rank q"

instance
proof
  fix p q :: filter_priority
  show "p \<le> q \<Longrightarrow> q \<le> p \<Longrightarrow> p = q"
    by (cases p; cases q) (simp_all add: less_eq_filter_priority_def)
qed (auto simp: less_eq_filter_priority_def less_filter_priority_def)

end

record filter_metadata =
  filter_id :: string
  filter_prio :: filter_priority
  after :: "string list"
  before :: "string list"

record plugin_dependency =
  dep_id :: string
  dep_optional :: bool

record plugin_metadata =
  plugin_id :: string
  plugin_name :: string
  plugin_version :: string
  plugin_authors :: "string list"
  plugin_description :: "string option"
  plugin_dependencies :: "plugin_dependency list"

datatype filter_order_error = CyclicDependency string

datatype plugin_error = InitFailed string | CustomError string

section \<open>The graph\<close>

type_synonym degrees = "(string \<times> nat) list"
type_synonym dependents = "string \<rightharpoonup> string list"

text \<open>\<open>entry(k).or_insert(0)\<close>, the increment of an entry, and \<open>entry(k).or_default().push(v)\<close>.\<close>

definition or_insert0 :: "string \<Rightarrow> degrees \<Rightarrow> degrees" where
  "or_insert0 k m = (case map_of m k of None \<Rightarrow> m @ [(k, 0)] | Some _ \<Rightarrow> m)"

definition bump :: "string \<Rightarrow> degrees \<Rightarrow> degrees" where
  "bump k m = AList.update k (case map_of m k of None \<Rightarrow> 1 | Some n \<Rightarrow> Suc n) m"

definition push_dependent :: "string \<Rightarrow> string \<Rightarrow> dependents \<Rightarrow> dependents" where
  "push_dependent u v d = d(u \<mapsto> (case d u of None \<Rightarrow> [] | Some vs \<Rightarrow> vs) @ [v])"

definition add_edge :: "string \<times> string \<Rightarrow> degrees \<times> dependents \<Rightarrow> degrees \<times> dependents" where
  "add_edge = (\<lambda>(u, v) (deg, deps). (bump v deg, push_dependent u v deps))"

text \<open>The constraints, an edge from what comes first to what comes after it, in the order of the loops.\<close>

definition filter_edges :: "filter_metadata list \<Rightarrow> (string \<times> string) list" where
  "filter_edges filters =
     (let available = set (map filter_id filters)
      in concat (map (\<lambda>f. map (\<lambda>dep. (dep, filter_id f)) (filter (\<lambda>dep. dep \<in> available) (after f))) filters)
         @ concat (map (\<lambda>f. map (\<lambda>target. (filter_id f, target)) (filter (\<lambda>target. target \<in> available) (before f))) filters))"

definition filter_graph :: "filter_metadata list \<Rightarrow> degrees \<times> dependents" where
  "filter_graph filters =
     fold add_edge (filter_edges filters) (fold (\<lambda>f. or_insert0 (filter_id f)) filters [], Map.empty)"

definition plugin_edges :: "string set \<Rightarrow> plugin_metadata \<Rightarrow> (string \<times> string) list" where
  "plugin_edges available p =
     map (\<lambda>dep. (dep_id dep, plugin_id p)) (filter (\<lambda>dep. dep_id dep \<in> available) (plugin_dependencies p))"

definition plugin_graph :: "plugin_metadata list \<Rightarrow> degrees \<times> dependents" where
  "plugin_graph plugins =
     (let available = set (map plugin_id plugins)
      in fold (\<lambda>p (deg, deps). fold add_edge (plugin_edges available p) (or_insert0 (plugin_id p) deg, deps))
           plugins ([], Map.empty))"

section \<open>Kahn's algorithm\<close>

text \<open>The inner loop: one release of a node's dependents, pushing those that become free.\<close>

fun relax :: "(string \<Rightarrow> string list \<Rightarrow> string list) \<Rightarrow> string list \<Rightarrow> degrees \<Rightarrow> string list
    \<Rightarrow> (degrees \<times> string list) option" where
  "relax push [] deg work = Some (deg, work)"
| "relax push (dep # deps) deg work =
     (case map_of deg dep of
        None \<Rightarrow> relax push deps deg work
      | Some 0 \<Rightarrow> None
      | Some (Suc n) \<Rightarrow> relax push deps (AList.update dep n deg) (if n = 0 then push dep work else work))"

definition dependents_of :: "dependents \<Rightarrow> string \<Rightarrow> string list" where
  "dependents_of deps node = (case deps node of Some ds \<Rightarrow> ds | None \<Rightarrow> [])"

definition degree_sum :: "degrees \<Rightarrow> nat" where
  "degree_sum deg = sum_list (map snd deg)"

lemma degree_sum_update: "map_of deg k = Some (Suc n) \<Longrightarrow> Suc (degree_sum (AList.update k n deg)) = degree_sum deg"
  by (induction deg) (auto simp: degree_sum_def)

lemma relax_measure:
  assumes "\<And>x w. length (push x w) = Suc (length w)"
  shows "relax push deps deg work = Some (deg', work') \<Longrightarrow>
    degree_sum deg' + length work' \<le> degree_sum deg + length work"
proof (induction deps arbitrary: deg work)
  case (Cons dep deps)
  show ?case
  proof (cases "map_of deg dep")
    case None
    with Cons show ?thesis by simp
  next
    case (Some m)
    then obtain n where n: "m = Suc n" using Cons.prems by (cases m) auto
    have "degree_sum deg' + length work' \<le> degree_sum (AList.update dep n deg) + length (if n = 0 then push dep work else work)"
      using Cons.IH Cons.prems Some n by simp
    then show ?thesis using degree_sum_update [of deg dep n] Some n assms by (auto split: if_splits)
  qed
qed simp

text \<open>The heap of the filter ordering: entries by priority, then by insertion.\<close>

type_synonym entry_key = "filter_priority \<times> nat"

definition heap_push :: "(string \<Rightarrow> entry_key) \<Rightarrow> string \<Rightarrow> string list \<Rightarrow> string list" where
  "heap_push key x heap = insort_key key x heap"

definition queue_push :: "string \<Rightarrow> string list \<Rightarrow> string list" where
  "queue_push x queue = queue @ [x]"

lemma length_push [simp]: "length (heap_push key x w) = Suc (length w)" "length (queue_push x w) = Suc (length w)"
  by (simp_all add: heap_push_def queue_push_def)

function filter_loop ::
  "(string \<Rightarrow> entry_key) \<Rightarrow> dependents \<Rightarrow> degrees \<Rightarrow> string list \<Rightarrow> string list \<Rightarrow> (string list \<times> degrees) option" where
  "filter_loop key deps deg heap out =
     (case heap of
        [] \<Rightarrow> Some (out, deg)
      | node # heap \<Rightarrow>
          (case relax (heap_push key) (dependents_of deps node) deg heap of
             None \<Rightarrow> None
           | Some (deg, heap) \<Rightarrow> filter_loop key deps deg heap (out @ [node])))"
  by pat_completeness auto
termination
  by (relation "measure (\<lambda>(_, _, deg, heap, _). degree_sum deg + length heap)")
    (auto dest: relax_measure [rotated])

function plugin_loop ::
  "dependents \<Rightarrow> degrees \<Rightarrow> string list \<Rightarrow> string list \<Rightarrow> (string list \<times> degrees) option" where
  "plugin_loop deps deg queue out =
     (case queue of
        [] \<Rightarrow> Some (out, deg)
      | node # queue \<Rightarrow>
          (case relax queue_push (dependents_of deps node) deg queue of
             None \<Rightarrow> None
           | Some (deg, queue) \<Rightarrow> plugin_loop deps deg queue (out @ [node])))"
  by pat_completeness auto
termination
  by (relation "measure (\<lambda>(_, deg, queue, _). degree_sum deg + length queue)")
    (auto dest: relax_measure [rotated])

declare filter_loop.simps [simp del] plugin_loop.simps [simp del]

section \<open>The two entry points\<close>

definition join :: "string \<Rightarrow> string list \<Rightarrow> string" where
  "join sep xs = (case xs of [] \<Rightarrow> [] | y # ys \<Rightarrow> y @ concat (map (\<lambda>z. sep @ z) ys))"

definition remaining :: "(degrees \<Rightarrow> degrees) \<Rightarrow> degrees \<Rightarrow> string" where
  "remaining iter deg = join '', '' (map fst (filter (\<lambda>(_, d). d > 0) (iter deg)))"

definition priority_map :: "filter_metadata list \<Rightarrow> string \<Rightarrow> entry_key" where
  "priority_map filters i =
     (case map_of (rev (zip (map filter_id filters) (zip (map filter_prio filters) [0..<length filters]))) i of
        Some k \<Rightarrow> k | None \<Rightarrow> (First, 0))"

definition resolve_filter_order ::
  "(degrees \<Rightarrow> degrees) \<Rightarrow> filter_metadata list \<Rightarrow> (filter_order_error + string list) option" where
  "resolve_filter_order iter filters =
     (if filters = [] then Some (Ok [])
      else
        let (deg, deps) = filter_graph filters;
            key = priority_map filters;
            heap = fold (\<lambda>f h. if map_of deg (filter_id f) = Some 0 then heap_push key (filter_id f) h else h) filters []
        in case filter_loop key deps deg heap [] of
            None \<Rightarrow> None
          | Some (out, deg) \<Rightarrow>
              Some (if length out \<noteq> length filters then Err (CyclicDependency (remaining iter deg)) else Ok out))"

definition missing_dependency :: "plugin_metadata list \<Rightarrow> (string \<times> string) option" where
  "missing_dependency plugins =
     (let available = set (map plugin_id plugins)
      in case concat (map (\<lambda>p. map (\<lambda>d. (plugin_id p, dep_id d))
           (filter (\<lambda>d. \<not> dep_optional d \<and> dep_id d \<notin> available) (plugin_dependencies p))) plugins) of
           [] \<Rightarrow> None | m # _ \<Rightarrow> Some m)"

definition resolve_load_order ::
  "(degrees \<Rightarrow> degrees) \<Rightarrow> plugin_metadata list \<Rightarrow> (plugin_error + string list) option" where
  "resolve_load_order iter plugins =
     (case missing_dependency plugins of
        Some (p, d) \<Rightarrow> Some (Err (InitFailed
          (''Plugin '' @ [CHR 0x27] @ p @ [CHR 0x27] @ '' requires '' @ [CHR 0x27] @ d @ [CHR 0x27] @ '' which is not loaded'')))
      | None \<Rightarrow>
          let (deg, deps) = plugin_graph plugins;
              queue = map fst (filter (\<lambda>(_, d). d = 0) (iter deg))
          in case plugin_loop deps deg queue [] of
              None \<Rightarrow> None
            | Some (out, deg) \<Rightarrow>
                Some (if length out \<noteq> length plugins
                      then Err (InitFailed (''Circular dependency detected involving: '' @ remaining iter deg))
                      else Ok out))"

section \<open>What the algorithm computes\<close>

type_synonym edges = "(string \<times> string) list"

definition targets :: "edges \<Rightarrow> string \<Rightarrow> string list" where
  "targets E u = map snd (filter (\<lambda>e. fst e = u) E)"

text \<open>The edges into a node from nodes outside a set.\<close>

definition pending :: "edges \<Rightarrow> string set \<Rightarrow> string \<Rightarrow> nat" where
  "pending E S v = length (filter (\<lambda>e. snd e = v \<and> fst e \<notin> S) E)"

text \<open>An order respects the edges: every node comes after the nodes it waits for.\<close>

definition ordered_by :: "edges \<Rightarrow> string list \<Rightarrow> bool" where
  "ordered_by E out \<longleftrightarrow> (\<forall>i < length out. \<forall>u. (u, out ! i) \<in> set E \<longrightarrow> u \<in> set (take i out))"

lemma pending_insert: "x \<notin> S \<Longrightarrow> pending E (insert x S) v + count_list (targets E x) v = pending E S v"
  by (induction E) (auto simp: pending_def targets_def)

lemma pending_0: "pending E S v = 0 \<longleftrightarrow> (\<forall>u. (u, v) \<in> set E \<longrightarrow> u \<in> S)"
  by (auto simp: pending_def filter_empty_conv)

lemma count_list_pos: "0 < count_list xs x \<Longrightarrow> x \<in> set xs"
  by (metis count_notin less_irrefl)

lemma relax_spec:
  assumes push: "\<And>x w. mset (push x w) = add_mset x (mset w)"
  shows "(\<forall>v. v \<in> set ds \<longrightarrow> (\<exists>n. map_of deg v = Some n \<and> count_list ds v \<le> n)) \<Longrightarrow>
    \<exists>deg' w'. relax push ds deg w = Some (deg', w')
      \<and> map_of deg' = (\<lambda>v. map_option (\<lambda>n. n - count_list ds v) (map_of deg v))
      \<and> mset w' = mset w + mset_set {v \<in> set ds. map_of deg v = Some (count_list ds v)}"
proof (induction ds arbitrary: deg w)
  case (Cons d ds)
  obtain n where n: "map_of deg d = Some (Suc n)" "count_list ds d \<le> n"
    using Cons.prems by (metis Suc_le_D Suc_le_mono count_list.simps(2) list.set_intros(1) add.commute plus_1_eq_Suc)
  let ?deg = "AList.update d n deg" and ?w = "if n = 0 then push d w else w"
  have "\<forall>v. v \<in> set ds \<longrightarrow> (\<exists>n. map_of ?deg v = Some n \<and> count_list ds v \<le> n)"
    using Cons.prems n(2) by (auto simp: update_conv)
  from Cons.IH [OF this, of ?w] obtain deg' w' where r: "relax push ds ?deg ?w = Some (deg', w')"
    "map_of deg' = (\<lambda>v. map_option (\<lambda>n. n - count_list ds v) (map_of ?deg v))"
    "mset w' = mset ?w + mset_set {v \<in> set ds. map_of ?deg v = Some (count_list ds v)}" by blast
  have "{v \<in> set (d # ds). map_of deg v = Some (count_list (d # ds) v)} =
      (if n = 0 then insert d else id) {v \<in> set ds. map_of ?deg v = Some (count_list ds v)}"
    using n by (auto simp: update_conv count_list_0_iff intro: count_list_pos)
  moreover have "n = 0 \<Longrightarrow> d \<notin> set ds" using n(2) by (simp add: count_list_0_iff)
  ultimately have "mset w' = mset w + mset_set {v \<in> set (d # ds). map_of deg v = Some (count_list (d # ds) v)}"
    using r(3) push by (auto split: if_splits)
  moreover have "map_of deg' = (\<lambda>v. map_option (\<lambda>n. n - count_list (d # ds) v) (map_of deg v))"
    using r(2) n(1) by (auto simp: update_conv)
  ultimately show ?case using r(1) n(1) by simp
qed (simp add: option.map_ident)


lemma ordered_by_acyclic:
  assumes "ordered_by E out" "set E \<subseteq> set out \<times> set out" "distinct out"
  shows "acyclic (set E)"
proof -
  define pos where "pos v = length (takeWhile (\<lambda>x. x \<noteq> v) out)" for v
  have pos: "out ! pos v = v" "pos v < length out" if "v \<in> set out" for v
  proof -
    show l: "pos v < length out" using that unfolding pos_def by (induction out) auto
    show "out ! pos v = v" using nth_length_takeWhile [of "\<lambda>x. x \<noteq> v" out] l by (simp add: pos_def)
  qed
  have before: "pos v < i" if "v \<in> set (take i out)" for v i
    using that unfolding pos_def by (induction out arbitrary: i) (auto simp: take_Cons' split: if_splits, fastforce)
  have "pos u < pos v" if "(u, v) \<in> set E" for u v
  proof -
    have "v \<in> set out" using assms(2) that by auto
    then have "u \<in> set (take (pos v) out)" using assms(1) that pos [of v] by (auto simp: ordered_by_def)
    then show ?thesis by (rule before)
  qed
  then have "acyclic ((set E)\<inverse>)" by (intro acyclicI_order [of _ pos]) auto
  then show ?thesis by (simp only: acyclic_converse)
qed

locale kahn =
  fixes push :: "string \<Rightarrow> string list \<Rightarrow> string list"
    and loop :: "dependents \<Rightarrow> degrees \<Rightarrow> string list \<Rightarrow> string list \<Rightarrow> (string list \<times> degrees) option"
  assumes push_mset: "mset (push x w) = add_mset x (mset w)"
    and loop_done: "loop deps deg [] out = Some (out, deg)"
    and loop_step: "loop deps deg (x # w) out =
      (case relax push (dependents_of deps x) deg w of None \<Rightarrow> None | Some (deg', w') \<Rightarrow> loop deps deg' w' (out @ [x]))"
begin

text \<open>The invariant: degrees count the pending edges, the free nodes are those taken or in the work list.\<close>

definition inv :: "string set \<Rightarrow> edges \<Rightarrow> degrees \<Rightarrow> string list \<Rightarrow> string list \<Rightarrow> bool" where
  "inv V E deg w out \<longleftrightarrow> distinct (w @ out) \<and> set (w @ out) \<subseteq> V \<and> ordered_by E out
     \<and> (\<forall>v. map_of deg v = (if v \<in> V then Some (pending E (set out) v) else None))
     \<and> (\<forall>v \<in> V. v \<in> set (w @ out) \<longleftrightarrow> pending E (set out) v = 0)"

lemma inv_step:
  assumes "inv V E deg (x # w) out" "set E \<subseteq> V \<times> V" "dependents_of deps x = targets E x"
  shows "\<exists>deg' w'. relax push (dependents_of deps x) deg w = Some (deg', w') \<and> inv V E deg' w' (out @ [x])
    \<and> set w \<subseteq> set w'"
proof -
  have x: "x \<notin> set out" "x \<notin> set w" "x \<in> V" and d: "distinct (w @ out)" "set (w @ out) \<subseteq> V"
    and deg: "\<And>v. map_of deg v = (if v \<in> V then Some (pending E (set out) v) else None)"
    and ready: "\<And>v. v \<in> V \<Longrightarrow> v \<in> set (x # w @ out) \<longleftrightarrow> pending E (set out) v = 0"
    using assms(1) by (auto simp: inv_def)
  have pend: "pending E (set (out @ [x])) v + count_list (targets E x) v = pending E (set out) v" for v
    using pending_insert [OF x(1), of E v] by simp
  have "\<forall>v. v \<in> set (targets E x) \<longrightarrow> (\<exists>n. map_of deg v = Some n \<and> count_list (targets E x) v \<le> n)"
  proof (intro allI impI)
    fix v
    assume "v \<in> set (targets E x)"
    then have "v \<in> V" using assms(2) by (auto simp: targets_def)
    then show "\<exists>n. map_of deg v = Some n \<and> count_list (targets E x) v \<le> n" using deg [of v] pend [of v] by simp
  qed
  from relax_spec [where push = push, OF push_mset this, of w] obtain deg' w' where
    r: "relax push (targets E x) deg w = Some (deg', w')"
      "map_of deg' = (\<lambda>v. map_option (\<lambda>n. n - count_list (targets E x) v) (map_of deg v))"
      "mset w' = mset w + mset_set {v \<in> set (targets E x). map_of deg v = Some (count_list (targets E x) v)}" by blast
  let ?N = "{v \<in> set (targets E x). map_of deg v = Some (count_list (targets E x) v)}"
  have N: "v \<in> ?N \<longleftrightarrow> v \<in> V \<and> pending E (set out) v \<noteq> 0 \<and> pending E (set (out @ [x])) v = 0" for v
  proof -
    have "v \<in> set (targets E x) \<longleftrightarrow> count_list (targets E x) v \<noteq> 0" by (simp add: count_list_0_iff)
    then show ?thesis using deg [of v] pend [of v] by auto
  qed
  have set_w': "set w' = set w \<union> ?N" using arg_cong [OF r(3), of set_mset] by simp
  have disj: "v \<in> V \<and> v \<notin> set (x # w @ out)" if "v \<in> ?N" for v
    using that ready [of v] unfolding N by simp
  have "distinct w'"
  proof -
    have "count (mset w') v = (if v \<in> set w' then 1 else 0)" for v
    proof -
      have "distinct w" using d(1) by simp
      then have "count (mset w) v = (if v \<in> set w then 1 else 0)" by (simp add: distinct_count_atmost_1)
      then show ?thesis using arg_cong [OF r(3), of "\<lambda>M. count M v"] set_w' disj [of v] by (auto simp: count_mset_set')
    qed
    then show ?thesis by (simp add: distinct_count_atmost_1)
  qed
  moreover have "ordered_by E (out @ [x])"
  proof -
    have "\<forall>u. (u, x) \<in> set E \<longrightarrow> u \<in> set out" using ready [OF x(3)] by (simp add: pending_0)
    moreover have "ordered_by E out" using assms(1) by (simp add: inv_def)
    ultimately show ?thesis by (auto simp: ordered_by_def nth_append less_Suc_eq)
  qed
  moreover have "map_of deg' v = (if v \<in> V then Some (pending E (set (out @ [x])) v) else None)" for v
    using r(2) deg [of v] pend [of v] by auto
  moreover have "v \<in> set (w' @ out @ [x]) \<longleftrightarrow> pending E (set (out @ [x])) v = 0" if "v \<in> V" for v
    using ready [OF that] pend [of v] N [of v] set_w' that by auto
  moreover have "set w' \<inter> set (out @ [x]) = {}" "set w' \<subseteq> V"
    using set_w' disj d x by auto
  ultimately have "inv V E deg' w' (out @ [x])"
    using d x by (simp add: inv_def) 
  then show ?thesis using r(1) set_w' assms(3) by auto
qed

lemma loop_inv:
  assumes "inv V E deg w out" "finite V" "set E \<subseteq> V \<times> V" "\<And>u. dependents_of deps u = targets E u"
  shows "\<exists>out' deg'. loop deps deg w out = Some (out', deg') \<and> inv V E deg' [] out'"
  using assms(1)
proof (induction "card (V - set out)" arbitrary: deg w out rule: less_induct)
  case less
  show ?case
  proof (cases w)
    case Nil
    then show ?thesis using less.prems loop_done by auto
  next
    case (Cons x w0)
    obtain deg' w' where r: "relax push (dependents_of deps x) deg w0 = Some (deg', w')" "inv V E deg' w' (out @ [x])"
      using inv_step [OF _ assms(3) assms(4)] less.prems Cons by blast
    have "x \<in> V - set out" using less.prems Cons by (auto simp: inv_def)
    then have "card (V - set (out @ [x])) < card (V - set out)"
      using assms(2) by (intro psubset_card_mono) auto
    from less.hyps [OF this r(2)] show ?thesis using r(1) Cons loop_step by simp
  qed
qed

text \<open>
  The loop returns; its output respects the edges, and it takes every node exactly when the
  edges have no cycle.
\<close>

lemma result:
  assumes "finite V" "set E \<subseteq> V \<times> V" "\<And>u. dependents_of deps u = targets E u"
    and "\<And>v. map_of deg v = (if v \<in> V then Some (pending E {} v) else None)"
    and "distinct w" "set w = {v \<in> V. pending E {} v = 0}"
  shows "\<exists>out deg'. loop deps deg w [] = Some (out, deg') \<and> distinct out \<and> set out \<subseteq> V \<and> ordered_by E out
    \<and> (set out = V \<longleftrightarrow> acyclic (set E))"
proof -
  have "inv V E deg w []" using assms(4-6) by (auto simp: inv_def ordered_by_def)
  from loop_inv [OF this assms(1-3)] obtain out deg' where o: "loop deps deg w [] = Some (out, deg')" "inv V E deg' [] out" by blast
  then have d: "distinct out" "set out \<subseteq> V" "ordered_by E out" by (auto simp: inv_def)
  have "set out = V" if "acyclic (set E)"
  proof (rule ccontr)
    assume "set out \<noteq> V"
    then obtain v where "v \<in> V - set out" using d(2) by auto
    moreover have "wf (set E)" using that by (simp add: finite_acyclic_wf)
    ultimately obtain z where z: "z \<in> V - set out" "\<And>y. (y, z) \<in> set E \<Longrightarrow> y \<notin> V - set out"
      by (metis wfE_min)
    have "pending E (set out) z = 0" using z(2) assms(2) by (auto simp: pending_0)
    with z(1) o(2) show False by (auto simp: inv_def)
  qed
  moreover have "acyclic (set E)" if "set out = V" using ordered_by_acyclic [OF d(3)] assms(2) d(1) that by simp
  ultimately show ?thesis using o(1) d by blast
qed

end

text \<open>With a work list kept in order of a key, the output is the greedy one.\<close>

definition greedy :: "(string \<Rightarrow> 'k::linorder) \<Rightarrow> string set \<Rightarrow> edges \<Rightarrow> string list \<Rightarrow> bool" where
  "greedy key V E out \<longleftrightarrow> (\<forall>i < length out. \<forall>v \<in> V - set (take i out).
     (\<forall>u. (u, v) \<in> set E \<longrightarrow> u \<in> set (take i out)) \<longrightarrow> key (out ! i) \<le> key v)"

locale kahn_priority = kahn +
  fixes key :: "string \<Rightarrow> 'k::linorder"
  assumes push_sorted: "sorted (map key w) \<Longrightarrow> sorted (map key (push x w))"
begin

lemma relax_sorted: "relax push ds deg w = Some (deg', w') \<Longrightarrow> sorted (map key w) \<Longrightarrow> sorted (map key w')"
  by (induction ds arbitrary: deg w) (auto split: option.splits nat.splits if_splits intro: push_sorted)

lemma loop_greedy:
  assumes "inv V E deg w out" "finite V" "set E \<subseteq> V \<times> V" "\<And>u. dependents_of deps u = targets E u"
    and "sorted (map key w)" "greedy key V E out" "loop deps deg w out = Some (out', deg')"
  shows "greedy key V E out'"
  using assms(1,5-7)
proof (induction "card (V - set out)" arbitrary: deg w out rule: less_induct)
  case less
  show ?case
  proof (cases w)
    case Nil
    then show ?thesis using less.prems loop_done by auto
  next
    case (Cons x w0)
    obtain deg1 w1 where r: "relax push (dependents_of deps x) deg w0 = Some (deg1, w1)" "inv V E deg1 w1 (out @ [x])"
      using inv_step [OF _ assms(3) assms(4)] less.prems(1) Cons by blast
    have "x \<in> V - set out" using less.prems(1) Cons by (auto simp: inv_def)
    then have c: "card (V - set (out @ [x])) < card (V - set out)" using assms(2) by (intro psubset_card_mono) auto
    have "key x \<le> key v" if "v \<in> V - set out" "\<forall>u. (u, v) \<in> set E \<longrightarrow> u \<in> set out" for v
    proof -
      have "v \<in> set w" using that less.prems(1) by (auto simp: inv_def pending_0)
      then show ?thesis using less.prems(2) Cons by auto
    qed
    then have g: "greedy key V E (out @ [x])"
      using less.prems(3) by (auto simp: greedy_def nth_append less_Suc_eq)
    have s: "sorted (map key w1)" using relax_sorted [OF r(1)] less.prems(2) Cons by simp
    have "loop deps deg1 w1 (out @ [x]) = Some (out', deg')" using less.prems(4) r(1) Cons loop_step by simp
    from less.hyps [OF c r(2) s g this] show ?thesis .
  qed
qed

end

interpretation plugin_kahn: kahn queue_push plugin_loop
  by unfold_locales (simp_all add: queue_push_def plugin_loop.simps)

interpretation filter_kahn: kahn_priority "heap_push key" "filter_loop key" key for key :: "string \<Rightarrow> entry_key"
  by unfold_locales (simp_all add: heap_push_def filter_loop.simps sorted_insort_key)

section \<open>The graphs are the constraints\<close>

lemma or_insert0_map: "map_of (or_insert0 k m) v = (if v = k \<and> map_of m k = None then Some 0 else map_of m v)"
  by (auto simp: or_insert0_def map_add_def split: option.splits)

lemma or_insert0_distinct: "distinct (map fst m) \<Longrightarrow> distinct (map fst (or_insert0 k m))"
  by (auto simp: or_insert0_def map_of_eq_None_iff split: option.splits)

lemma add_edges_degrees:
  "(\<forall>(u, v) \<in> set E. v \<in> dom (map_of deg)) \<Longrightarrow>
     map_of (fst (fold add_edge E (deg, deps))) v = map_option (\<lambda>n. n + pending E {} v) (map_of deg v)"
proof (induction E arbitrary: deg deps)
  case (Cons e E)
  obtain u w where e: "e = (u, w)" by (cases e)
  obtain n where n: "map_of deg w = Some n" using Cons.prems e by auto
  have "map_of (fst (fold add_edge E (bump w deg, push_dependent u w deps))) v =
      map_option (\<lambda>n. n + pending E {} v) (map_of (bump w deg) v)"
    using Cons.prems by (intro Cons.IH) (auto simp: bump_def update_conv)
  then show ?case using n by (cases "map_of deg v") (auto simp: e add_edge_def bump_def update_conv pending_def)
qed (simp add: pending_def option.map_ident)

lemma add_edges_dependents:
  "dependents_of (snd (fold add_edge E (deg, deps))) u = dependents_of deps u @ targets E u"
proof (induction E arbitrary: deg deps)
  case (Cons e E)
  obtain x w where e: "e = (x, w)" by (cases e)
  have "dependents_of (push_dependent x w deps) u = dependents_of deps u @ (if x = u then [w] else [])"
    by (auto simp: dependents_of_def push_dependent_def split: option.splits)
  then show ?case using Cons.IH by (simp add: e add_edge_def targets_def)
qed (simp add: targets_def)

lemma add_edges_distinct: "distinct (map fst deg) \<Longrightarrow> distinct (map fst (fst (fold add_edge E (deg, deps))))"
  by (induction E arbitrary: deg deps) (auto simp: add_edge_def bump_def distinct_update)

lemma filter_edges_ids: "set (filter_edges fs) \<subseteq> filter_id ` set fs \<times> filter_id ` set fs"
  by (auto simp: filter_edges_def Let_def)

lemma filter_graph_spec:
  assumes "filter_graph fs = (deg, deps)"
  shows "map_of deg v = (if v \<in> filter_id ` set fs then Some (pending (filter_edges fs) {} v) else None)"
    "dependents_of deps u = targets (filter_edges fs) u"
proof -
  let ?deg0 = "fold (\<lambda>f. or_insert0 (filter_id f)) fs []"
  have "map_of (fold (\<lambda>f. or_insert0 (filter_id f)) fs m) v = (if v \<in> filter_id ` set fs \<and> map_of m v = None then Some 0 else map_of m v)" for m v
    by (induction fs arbitrary: m) (auto simp: or_insert0_map)
  then have d0: "map_of ?deg0 v = (if v \<in> filter_id ` set fs then Some 0 else None)" for v by simp
  then have "\<forall>(u, v) \<in> set (filter_edges fs). v \<in> dom (map_of ?deg0)" using filter_edges_ids [of fs] by (force simp: dom_def)
  note into = this
  have d: "deg = fst (fold add_edge (filter_edges fs) (?deg0, Map.empty))" "deps = snd (fold add_edge (filter_edges fs) (?deg0, Map.empty))"
    using assms by (simp_all add: filter_graph_def)
  show "map_of deg v = (if v \<in> filter_id ` set fs then Some (pending (filter_edges fs) {} v) else None)"
    unfolding d(1) add_edges_degrees [OF into] d0 by simp
  show "dependents_of deps u = targets (filter_edges fs) u"
    unfolding d(2) add_edges_dependents by (simp add: dependents_of_def)
qed

definition load_edges :: "plugin_metadata list \<Rightarrow> edges" where
  "load_edges ps = concat (map (plugin_edges (set (map plugin_id ps))) ps)"

lemma plugin_graph_spec:
  assumes "plugin_graph ps = (deg, deps)"
  shows "map_of deg v = (if v \<in> plugin_id ` set ps then Some (pending (load_edges ps) {} v) else None)"
    "dependents_of deps u = targets (load_edges ps) u" "distinct (map fst deg)"
proof -
  define A where "A = set (map plugin_id ps)"
  let ?step = "\<lambda>p (deg, deps). fold add_edge (plugin_edges A p) (or_insert0 (plugin_id p) deg, deps)"
  have "\<exists>deg deps. fold ?step qs ([], Map.empty) = (deg, deps)
      \<and> (\<forall>v. map_of deg v = (if v \<in> plugin_id ` set qs then Some (pending (concat (map (plugin_edges A) qs)) {} v) else None))
      \<and> (\<forall>u. dependents_of deps u = targets (concat (map (plugin_edges A) qs)) u) \<and> distinct (map fst deg)" for qs
  proof (induction qs rule: rev_induct)
    case Nil
    then show ?case by (simp add: dependents_of_def targets_def)
  next
    case (snoc p qs)
    then obtain deg deps where q: "fold ?step qs ([], Map.empty) = (deg, deps)"
      "\<And>v. map_of deg v = (if v \<in> plugin_id ` set qs then Some (pending (concat (map (plugin_edges A) qs)) {} v) else None)"
      "\<And>u. dependents_of deps u = targets (concat (map (plugin_edges A) qs)) u" "distinct (map fst deg)" by blast
    obtain deg' deps' where r: "fold add_edge (plugin_edges A p) (or_insert0 (plugin_id p) deg, deps) = (deg', deps')" by fastforce
    have into: "\<forall>(u, v) \<in> set (plugin_edges A p). v \<in> dom (map_of (or_insert0 (plugin_id p) deg))"
      by (auto simp: plugin_edges_def or_insert0_map dom_def)
    have zero: "pending (concat (map (plugin_edges A) qs)) {} v = 0" if "v \<notin> plugin_id ` set qs" for v
      using that by (auto simp: pending_0 plugin_edges_def)
    have "map_of deg' v = (if v \<in> plugin_id ` set (qs @ [p]) then Some (pending (concat (map (plugin_edges A) (qs @ [p]))) {} v) else None)" for v
      using add_edges_degrees [OF into, of deps v] r q(2) zero [of v] by (auto simp: or_insert0_map pending_def plugin_edges_def)
    moreover have "dependents_of deps' u = targets (concat (map (plugin_edges A) (qs @ [p]))) u" for u
      using add_edges_dependents [of "plugin_edges A p" "or_insert0 (plugin_id p) deg" deps u] r q(3) by (simp add: targets_def)
    moreover have "distinct (map fst deg')"
      using add_edges_distinct [OF or_insert0_distinct [OF q(4)], of "plugin_edges A p" "plugin_id p" deps] r by simp
    ultimately show ?case using q(1) r by simp
  qed
  from this [of ps] show "map_of deg v = (if v \<in> plugin_id ` set ps then Some (pending (load_edges ps) {} v) else None)"
    "dependents_of deps u = targets (load_edges ps) u" "distinct (map fst deg)"
    using assms unfolding plugin_graph_def load_edges_def Let_def A_def by auto
qed

section \<open>Properties of the orders\<close>

lemma acyclic_empty: "acyclic {}"
  by (simp add: acyclic_def)

lemma seed_heap:
  "distinct (map filter_id fs) \<Longrightarrow> sorted (map key h) \<Longrightarrow> distinct h \<Longrightarrow> set h \<inter> filter_id ` set fs = {} \<Longrightarrow>
     (let h' = fold (\<lambda>f h. if P (filter_id f) then heap_push key (filter_id f) h else h) fs h
      in sorted (map key h') \<and> distinct h' \<and> set h' = set h \<union> {i \<in> filter_id ` set fs. P i})"
proof (induction fs arbitrary: h)
  case (Cons f fs)
  let ?h = "if P (filter_id f) then heap_push key (filter_id f) h else h"
  have h: "sorted (map key ?h)" "distinct ?h" "set ?h = set h \<union> {i \<in> {filter_id f}. P i}"
    using Cons.prems by (auto simp: heap_push_def sorted_insort_key distinct_insort set_insort_key)
  moreover have "filter_id f \<notin> filter_id ` set fs" "set h \<inter> filter_id ` set fs = {}" using Cons.prems by auto
  then have "set ?h \<inter> filter_id ` set fs = {}" unfolding h(3) by blast
  ultimately show ?case using Cons.IH [of ?h] Cons.prems(1) by (auto simp: Let_def)
qed simp

lemma filter_order_resolved:
  assumes "distinct (map filter_id fs)"
  shows "if acyclic (set (filter_edges fs))
    then \<exists>out. resolve_filter_order iter fs = Some (Ok out) \<and> distinct out \<and> set out = filter_id ` set fs
      \<and> ordered_by (filter_edges fs) out \<and> greedy (priority_map fs) (filter_id ` set fs) (filter_edges fs) out
    else \<exists>m. resolve_filter_order iter fs = Some (Err (CyclicDependency m))"
proof (cases "fs = []")
  case True
  then show ?thesis by (simp add: resolve_filter_order_def filter_edges_def ordered_by_def greedy_def acyclic_def)
next
  case False
  obtain deg deps where g: "filter_graph fs = (deg, deps)" by fastforce
  let ?V = "filter_id ` set fs" and ?E = "filter_edges fs" and ?key = "priority_map fs"
  note spec = filter_graph_spec [OF g]
  define h where "h = fold (\<lambda>f h. if map_of deg (filter_id f) = Some 0 then heap_push ?key (filter_id f) h else h) fs []"
  have h: "sorted (map ?key h)" "distinct h" "set h = {v \<in> ?V. pending ?E {} v = 0}"
    using seed_heap [OF assms, of ?key "[]" "\<lambda>i. map_of deg i = Some 0"] spec(1) by (auto simp: h_def Let_def)
  obtain out deg' where o: "filter_loop ?key deps deg h [] = Some (out, deg')" "distinct out" "set out \<subseteq> ?V"
    "ordered_by ?E out" "set out = ?V \<longleftrightarrow> acyclic (set ?E)"
    using filter_kahn.result [where key = ?key, OF _ filter_edges_ids spec(2,1) h(2,3)] by auto
  have inv: "filter_kahn.inv ?V ?E deg h []"
    using spec(1) h(2,3) by (auto simp: filter_kahn.inv_def ordered_by_def)
  have gr: "greedy ?key ?V ?E out"
    by (rule filter_kahn.loop_greedy [OF inv _ filter_edges_ids spec(2) h(1) _ o(1)]) (simp_all add: greedy_def)
  have "card ?V = length fs" using assms by (metis distinct_card length_map set_map)
  then have "length out = length fs \<longleftrightarrow> set out = ?V"
    using o(2,3) by (metis card_subset_eq distinct_card finite_imageI finite_set)
  moreover have "resolve_filter_order iter fs =
      Some (if length out \<noteq> length fs then Err (CyclicDependency (remaining iter deg')) else Ok out)"
    using False g o(1) by (simp add: resolve_filter_order_def h_def Let_def)
  ultimately show ?thesis using o gr by auto
qed

text \<open>C7. The order of packet filters: the resolution always returns; it fails exactly on circular
  constraints; otherwise its result lists every filter once, after the filters it must follow and before those it
  must precede, and among the filters that could come next always takes the one of the lowest priority value,
  the earliest registered of equals.\<close>

theorem filter_order_correct:
  assumes "distinct (map filter_id fs)"
  shows "if acyclic (set (filter_edges fs))
    then \<exists>out. resolve_filter_order iter fs = Some (Ok out) \<and> distinct out \<and> set out = filter_id ` set fs
      \<and> ordered_by (filter_edges fs) out \<and> greedy (priority_map fs) (filter_id ` set fs) (filter_edges fs) out
    else \<exists>m. resolve_filter_order iter fs = Some (Err (CyclicDependency m))"
  using assms by (rule filter_order_resolved)

theorem filter_order_correct_witness:
  "\<exists>out. resolve_filter_order id
      [\<lparr>filter_id = ''a'', filter_prio = First, after = [''b''], before = []\<rparr>,
       \<lparr>filter_id = ''b'', filter_prio = Last, after = [''gone''], before = []\<rparr>] = Some (Ok out)"
  using filter_order_correct [of "[\<lparr>filter_id = ''a'', filter_prio = First, after = [''b''], before = []\<rparr>,
       \<lparr>filter_id = ''b'', filter_prio = Last, after = [''gone''], before = []\<rparr>]" id]
  by (auto simp: filter_edges_def acyclic_insert acyclic_empty split: if_splits)

lemma load_order_resolved:
  assumes "distinct (map plugin_id ps)" "\<forall>d. mset (iter d) = mset d"
  shows "if missing_dependency ps \<noteq> None then \<exists>m. resolve_load_order iter ps = Some (Err (InitFailed m))
    else if acyclic (set (load_edges ps))
    then \<exists>out. resolve_load_order iter ps = Some (Ok out) \<and> distinct out \<and> set out = plugin_id ` set ps
      \<and> ordered_by (load_edges ps) out
    else \<exists>m. resolve_load_order iter ps = Some (Err (InitFailed m))"
proof (cases "missing_dependency ps")
  case (Some m)
  then show ?thesis by (cases m) (simp add: resolve_load_order_def)
next
  case None
  obtain deg deps where g: "plugin_graph ps = (deg, deps)" by fastforce
  let ?V = "plugin_id ` set ps" and ?E = "load_edges ps"
  note spec = plugin_graph_spec [OF g]
  have E: "set ?E \<subseteq> ?V \<times> ?V" by (auto simp: load_edges_def plugin_edges_def)
  define w where "w = map fst (filter (\<lambda>(_, d). d = 0) (iter deg))"
  have "mset (iter deg) = mset deg" using assms(2) by simp
  then have i: "set (iter deg) = set deg" "distinct (map fst (iter deg))"
    using spec(3) by (metis set_mset_mset, metis mset_eq_imp_distinct_iff mset_map)
  have "distinct w" unfolding w_def using i(2) by (rule distinct_map_filter)
  moreover have "v \<in> set w \<longleftrightarrow> map_of deg v = Some 0" for v
    unfolding w_def using i(1) spec(3) by force
  then have "set w = {v \<in> ?V. pending ?E {} v = 0}" using spec(1) by (auto split: if_splits)
  ultimately have w: "distinct w" "set w = {v \<in> ?V. pending ?E {} v = 0}" by simp_all
  obtain out deg' where o: "plugin_loop deps deg w [] = Some (out, deg')" "distinct out" "set out \<subseteq> ?V"
    "ordered_by ?E out" "set out = ?V \<longleftrightarrow> acyclic (set ?E)"
    using plugin_kahn.result [OF _ E spec(2,1) w] by auto
  have "card ?V = length ps" using assms(1) by (metis distinct_card length_map set_map)
  then have "length out = length ps \<longleftrightarrow> set out = ?V"
    using o(2,3) by (metis card_subset_eq distinct_card finite_imageI finite_set)
  moreover have "resolve_load_order iter ps =
      Some (if length out \<noteq> length ps
            then Err (InitFailed (''Circular dependency detected involving: '' @ remaining iter deg')) else Ok out)"
    using None g o(1) by (simp add: resolve_load_order_def w_def Let_def)
  ultimately show ?thesis using o None by auto
qed

text \<open>C6. The load order of plugins: the resolution always returns; a missing required dependency is
  reported; otherwise it fails exactly on circular dependencies, and its result lists every plugin once, after
  all its dependencies that are present.\<close>

theorem load_order_correct:
  assumes "distinct (map plugin_id ps)" "\<forall>d. mset (iter d) = mset d"
  shows "if missing_dependency ps \<noteq> None then \<exists>m. resolve_load_order iter ps = Some (Err (InitFailed m))
    else if acyclic (set (load_edges ps))
    then \<exists>out. resolve_load_order iter ps = Some (Ok out) \<and> distinct out \<and> set out = plugin_id ` set ps
      \<and> ordered_by (load_edges ps) out
    else \<exists>m. resolve_load_order iter ps = Some (Err (InitFailed m))"
  using assms by (rule load_order_resolved)

theorem load_order_correct_witness:
  "\<exists>out. resolve_load_order rev
      [\<lparr>plugin_id = ''a'', plugin_name = [], plugin_version = [], plugin_authors = [], plugin_description = None,
         plugin_dependencies = [\<lparr>dep_id = ''b'', dep_optional = False\<rparr>]\<rparr>,
       \<lparr>plugin_id = ''b'', plugin_name = [], plugin_version = [], plugin_authors = [], plugin_description = None,
         plugin_dependencies = [\<lparr>dep_id = ''c'', dep_optional = True\<rparr>]\<rparr>] = Some (Ok out)"
  using load_order_correct [of "[\<lparr>plugin_id = ''a'', plugin_name = [], plugin_version = [], plugin_authors = [], plugin_description = None,
         plugin_dependencies = [\<lparr>dep_id = ''b'', dep_optional = False\<rparr>]\<rparr>,
       \<lparr>plugin_id = ''b'', plugin_name = [], plugin_version = [], plugin_authors = [], plugin_description = None,
         plugin_dependencies = [\<lparr>dep_id = ''c'', dep_optional = True\<rparr>]\<rparr>]" rev]
  by (auto simp: load_edges_def plugin_edges_def missing_dependency_def acyclic_insert acyclic_empty split: if_splits)

section \<open>The filter registry\<close>

text \<open>\<open>registry_base.rs\<close>; an item is known by its metadata.\<close>

record filter_registry =
  reg_items :: "filter_metadata list"
  ordered_ids :: "string list"

definition filter_registry_new :: filter_registry where
  "filter_registry_new = \<lparr>reg_items = [], ordered_ids = []\<rparr>"

definition recalculate_order :: "(degrees \<Rightarrow> degrees) \<Rightarrow> filter_registry \<Rightarrow> filter_registry" where
  "recalculate_order iter r =
     (case resolve_filter_order iter (reg_items r) of
        Some (Inr order) \<Rightarrow> r\<lparr>ordered_ids := order\<rparr>
      | _ \<Rightarrow> r)"

definition register_filter :: "(degrees \<Rightarrow> degrees) \<Rightarrow> filter_metadata \<Rightarrow> filter_registry \<Rightarrow> filter_registry" where
  "register_filter iter item r =
     recalculate_order iter (r\<lparr>reg_items := filter (\<lambda>f. filter_id f \<noteq> filter_id item) (reg_items r) @ [item]\<rparr>)"

definition unregister_filter :: "(degrees \<Rightarrow> degrees) \<Rightarrow> string \<Rightarrow> filter_registry \<Rightarrow> filter_registry" where
  "unregister_filter iter fid r =
     recalculate_order iter (r\<lparr>reg_items := filter (\<lambda>f. filter_id f \<noteq> fid) (reg_items r)\<rparr>)"

inductive filter_registry_reach :: "(degrees \<Rightarrow> degrees) \<Rightarrow> filter_registry \<Rightarrow> bool" for iter where
  new: "filter_registry_reach iter filter_registry_new"
| register: "filter_registry_reach iter r \<Longrightarrow> filter_registry_reach iter (register_filter iter item r)"
| unregister: "filter_registry_reach iter r \<Longrightarrow> filter_registry_reach iter (unregister_filter iter fid r)"

lemma recalculate_order_items [simp]: "reg_items (recalculate_order iter r) = reg_items r"
  by (simp add: recalculate_order_def split: option.splits sum.splits)

definition order_current :: "filter_registry \<Rightarrow> bool" where
  "order_current r \<longleftrightarrow> distinct (map filter_id (reg_items r)) \<and>
     (acyclic (set (filter_edges (reg_items r))) \<longrightarrow>
        distinct (ordered_ids r) \<and> set (ordered_ids r) = filter_id ` set (reg_items r)
        \<and> ordered_by (filter_edges (reg_items r)) (ordered_ids r)
        \<and> greedy (priority_map (reg_items r)) (filter_id ` set (reg_items r)) (filter_edges (reg_items r)) (ordered_ids r))"

lemma recalculate_order_current:
  "distinct (map filter_id (reg_items r)) \<Longrightarrow> order_current (recalculate_order iter r)"
  using filter_order_resolved [of "reg_items r" iter]
  by (auto simp: order_current_def recalculate_order_def split: if_splits)

text \<open>After any sequence of registrations and removals the registry holds each filter once, and
  unless the constraints are circular its published order is the right one for the filters registered now.\<close>

theorem filter_registry_current: "filter_registry_reach iter r \<Longrightarrow> order_current r"
proof (induction rule: filter_registry_reach.induct)
  case new
  show ?case by (simp add: order_current_def filter_registry_new_def filter_edges_def ordered_by_def greedy_def)
next
  case (register r item)
  then show ?case unfolding register_filter_def
    by (intro recalculate_order_current) (auto simp: order_current_def distinct_map_filter)
next
  case (unregister r fid)
  then show ?case unfolding unregister_filter_def
    by (intro recalculate_order_current) (auto simp: order_current_def distinct_map_filter)
qed

theorem filter_registry_current_witness:
  "order_current (register_filter id \<lparr>filter_id = ''a'', filter_prio = First, after = [''b''], before = []\<rparr> filter_registry_new)"
  by (rule filter_registry_current [of id]) (intro filter_registry_reach.intros)

end
