(* ===== verification/Sessions.thy ===== *)
theory Sessions
  imports Config Packets "HOL-Library.AList"
begin

text \<open>
  Connected players: \<open>player/mod.rs\<close> (a session and what can be done to it) and
  \<open>registry.rs\<close> (the registry of sessions).

  Sessions are shared between tasks. A \<open>player_session\<close> holds the fields that never change;
  the ones that do (server, connection flag, shutdown token) are a cell of the store
  \<open>cells\<close>, addressed by the session's player id, so that every holder of a session sees
  the same cell. The order of a concurrent map's walk is the order of the list; no
  statement depends on it. The command channel is \<open>tokio\<close>'s: what sending on it gives is a
  parameter.
\<close>

section \<open>Sessions\<close>

type_synonym player_id = u64
type_synonym uuid = u128

record player_session =
  ps_player_id :: player_id
  ps_uuid :: uuid
  ps_username :: string
  ps_properties :: "property list"
  ps_protocol_version :: protocol_version
  ps_remote_ip :: ip_addr
  ps_remote_port :: u16
  ps_active :: bool
  ps_online_mode :: bool

record session_cell =
  current_server :: "string option"
  connected :: bool
  cancelled :: bool

datatype ('c, 't) player_command =
  SendMessage 'c | SendTitle 't | SendActionBar 'c | SendPacket i32 bytes | Kick 'c | SwitchServer string

datatype player_error = NotActive | Disconnected | SendFailed string | ServerNotFound string | SwitchFailed string

definition next_player_id :: "player_id \<Rightarrow> player_id \<times> player_id" where
  "next_player_id counter = (counter, counter + 1)"

definition session_cell_new :: "string option \<Rightarrow> session_cell" where
  "session_cell_new server = \<lparr>current_server = server, connected = True, cancelled = False\<rparr>"

definition set_disconnected :: "session_cell \<Rightarrow> session_cell" where
  "set_disconnected c = c\<lparr>connected := False\<rparr>"

definition set_current_server :: "string \<Rightarrow> session_cell \<Rightarrow> session_cell" where
  "set_current_server server c = c\<lparr>current_server := Some server\<rparr>"

definition cancel :: "session_cell \<Rightarrow> session_cell" where
  "cancel c = c\<lparr>cancelled := True\<rparr>"

text \<open>\<open>send\<close> is the outcome of the channel for a command: \<open>None\<close> when it is accepted.\<close>

definition try_send_command ::
  "(('c, 't) player_command \<Rightarrow> string option) \<Rightarrow> player_session \<Rightarrow> session_cell \<Rightarrow> ('c, 't) player_command \<Rightarrow> player_error + unit" where
  "try_send_command send s c cmd =
     (if \<not> ps_active s then Err NotActive
      else if \<not> connected c then Err Disconnected
      else case send cmd of None \<Rightarrow> Ok () | Some e \<Rightarrow> Err (SendFailed e))"

definition switch_server ::
  "(('c, 't) player_command \<Rightarrow> string option) \<Rightarrow> player_session \<Rightarrow> session_cell \<Rightarrow> string \<Rightarrow> player_error + unit" where
  "switch_server send s c target =
     (if \<not> ps_active s then Err NotActive
      else if \<not> connected c then Err Disconnected
      else case send (SwitchServer target) of None \<Rightarrow> Ok () | Some e \<Rightarrow> Err (SendFailed e))"

section \<open>The registry\<close>

record connection_registry =
  sessions :: "(uuid \<times> player_session) list"
  id_index :: "player_id \<rightharpoonup> uuid"
  cells :: "player_id \<Rightarrow> session_cell"

definition registry_new :: "(player_id \<Rightarrow> session_cell) \<Rightarrow> connection_registry" where
  "registry_new cs = \<lparr>sessions = [], id_index = Map.empty, cells = cs\<rparr>"

definition on_cell :: "player_id \<Rightarrow> (session_cell \<Rightarrow> session_cell) \<Rightarrow> connection_registry \<Rightarrow> connection_registry" where
  "on_cell i f r = r\<lparr>cells := (cells r)(i := f (cells r i))\<rparr>"

definition registry_register :: "player_session \<Rightarrow> connection_registry \<Rightarrow> uuid \<times> connection_registry" where
  "registry_register s r =
     (let u = ps_uuid s;
          previous = map_of (sessions r) u;
          index = (id_index r)(ps_player_id s \<mapsto> u);
          r' = r\<lparr>sessions := AList.update u s (sessions r), id_index := index\<rparr>
      in (u, case previous of
            None \<Rightarrow> r'
          | Some p \<Rightarrow>
              on_cell (ps_player_id p) (\<lambda>c. set_disconnected (cancel c))
                (if ps_player_id p \<noteq> ps_player_id s then r'\<lparr>id_index := index(ps_player_id p := None)\<rparr> else r')))"

definition registry_unregister :: "uuid \<Rightarrow> connection_registry \<Rightarrow> player_session option \<times> connection_registry" where
  "registry_unregister u r =
     (case map_of (sessions r) u of
        None \<Rightarrow> (None, r)
      | Some s \<Rightarrow> (Some s, on_cell (ps_player_id s) set_disconnected
          (r\<lparr>sessions := AList.delete u (sessions r), id_index := (id_index r)(ps_player_id s := None)\<rparr>)))"

definition registry_get :: "connection_registry \<Rightarrow> uuid \<Rightarrow> player_session option" where
  "registry_get r u = map_of (sessions r) u"

definition find_by_id :: "connection_registry \<Rightarrow> player_id \<Rightarrow> player_session option" where
  "find_by_id r i = (case id_index r i of None \<Rightarrow> None | Some u \<Rightarrow> registry_get r u)"

definition find_by_username :: "connection_registry \<Rightarrow> string \<Rightarrow> player_session option" where
  "find_by_username r n = List.find (\<lambda>s. ps_username s = n) (map snd (sessions r))"

definition find_by_server :: "connection_registry \<Rightarrow> string \<Rightarrow> player_session list" where
  "find_by_server r sid = filter (\<lambda>s. current_server (cells r (ps_player_id s)) = Some sid) (map snd (sessions r))"

definition registry_count :: "connection_registry \<Rightarrow> nat" where
  "registry_count r = length (sessions r)"

definition count_by_server :: "connection_registry \<Rightarrow> string \<Rightarrow> nat" where
  "count_by_server r sid =
     length (filter (\<lambda>s. current_server (cells r (ps_player_id s)) = Some sid) (map snd (sessions r)))"

definition registry_all :: "connection_registry \<Rightarrow> player_session list" where
  "registry_all r = map snd (sessions r)"

definition find_by_ip :: "connection_registry \<Rightarrow> ip_addr \<Rightarrow> player_session list" where
  "find_by_ip r ip = filter (\<lambda>s. ps_remote_ip s = ip) (map snd (sessions r))"

definition find_by_uuid :: "connection_registry \<Rightarrow> uuid \<Rightarrow> player_session option" where
  "find_by_uuid r u = registry_get r u"

text \<open>\<open>shutdown_token().cancel()\<close> on some sessions.\<close>

definition kick_all :: "player_session list \<Rightarrow> connection_registry \<Rightarrow> connection_registry" where
  "kick_all ss r = fold (\<lambda>s. on_cell (ps_player_id s) cancel) ss r"

section \<open>The registry is consistent\<close>

text \<open>The index by player id is the inverse of the sessions' own ids.\<close>

definition index_ok :: "(uuid \<rightharpoonup> player_session) \<Rightarrow> (player_id \<rightharpoonup> uuid) \<Rightarrow> bool" where
  "index_ok m ix \<longleftrightarrow> (\<forall>u s. m u = Some s \<longrightarrow> ps_uuid s = u) \<and>
     (\<forall>i u. ix i = Some u \<longleftrightarrow> (\<exists>s. m u = Some s \<and> ps_player_id s = i))"

definition registry_inv :: "connection_registry \<Rightarrow> bool" where
  "registry_inv r \<longleftrightarrow> distinct (map fst (sessions r)) \<and> index_ok (map_of (sessions r)) (id_index r)"

text \<open>
  A history: sessions are registered under player ids never used before, and removed by the
  UUID they were registered under.
\<close>

inductive registry_reach :: "player_id set \<Rightarrow> connection_registry \<Rightarrow> bool" where
  new: "registry_reach {} (registry_new cs)"
| register: "registry_reach used r \<Longrightarrow> ps_player_id s \<notin> used \<Longrightarrow>
    registry_reach (insert (ps_player_id s) used) (snd (registry_register s r))"
| unregister: "registry_reach used r \<Longrightarrow> registry_reach used (snd (registry_unregister u r))"
| cell: "registry_reach used r \<Longrightarrow> registry_reach used (on_cell i f r)"

lemma on_cell_fields [simp]: "sessions (on_cell i f r) = sessions r" "id_index (on_cell i f r) = id_index r"
  by (simp_all add: on_cell_def)

lemma registry_register_fields:
  "sessions (snd (registry_register s r)) = AList.update (ps_uuid s) s (sessions r)"
  "id_index (snd (registry_register s r)) =
     (case map_of (sessions r) (ps_uuid s) of
        Some p \<Rightarrow> (if ps_player_id p \<noteq> ps_player_id s then ((id_index r)(ps_player_id s \<mapsto> ps_uuid s))(ps_player_id p := None)
                  else (id_index r)(ps_player_id s \<mapsto> ps_uuid s))
      | None \<Rightarrow> (id_index r)(ps_player_id s \<mapsto> ps_uuid s))"
  by (auto simp: registry_register_def Let_def split: option.splits)

lemma index_ok_register:
  assumes "index_ok m ix" "\<And>u p. m u = Some p \<Longrightarrow> ps_player_id p \<noteq> ps_player_id s"
  shows "index_ok (m(ps_uuid s \<mapsto> s))
    (case m (ps_uuid s) of
       Some p \<Rightarrow> (ix(ps_player_id s \<mapsto> ps_uuid s))(ps_player_id p := None)
     | None \<Rightarrow> ix(ps_player_id s \<mapsto> ps_uuid s))"
proof -
  have uniq: "u = v" if "m u = Some p" "m v = Some q" "ps_player_id p = ps_player_id q" for u v p q
    using assms(1) that unfolding index_ok_def by (metis option.inject)
  show ?thesis
  proof (cases "m (ps_uuid s)")
    case None
    with assms show ?thesis by (auto simp: index_ok_def)
  next
    case (Some p)
    have "ps_player_id p \<noteq> ps_player_id s" using assms(2) Some by blast
    with assms Some uniq show ?thesis unfolding index_ok_def by (auto, metis+)
  qed
qed

lemma index_ok_unregister:
  assumes "index_ok m ix" "m u = Some s"
  shows "index_ok (m(u := None)) (ix(ps_player_id s := None))"
  using assms unfolding index_ok_def by (auto, metis option.inject)

lemma registry_inv_register:
  assumes "registry_inv r" "\<And>u p. map_of (sessions r) u = Some p \<Longrightarrow> ps_player_id p \<noteq> ps_player_id s"
  shows "registry_inv (snd (registry_register s r))"
proof -
  have "index_ok (map_of (sessions (snd (registry_register s r)))) (id_index (snd (registry_register s r)))"
    using index_ok_register [of "map_of (sessions r)" "id_index r" s] assms
    unfolding registry_register_fields update_conv'
    by (cases "map_of (sessions r) (ps_uuid s)") (simp_all add: registry_inv_def del: map_of_eq_Some_iff)
  then show ?thesis using assms(1) by (simp add: registry_inv_def registry_register_fields distinct_update)
qed

lemma registry_inv_unregister: "registry_inv r \<Longrightarrow> registry_inv (snd (registry_unregister u r))"
  using index_ok_unregister [of "map_of (sessions r)" "id_index r" u]
  by (cases "map_of (sessions r) u")
    (simp_all add: registry_inv_def registry_unregister_def delete_conv' distinct_delete del: map_of_eq_Some_iff)

lemma registry_reach_inv:
  "registry_reach used r \<Longrightarrow> registry_inv r \<and> (\<forall>u s. map_of (sessions r) u = Some s \<longrightarrow> ps_player_id s \<in> used)"
proof (induction rule: registry_reach.induct)
  case (new cs)
  show ?case by (simp add: registry_new_def registry_inv_def index_ok_def)
next
  case (register used r s)
  then have "registry_inv (snd (registry_register s r))" by (intro registry_inv_register) (blast, metis)
  then show ?case using register by (auto simp: registry_register_fields update_conv' simp del: map_of_eq_Some_iff split: if_splits)
next
  case (unregister used r u)
  then show ?case using registry_inv_unregister [of r u]
    by (cases "map_of (sessions r) u") (auto simp: registry_unregister_def delete_conv' simp del: map_of_eq_Some_iff split: if_splits)
next
  case (cell used r i f)
  then show ?case by (simp add: registry_inv_def)
qed

text \<open>C5. In every history, the ways to find a session agree: by player id, by UUID and in the list of
  all sessions; a UUID has at most one session.\<close>

theorem registry_lookups_agree:
  assumes "registry_reach used r"
  shows "(find_by_id r i = Some s \<longleftrightarrow> s \<in> set (registry_all r) \<and> ps_player_id s = i) \<and>
    (find_by_uuid r u = Some s \<longleftrightarrow> s \<in> set (registry_all r) \<and> ps_uuid s = u) \<and>
    distinct (map ps_uuid (registry_all r)) \<and> length (registry_all r) = registry_count r"
proof -
  have d: "distinct (map fst (sessions r))" and ok: "index_ok (map_of (sessions r)) (id_index r)"
    using registry_reach_inv [OF assms] by (simp_all add: registry_inv_def)
  have m: "(u, s) \<in> set (sessions r) \<longleftrightarrow> map_of (sessions r) u = Some s" for u s using d by simp
  have all: "s \<in> set (registry_all r) \<longleftrightarrow> map_of (sessions r) (ps_uuid s) = Some s" for s
    using ok m by (force simp: registry_all_def index_ok_def)
  have "map ps_uuid (registry_all r) = map fst (sessions r)"
    using ok m by (auto simp: registry_all_def index_ok_def)
  then have "distinct (map ps_uuid (registry_all r))" using d by simp
  moreover have "find_by_uuid r u = Some s \<longleftrightarrow> s \<in> set (registry_all r) \<and> ps_uuid s = u"
    unfolding all using ok unfolding find_by_uuid_def registry_get_def index_ok_def by metis
  moreover have "find_by_id r i = Some s \<longleftrightarrow> s \<in> set (registry_all r) \<and> ps_player_id s = i"
  proof -
    have "find_by_id r i = Some s \<longleftrightarrow> (\<exists>u. id_index r i = Some u \<and> map_of (sessions r) u = Some s)"
      by (auto simp: find_by_id_def registry_get_def simp del: map_of_eq_Some_iff split: option.splits)
    then show ?thesis unfolding all using ok unfolding index_ok_def by (metis option.inject)
  qed
  ultimately show ?thesis by (simp add: registry_all_def registry_count_def)
qed

text \<open>Registering a session makes it the one of its UUID and leaves every other UUID alone; a session
  it replaces is cancelled and marked disconnected, and no other session's state changes.\<close>

theorem registry_replaces:
  assumes "registry_reach used r" "ps_player_id s \<notin> used" "registry_register s r = (u, r')"
  shows "u = ps_uuid s \<and> registry_get r' u = Some s \<and> find_by_id r' (ps_player_id s) = Some s
    \<and> (\<forall>v. v \<noteq> u \<longrightarrow> registry_get r' v = registry_get r v)
    \<and> (\<forall>p. registry_get r u = Some p \<longrightarrow> cancelled (cells r' (ps_player_id p)) \<and> \<not> connected (cells r' (ps_player_id p))
         \<and> find_by_id r' (ps_player_id p) = None)
    \<and> (\<forall>i. (\<forall>p. registry_get r u = Some p \<longrightarrow> ps_player_id p \<noteq> i) \<longrightarrow> cells r' i = cells r i)"
proof -
  have r': "r' = snd (registry_register s r)" "u = ps_uuid s" using assms(3) by (auto simp: registry_register_def Let_def)
  have fresh: "ps_player_id p \<noteq> ps_player_id s" if "map_of (sessions r) v = Some p" for v p
    using registry_reach_inv [OF assms(1)] assms(2) that by metis
  have g: "registry_get r' v = (if v = u then Some s else registry_get r v)" for v
    by (simp add: r' registry_get_def registry_register_fields update_conv')
  have ix: "id_index r' (ps_player_id s) = Some u"
    using fresh [of u] by (cases "map_of (sessions r) u") (simp_all add: r' registry_register_fields)
  show ?thesis
  proof (cases "map_of (sessions r) u")
    case None
    then show ?thesis using g ix r' by (auto simp: find_by_id_def registry_get_def registry_register_def Let_def)
  next
    case (Some p)
    have "id_index r' (ps_player_id p) = None" using Some fresh [OF Some] by (simp add: r' registry_register_fields)
    moreover have "cells r' = (cells r)(ps_player_id p := set_disconnected (cancel (cells r (ps_player_id p))))"
      using Some fresh [OF Some] by (simp add: r' registry_register_def on_cell_def Let_def)
    ultimately show ?thesis using g ix r' Some
      by (auto simp: find_by_id_def registry_get_def set_disconnected_def cancel_def simp del: map_of_eq_Some_iff)
  qed
qed

definition sample_session :: "player_id \<Rightarrow> uuid \<Rightarrow> string \<Rightarrow> player_session" where
  "sample_session i u n = \<lparr>ps_player_id = i, ps_uuid = u, ps_username = n, ps_properties = [], ps_protocol_version = V1_21,
     ps_remote_ip = V4 0, ps_remote_port = 1, ps_active = True, ps_online_mode = True\<rparr>"

definition sample_registry :: connection_registry where
  "sample_registry = snd (registry_register (sample_session 1 7 ''bob'') (registry_new (\<lambda>_. session_cell_new None)))"

lemma sample_registry_reach: "registry_reach {1} sample_registry"
  using registry_reach.register [OF registry_reach.new, of "sample_session 1 7 ''bob''" "\<lambda>_. session_cell_new None"]
  by (simp add: sample_registry_def sample_session_def)

theorem registry_lookups_agree_witness:
  "find_by_id sample_registry 1 = Some (sample_session 1 7 ''bob'')"
  using registry_lookups_agree [OF sample_registry_reach, of 1 "sample_session 1 7 ''bob''" 7]
  by (simp add: sample_registry_def sample_session_def registry_register_def registry_new_def registry_all_def)

theorem registry_replaces_witness:
  "registry_get (snd (registry_register (sample_session 2 7 ''bob'') sample_registry)) 7 = Some (sample_session 2 7 ''bob'')"
proof -
  obtain u r' where r: "registry_register (sample_session 2 7 ''bob'') sample_registry = (u, r')" by fastforce
  have "ps_player_id (sample_session 2 7 ''bob'') \<notin> {1}" by (simp add: sample_session_def)
  from registry_replaces [OF sample_registry_reach this r]
  have "u = ps_uuid (sample_session 2 7 ''bob'')" "registry_get r' u = Some (sample_session 2 7 ''bob'')" by blast+
  then show ?thesis by (simp add: r) (simp add: sample_session_def)
qed

text \<open>
  The cleanup of a replaced session removes by UUID, and so removes the session that
  replaced it: that player is online but no longer registered.
\<close>

lemma stale_cleanup_drops_live_session:
  fixes a b :: player_session and cs :: "player_id \<Rightarrow> session_cell"
  assumes "ps_uuid a = ps_uuid b" "ps_player_id a \<noteq> ps_player_id b"
  defines "r2 \<equiv> snd (registry_register b (snd (registry_register a (registry_new cs))))"
  defines "r3 \<equiv> snd (registry_unregister (ps_uuid a) r2)"
  shows "registry_get r2 (ps_uuid b) = Some b" "registry_get r3 (ps_uuid b) = None" "find_by_id r3 (ps_player_id b) = None"
    "cancelled (cells r3 (ps_player_id b)) = cancelled (cs (ps_player_id b))" "\<not> connected (cells r3 (ps_player_id b))"
  using assms(1,2)
  by (simp_all add: r2_def r3_def registry_get_def registry_register_def registry_unregister_def registry_new_def
      find_by_id_def on_cell_def set_disconnected_def cancel_def Let_def)

end
