(* ===== verification/Bans.thy ===== *)
theory Bans
  imports Sessions Rewrite
begin

text \<open>
  Bans: \<open>ban/types.rs\<close>, \<open>ban/file_storage.rs\<close>, \<open>ban/manager.rs\<close> and the ban entries of
  \<open>infrarust-api/src/services/ban_service.rs\<close>.

  A \<open>SystemTime\<close> is its number of nanoseconds since the epoch, and an operation runs at one
  instant \<open>now\<close>. The three concurrent maps are association lists in the order of their
  walk. Lower-casing is the parameter \<open>lc\<close>; the JSON library is \<open>to_json\<close> and
  \<open>from_json\<close> on the data that the serde attributes produce, in which times are whole
  seconds. What the file system does in a call is an argument: \<open>persist_io\<close> for a write.
  Targets have the three variants of the source; the arms for further ones are dead code.
\<close>

section \<open>Entries\<close>

datatype ban_target = BanIp ip_addr | BanUsername string | BanUuid uuid

record ban_entry =
  ban_target :: ban_target
  ban_reason :: "string option"
  expires_at :: "nat option"
  created_at :: nat
  ban_source :: string

datatype ban_action = ActionBan | ActionUnban | ActionExpired

record audit_entry =
  audit_action :: ban_action
  audit_target :: ban_target
  audit_reason :: "string option"
  audit_source :: string
  audit_timestamp :: nat

abbreviation nanos_per_sec :: nat where "nanos_per_sec \<equiv> 1000000000"

definition ban_entry_new :: "nat \<Rightarrow> ban_target \<Rightarrow> string option \<Rightarrow> nat option \<Rightarrow> string \<Rightarrow> ban_entry" where
  "ban_entry_new now target reason duration source =
     \<lparr>ban_target = target, ban_reason = reason, expires_at = map_option (\<lambda>d. now + d) duration, created_at = now,
      ban_source = source\<rparr>"

definition is_expired :: "nat \<Rightarrow> ban_entry \<Rightarrow> bool" where
  "is_expired now e = (case expires_at e of Some exp \<Rightarrow> now \<ge> exp | None \<Rightarrow> False)"

definition is_permanent :: "ban_entry \<Rightarrow> bool" where
  "is_permanent e = (expires_at e = None)"

definition remaining_time :: "nat \<Rightarrow> ban_entry \<Rightarrow> nat option" where
  "remaining_time now e = (case expires_at e of Some exp \<Rightarrow> if now \<le> exp then Some (exp - now) else None | None \<Rightarrow> None)"

definition kick_message :: "nat \<Rightarrow> ban_entry \<Rightarrow> string" where
  "kick_message now e =
     (let reason = (case ban_reason e of Some r \<Rightarrow> r | None \<Rightarrow> ''Banned by administrator'');
          br = [CHR 0x0A, CHR 0x0A]
      in case remaining_time now e of
          None \<Rightarrow> reason @ br @ ''This ban is permanent.''
        | Some rest \<Rightarrow>
            let secs = rest div nanos_per_sec; hours = secs div 3600; minutes = secs mod 3600 div 60
            in if hours > 24 then reason @ br @ ''Expires in '' @ show_nat (hours div 24) @ '' day(s)''
               else if hours > 0 then reason @ br @ ''Expires in '' @ show_nat hours @ ''h '' @ show_nat minutes @ ''m''
               else reason @ br @ ''Expires in '' @ show_nat minutes @ '' minute(s)'')"

section \<open>The file storage\<close>

record ban_file_data =
  file_bans :: "ban_entry list"
  file_audit_log :: "audit_entry list"

record file_ban_storage =
  ip_bans :: "(ip_addr \<times> ban_entry) list"
  username_bans :: "(string \<times> ban_entry) list"
  uuid_bans :: "(uuid \<times> ban_entry) list"
  audit_log :: "audit_entry list"
  ban_file :: "string option"

definition MAX_AUDIT_LOG_ENTRIES :: nat where "MAX_AUDIT_LOG_ENTRIES = 10000"

definition storage_new :: "string option \<Rightarrow> file_ban_storage" where
  "storage_new f = \<lparr>ip_bans = [], username_bans = [], uuid_bans = [], audit_log = [], ban_file = f\<rparr>"

text \<open>The match on the target that every operation starts with.\<close>

definition lookup_ban :: "(string \<Rightarrow> string) \<Rightarrow> file_ban_storage \<Rightarrow> ban_target \<Rightarrow> ban_entry option" where
  "lookup_ban lc st t =
     (case t of BanIp ip \<Rightarrow> map_of (ip_bans st) ip
      | BanUsername n \<Rightarrow> map_of (username_bans st) (lc n)
      | BanUuid u \<Rightarrow> map_of (uuid_bans st) u)"

definition insert_ban :: "(string \<Rightarrow> string) \<Rightarrow> ban_entry \<Rightarrow> file_ban_storage \<Rightarrow> file_ban_storage" where
  "insert_ban lc e st =
     (case ban_target e of BanIp ip \<Rightarrow> st\<lparr>ip_bans := AList.update ip e (ip_bans st)\<rparr>
      | BanUsername n \<Rightarrow> st\<lparr>username_bans := AList.update (lc n) e (username_bans st)\<rparr>
      | BanUuid u \<Rightarrow> st\<lparr>uuid_bans := AList.update u e (uuid_bans st)\<rparr>)"

definition delete_ban :: "(string \<Rightarrow> string) \<Rightarrow> ban_target \<Rightarrow> file_ban_storage \<Rightarrow> file_ban_storage" where
  "delete_ban lc t st =
     (case t of BanIp ip \<Rightarrow> st\<lparr>ip_bans := AList.delete ip (ip_bans st)\<rparr>
      | BanUsername n \<Rightarrow> st\<lparr>username_bans := AList.delete (lc n) (username_bans st)\<rparr>
      | BanUuid u \<Rightarrow> st\<lparr>uuid_bans := AList.delete u (uuid_bans st)\<rparr>)"

text \<open>What serde writes: whole seconds, and reads: the start of that second.\<close>

definition epoch_serialize :: "nat \<Rightarrow> nat" where "epoch_serialize t = t div nanos_per_sec"
definition epoch_deserialize :: "nat \<Rightarrow> nat" where "epoch_deserialize s = s * nanos_per_sec"

definition entry_times :: "(nat \<Rightarrow> nat) \<Rightarrow> ban_entry \<Rightarrow> ban_entry" where
  "entry_times f e = e\<lparr>expires_at := map_option f (expires_at e), created_at := f (created_at e)\<rparr>"

definition audit_times :: "(nat \<Rightarrow> nat) \<Rightarrow> audit_entry \<Rightarrow> audit_entry" where
  "audit_times f a = a\<lparr>audit_timestamp := f (audit_timestamp a)\<rparr>"

definition file_times :: "(nat \<Rightarrow> nat) \<Rightarrow> ban_file_data \<Rightarrow> ban_file_data" where
  "file_times f d = \<lparr>file_bans = map (entry_times f) (file_bans d), file_audit_log = map (audit_times f) (file_audit_log d)\<rparr>"

definition serialize_all :: "(ban_file_data \<Rightarrow> string + string) \<Rightarrow> file_ban_storage \<Rightarrow> core_error + string" where
  "serialize_all to_json st =
     (let bans = map snd (ip_bans st) @ map snd (username_bans st) @ map snd (uuid_bans st);
          data = \<lparr>file_bans = bans, file_audit_log = audit_log st\<rparr>
      in case to_json (file_times epoch_serialize data) of Err e \<Rightarrow> Err (OtherError e) | Ok s \<Rightarrow> Ok s)"

definition populate_maps :: "(string \<Rightarrow> string) \<Rightarrow> ban_entry list \<Rightarrow> file_ban_storage \<Rightarrow> file_ban_storage" where
  "populate_maps lc bans st = fold (insert_ban lc) bans st"

definition add_audit_entry :: "audit_entry \<Rightarrow> file_ban_storage \<Rightarrow> file_ban_storage" where
  "add_audit_entry a st =
     (let log = audit_log st @ [a]
      in st\<lparr>audit_log := if length log > MAX_AUDIT_LOG_ENTRIES then drop (length log - MAX_AUDIT_LOG_ENTRIES) log else log\<rparr>)"

text \<open>The outcomes of the file system during one persist.\<close>

datatype persist_io = LockTimeout | WriteFailed io_error_kind | RenameFailed io_error_kind | Persisted

definition persist ::
  "(ban_file_data \<Rightarrow> string + string) \<Rightarrow> persist_io \<Rightarrow> file_ban_storage \<Rightarrow> (core_error + unit) \<times> file_ban_storage" where
  "persist to_json io st =
     (if io = LockTimeout then (Ok (), st)
      else case serialize_all to_json st of
          Err e \<Rightarrow> (Err e, st)
        | Ok data \<Rightarrow>
            (case io of WriteFailed k \<Rightarrow> (Err (IoError k), st)
             | RenameFailed k \<Rightarrow> (Err (IoError k), st)
             | _ \<Rightarrow> (Ok (), st\<lparr>ban_file := Some data\<rparr>)))"

text \<open>\<open>self.persist().await?; Ok(x)\<close>\<close>

definition persist_then ::
  "(ban_file_data \<Rightarrow> string + string) \<Rightarrow> persist_io \<Rightarrow> 'a \<Rightarrow> file_ban_storage \<Rightarrow> (core_error + 'a) \<times> file_ban_storage" where
  "persist_then to_json io x st = (let (r, st) = persist to_json io st in (rmap (\<lambda>_. x) r, st))"

text \<open>
  Reading the file gives an error of some kind or its contents; a file that is not there is
  the kind \<open>NotFound\<close>. A file that does not parse is renamed away, which may fail.
\<close>

definition load_bans ::
  "(string \<Rightarrow> string) \<Rightarrow> (string \<Rightarrow> string + ban_file_data) \<Rightarrow> io_error_kind option \<Rightarrow> bool \<Rightarrow> file_ban_storage
     \<Rightarrow> (core_error + unit) \<times> file_ban_storage" where
  "load_bans lc from_json read_error backup_ok st =
     (case (case read_error of Some k \<Rightarrow> Err k | None \<Rightarrow> (case ban_file st of None \<Rightarrow> Err NotFound | Some s \<Rightarrow> Ok s)) of
        Ok contents \<Rightarrow>
          (case from_json contents of
             Ok data \<Rightarrow>
               let data = file_times epoch_deserialize data
               in (Ok (), (populate_maps lc (file_bans data) st)\<lparr>audit_log := file_audit_log data\<rparr>)
           | Err _ \<Rightarrow> (Ok (), if backup_ok then st\<lparr>ban_file := None\<rparr> else st))
      | Err k \<Rightarrow> (if k = NotFound then Ok () else Err (IoError k), st))"

definition save_bans ::
  "(ban_file_data \<Rightarrow> string + string) \<Rightarrow> persist_io \<Rightarrow> file_ban_storage \<Rightarrow> (core_error + unit) \<times> file_ban_storage" where
  "save_bans to_json io st = persist to_json io st"

definition add_ban ::
  "(string \<Rightarrow> string) \<Rightarrow> (ban_file_data \<Rightarrow> string + string) \<Rightarrow> nat \<Rightarrow> persist_io \<Rightarrow> ban_entry \<Rightarrow> file_ban_storage
     \<Rightarrow> (core_error + unit) \<times> file_ban_storage" where
  "add_ban lc to_json now io e st =
     persist_then to_json io ()
       (add_audit_entry \<lparr>audit_action = ActionBan, audit_target = ban_target e, audit_reason = ban_reason e,
            audit_source = ban_source e, audit_timestamp = now\<rparr> (insert_ban lc e st))"

definition remove_ban ::
  "(string \<Rightarrow> string) \<Rightarrow> (ban_file_data \<Rightarrow> string + string) \<Rightarrow> nat \<Rightarrow> persist_io \<Rightarrow> ban_target \<Rightarrow> file_ban_storage
     \<Rightarrow> (core_error + bool) \<times> file_ban_storage" where
  "remove_ban lc to_json now io t st =
     (if lookup_ban lc st t \<noteq> None then
        persist_then to_json io True
          (add_audit_entry \<lparr>audit_action = ActionUnban, audit_target = t, audit_reason = None, audit_source = [],
               audit_timestamp = now\<rparr> (delete_ban lc t st))
      else (Ok False, st))"

definition is_banned ::
  "(string \<Rightarrow> string) \<Rightarrow> (ban_file_data \<Rightarrow> string + string) \<Rightarrow> nat \<Rightarrow> persist_io \<Rightarrow> ban_target \<Rightarrow> file_ban_storage
     \<Rightarrow> (core_error + ban_entry option) \<times> file_ban_storage" where
  "is_banned lc to_json now io t st =
     (case lookup_ban lc st t of
        None \<Rightarrow> (Ok None, st)
      | Some e \<Rightarrow>
          if is_expired now e then persist_then to_json io None (delete_ban lc t st)
          else (Ok (Some e), st))"

text \<open>One of the three steps of \<open>check_player\<close>.\<close>

definition check_target ::
  "(string \<Rightarrow> string) \<Rightarrow> nat \<Rightarrow> ban_target \<Rightarrow> file_ban_storage \<Rightarrow> ban_entry option \<times> file_ban_storage" where
  "check_target lc now t st =
     (case lookup_ban lc st t of
        None \<Rightarrow> (None, st)
      | Some e \<Rightarrow> if \<not> is_expired now e then (Some e, st) else (None, delete_ban lc t st))"

definition check_player ::
  "(string \<Rightarrow> string) \<Rightarrow> nat \<Rightarrow> ip_addr \<Rightarrow> string \<Rightarrow> uuid option \<Rightarrow> file_ban_storage
     \<Rightarrow> (core_error + ban_entry option) \<times> file_ban_storage" where
  "check_player lc now ip username uuid st =
     (case check_target lc now (BanIp ip) st of
        (Some e, st) \<Rightarrow> (Ok (Some e), st)
      | (None, st) \<Rightarrow>
          (case check_target lc now (BanUsername username) st of
             (Some e, st) \<Rightarrow> (Ok (Some e), st)
           | (None, st) \<Rightarrow>
               (case uuid of
                  None \<Rightarrow> (Ok None, st)
                | Some u \<Rightarrow> let (r, st) = check_target lc now (BanUuid u) st in (Ok r, st))))"

definition get_all_active :: "nat \<Rightarrow> file_ban_storage \<Rightarrow> core_error + ban_entry list" where
  "get_all_active now st =
     Ok (filter (\<lambda>e. \<not> is_expired now e) (map snd (ip_bans st))
       @ filter (\<lambda>e. \<not> is_expired now e) (map snd (username_bans st))
       @ filter (\<lambda>e. \<not> is_expired now e) (map snd (uuid_bans st)))"

definition expired_keys :: "nat \<Rightarrow> ('k \<times> ban_entry) list \<Rightarrow> 'k list" where
  "expired_keys now m = map fst (filter (\<lambda>(_, e). is_expired now e) m)"

definition purge_expired ::
  "(ban_file_data \<Rightarrow> string + string) \<Rightarrow> nat \<Rightarrow> persist_io \<Rightarrow> file_ban_storage \<Rightarrow> (core_error + nat) \<times> file_ban_storage" where
  "purge_expired to_json now io st =
     (let expired_ips = expired_keys now (ip_bans st);
          expired_usernames = expired_keys now (username_bans st);
          expired_uuids = expired_keys now (uuid_bans st);
          st' = st\<lparr>ip_bans := fold AList.delete expired_ips (ip_bans st),
                   username_bans := fold AList.delete expired_usernames (username_bans st),
                   uuid_bans := fold AList.delete expired_uuids (uuid_bans st)\<rparr>;
          targets = map BanIp expired_ips @ map BanUsername expired_usernames @ map BanUuid expired_uuids;
          purged = length expired_ips + length expired_usernames + length expired_uuids;
          log = map (\<lambda>t. \<lparr>audit_action = ActionExpired, audit_target = t, audit_reason = None,
                         audit_source = ''system'', audit_timestamp = now\<rparr>) targets
      in if purged > 0 then persist_then to_json io purged (st'\<lparr>audit_log := audit_log st' @ log\<rparr>)
         else (Ok purged, st'))"

section \<open>The manager\<close>

record ban_manager =
  manager_storage :: file_ban_storage
  manager_registry :: connection_registry

definition sessions_to_kick :: "connection_registry \<Rightarrow> ban_target \<Rightarrow> player_session list" where
  "sessions_to_kick r t =
     (case t of BanIp ip \<Rightarrow> find_by_ip r ip
      | BanUsername n \<Rightarrow> (case find_by_username r n of Some s \<Rightarrow> [s] | None \<Rightarrow> [])
      | BanUuid u \<Rightarrow> (case find_by_uuid r u of Some s \<Rightarrow> [s] | None \<Rightarrow> []))"

definition manager_ban ::
  "(string \<Rightarrow> string) \<Rightarrow> (ban_file_data \<Rightarrow> string + string) \<Rightarrow> nat \<Rightarrow> persist_io
     \<Rightarrow> ban_target \<Rightarrow> string option \<Rightarrow> nat option \<Rightarrow> string \<Rightarrow> ban_manager \<Rightarrow> (core_error + unit) \<times> ban_manager" where
  "manager_ban lc to_json now io target reason duration source m =
     (case add_ban lc to_json now io (ban_entry_new now target reason duration source) (manager_storage m) of
        (Err e, st) \<Rightarrow> (Err e, m\<lparr>manager_storage := st\<rparr>)
      | (Ok _, st) \<Rightarrow>
          (Ok (), m\<lparr>manager_storage := st,
                    manager_registry := kick_all (sessions_to_kick (manager_registry m) target) (manager_registry m)\<rparr>))"

definition manager_unban ::
  "(string \<Rightarrow> string) \<Rightarrow> (ban_file_data \<Rightarrow> string + string) \<Rightarrow> nat \<Rightarrow> persist_io \<Rightarrow> ban_target \<Rightarrow> ban_manager
     \<Rightarrow> (core_error + bool) \<times> ban_manager" where
  "manager_unban lc to_json now io t m =
     (let (r, st) = remove_ban lc to_json now io t (manager_storage m) in (r, m\<lparr>manager_storage := st\<rparr>))"

definition is_ip_banned ::
  "(string \<Rightarrow> string) \<Rightarrow> (ban_file_data \<Rightarrow> string + string) \<Rightarrow> nat \<Rightarrow> persist_io \<Rightarrow> ip_addr \<Rightarrow> file_ban_storage
     \<Rightarrow> (core_error + ban_entry option) \<times> file_ban_storage" where
  "is_ip_banned lc to_json now io ip st = is_banned lc to_json now io (BanIp ip) st"

text \<open>The ticks of the purge task; an error of one tick is only logged.\<close>

definition purge_task ::
  "(ban_file_data \<Rightarrow> string + string) \<Rightarrow> (nat \<times> persist_io) list \<Rightarrow> file_ban_storage \<Rightarrow> file_ban_storage" where
  "purge_task to_json ticks st = fold (\<lambda>(now, io) st. snd (purge_expired to_json now io st)) ticks st"

section \<open>The bans as one map\<close>

text \<open>
  The abstract state: a map from targets, with names in lower case, to entries.
\<close>

definition ban_key :: "(string \<Rightarrow> string) \<Rightarrow> ban_target \<Rightarrow> ban_target" where
  "ban_key lc t = (case t of BanUsername n \<Rightarrow> BanUsername (lc n) | _ \<Rightarrow> t)"

definition keyed_bans :: "file_ban_storage \<Rightarrow> (ban_target \<times> ban_entry) list" where
  "keyed_bans st = map (map_prod BanIp id) (ip_bans st) @ map (map_prod BanUsername id) (username_bans st)
     @ map (map_prod BanUuid id) (uuid_bans st)"

definition bans :: "file_ban_storage \<Rightarrow> ban_target \<Rightarrow> ban_entry option" where
  "bans st k = (case k of BanIp ip \<Rightarrow> map_of (ip_bans st) ip | BanUsername n \<Rightarrow> map_of (username_bans st) n
     | BanUuid u \<Rightarrow> map_of (uuid_bans st) u)"

text \<open>No key twice, and every entry stands under the key of its target.\<close>

definition ban_inv :: "(string \<Rightarrow> string) \<Rightarrow> file_ban_storage \<Rightarrow> bool" where
  "ban_inv lc st \<longleftrightarrow> distinct (map fst (ip_bans st)) \<and> distinct (map fst (username_bans st)) \<and> distinct (map fst (uuid_bans st))
     \<and> (\<forall>k e. bans st k = Some e \<longrightarrow> ban_key lc (ban_target e) = k)"

text \<open>The ban in force for a target at an instant.\<close>

definition in_force :: "(string \<Rightarrow> string) \<Rightarrow> nat \<Rightarrow> file_ban_storage \<Rightarrow> ban_target \<Rightarrow> ban_entry option" where
  "in_force lc now st t = (case bans st (ban_key lc t) of
     Some e \<Rightarrow> if is_expired now e then None else Some e | None \<Rightarrow> None)"

named_theorems ban_simps

lemma lookup_bans [ban_simps]: "lookup_ban lc st t = bans st (ban_key lc t)"
  by (simp add: lookup_ban_def bans_def ban_key_def split: ban_target.splits)

lemma bans_insert [ban_simps]: "bans (insert_ban lc e st) = (bans st)(ban_key lc (ban_target e) \<mapsto> e)"
  by (auto simp: insert_ban_def bans_def ban_key_def update_conv' fun_eq_iff split: ban_target.splits)

lemma bans_delete [ban_simps]: "bans (delete_ban lc t st) = (bans st)(ban_key lc t := None)"
  by (auto simp: delete_ban_def bans_def ban_key_def delete_conv' fun_eq_iff split: ban_target.splits)

lemma bans_audit [ban_simps]: "bans (add_audit_entry a st) = bans st" "bans (st\<lparr>audit_log := l\<rparr>) = bans st"
    "bans (st\<lparr>ban_file := f\<rparr>) = bans st"
  by (auto simp: add_audit_entry_def bans_def Let_def fun_eq_iff split: ban_target.splits)

lemma persist_snd: "snd (persist to_json io st) = st \<or> (\<exists>d. snd (persist to_json io st) = st\<lparr>ban_file := Some d\<rparr>)"
  by (auto simp: persist_def split: sum.splits persist_io.splits)

lemma persist_then_snd: "snd (persist_then to_json io x st) = snd (persist to_json io st)"
  by (simp add: persist_then_def split: prod.splits)

lemma persist_then_bans [ban_simps]: "bans (snd (persist_then to_json io x st)) = bans st"
  using persist_snd [of to_json io st] by (auto simp: persist_then_snd ban_simps)

lemma persist_then_Ok [ban_simps]: "fst (persist_then to_json io x st) = Ok y \<longleftrightarrow> fst (persist to_json io st) = Ok () \<and> y = x"
  by (auto simp: persist_then_def rmap_eq_Ok split: prod.splits)

lemma expired_at_later: "is_expired now e \<Longrightarrow> now \<le> now' \<Longrightarrow> is_expired now' e"
  by (auto simp: is_expired_def split: option.splits)

section \<open>Every operation on the map\<close>

lemma add_ban_bans [ban_simps]: "bans (snd (add_ban lc to_json now io e st)) = (bans st)(ban_key lc (ban_target e) \<mapsto> e)"
  by (simp add: add_ban_def ban_simps)

lemma remove_ban_bans [ban_simps]: "bans (snd (remove_ban lc to_json now io t st)) = (bans st)(ban_key lc t := None)"
  by (auto simp: remove_ban_def ban_simps fun_eq_iff)

lemma is_banned_bans [ban_simps]:
  "bans (snd (is_banned lc to_json now io t st)) =
     (if \<exists>e. bans st (ban_key lc t) = Some e \<and> is_expired now e then (bans st)(ban_key lc t := None) else bans st)"
  by (auto simp: is_banned_def ban_simps split: option.splits)

lemma check_target_bans [ban_simps]:
  "fst (check_target lc now t st) = in_force lc now st t"
  "bans (snd (check_target lc now t st)) =
     (if \<exists>e. bans st (ban_key lc t) = Some e \<and> is_expired now e then (bans st)(ban_key lc t := None) else bans st)"
  by (auto simp: check_target_def in_force_def ban_simps split: option.splits)

lemma map_of_fold_delete: "map_of (fold AList.delete ks al) k = (if k \<in> set ks then None else map_of al k)"
  by (induction ks arbitrary: al) (auto simp: delete_conv')

lemma purged_map:
  assumes "distinct (map fst m)"
  shows "map_of (fold AList.delete (expired_keys now m) m) k =
    (case map_of m k of Some e \<Rightarrow> if is_expired now e then None else Some e | None \<Rightarrow> None)"
proof (cases "map_of m k")
  case (Some e)
  moreover have "k \<in> set (expired_keys now m) \<longleftrightarrow> (\<exists>e. (k, e) \<in> set m \<and> is_expired now e)"
    by (force simp: expired_keys_def)
  then have "k \<in> set (expired_keys now m) \<longleftrightarrow> is_expired now e"
    using assms Some map_of_SomeD [OF Some] by (metis eq_key_imp_eq_value)
  ultimately show ?thesis by (simp add: map_of_fold_delete)
qed (simp add: map_of_fold_delete)

lemma purge_bans:
  assumes "ban_inv lc st"
  shows "bans (snd (purge_expired to_json now io st)) k =
    (case bans st k of Some e \<Rightarrow> if is_expired now e then None else Some e | None \<Rightarrow> None)"
proof -
  have "bans (snd (purge_expired to_json now io st)) k =
      bans (st\<lparr>ip_bans := fold AList.delete (expired_keys now (ip_bans st)) (ip_bans st),
        username_bans := fold AList.delete (expired_keys now (username_bans st)) (username_bans st),
        uuid_bans := fold AList.delete (expired_keys now (uuid_bans st)) (uuid_bans st)\<rparr>) k"
    by (simp add: purge_expired_def Let_def ban_simps)
  then show ?thesis using assms by (cases k) (simp_all add: bans_def ban_inv_def purged_map)
qed

section \<open>The invariant\<close>

lemma distinct_fold_delete: "distinct (map fst al) \<Longrightarrow> distinct (map fst (fold AList.delete ks al))"
  by (induction ks arbitrary: al) (simp_all add: distinct_delete)

definition keys_distinct :: "file_ban_storage \<Rightarrow> bool" where
  "keys_distinct st \<longleftrightarrow> distinct (map fst (ip_bans st)) \<and> distinct (map fst (username_bans st)) \<and> distinct (map fst (uuid_bans st))"

lemma keys_distinct_ops:
  "keys_distinct st \<Longrightarrow> keys_distinct (insert_ban lc e st)"
  "keys_distinct st \<Longrightarrow> keys_distinct (delete_ban lc t st)"
  "keys_distinct (add_audit_entry a st) = keys_distinct st"
  "keys_distinct (st\<lparr>audit_log := l\<rparr>) = keys_distinct st"
  "keys_distinct (st\<lparr>ban_file := f\<rparr>) = keys_distinct st"
  by (auto simp: keys_distinct_def insert_ban_def delete_ban_def add_audit_entry_def Let_def distinct_update distinct_delete
      split: ban_target.splits)

lemma keys_distinct_persist_then [simp]: "keys_distinct (snd (persist_then to_json io x st)) = keys_distinct st"
  using persist_snd [of to_json io st] by (auto simp: persist_then_snd keys_distinct_ops)

lemma ban_inv_alt: "ban_inv lc st \<longleftrightarrow> keys_distinct st \<and> (\<forall>k e. bans st k = Some e \<longrightarrow> ban_key lc (ban_target e) = k)"
  by (auto simp: ban_inv_def keys_distinct_def)

lemma ban_inv_add: "ban_inv lc st \<Longrightarrow> ban_inv lc (snd (add_ban lc to_json now io e st))"
  by (simp add: ban_inv_alt ban_simps) (simp add: add_ban_def keys_distinct_ops)

lemma ban_inv_remove: "ban_inv lc st \<Longrightarrow> ban_inv lc (snd (remove_ban lc to_json now io t st))"
  by (simp add: ban_inv_alt ban_simps) (simp add: remove_ban_def keys_distinct_ops)

lemma ban_inv_is_banned: "ban_inv lc st \<Longrightarrow> ban_inv lc (snd (is_banned lc to_json now io t st))"
  by (simp add: ban_inv_alt ban_simps) (simp add: is_banned_def keys_distinct_ops split: option.splits)

lemma ban_inv_check_target: "ban_inv lc st \<Longrightarrow> ban_inv lc (snd (check_target lc now t st))"
  by (simp add: ban_inv_alt ban_simps) (simp add: check_target_def keys_distinct_ops split: option.splits)

lemma ban_inv_purge:
  assumes "ban_inv lc st"
  shows "ban_inv lc (snd (purge_expired to_json now io st))"
  using assms
  by (auto simp: ban_inv_alt purge_bans [OF assms] split: option.splits if_splits)
    (simp add: purge_expired_def Let_def keys_distinct_ops, simp add: keys_distinct_def distinct_fold_delete)


section \<open>Histories\<close>

datatype ban_op =
    OpAdd ban_entry | OpRemove ban_target | OpIsBanned ban_target
  | OpCheck ip_addr string "uuid option" | OpPurge | OpSave

definition ban_step ::
  "(string \<Rightarrow> string) \<Rightarrow> (ban_file_data \<Rightarrow> string + string) \<Rightarrow> nat \<times> persist_io \<times> ban_op \<Rightarrow> file_ban_storage \<Rightarrow> file_ban_storage" where
  "ban_step lc to_json = (\<lambda>(now, io, op) st.
     case op of OpAdd e \<Rightarrow> snd (add_ban lc to_json now io e st)
     | OpRemove t \<Rightarrow> snd (remove_ban lc to_json now io t st)
     | OpIsBanned t \<Rightarrow> snd (is_banned lc to_json now io t st)
     | OpCheck ip n u \<Rightarrow> snd (check_player lc now ip n u st)
     | OpPurge \<Rightarrow> snd (purge_expired to_json now io st)
     | OpSave \<Rightarrow> snd (save_bans to_json io st))"

definition ban_run ::
  "(string \<Rightarrow> string) \<Rightarrow> (ban_file_data \<Rightarrow> string + string) \<Rightarrow> (nat \<times> persist_io \<times> ban_op) list \<Rightarrow> file_ban_storage \<Rightarrow> file_ban_storage" where
  "ban_run lc to_json h st = fold (ban_step lc to_json) h st"

text \<open>The operation sets or clears the ban of a key.\<close>

definition touches :: "(string \<Rightarrow> string) \<Rightarrow> ban_target \<Rightarrow> ban_op \<Rightarrow> bool" where
  "touches lc k op = (case op of OpAdd e \<Rightarrow> ban_key lc (ban_target e) = k | OpRemove t \<Rightarrow> ban_key lc t = k | _ \<Rightarrow> False)"

lemma check_player_alt:
  "check_player lc now ip n u st =
     (let (r1, st1) = check_target lc now (BanIp ip) st; (r2, st2) = check_target lc now (BanUsername n) st1 in
      if r1 \<noteq> None then (Ok r1, st1) else if r2 \<noteq> None then (Ok r2, st2)
      else case u of None \<Rightarrow> (Ok None, st2) | Some u \<Rightarrow> let (r3, st3) = check_target lc now (BanUuid u) st2 in (Ok r3, st3))"
  by (simp add: check_player_def Let_def split: prod.splits option.splits)

lemma save_bans_state: "bans (snd (save_bans to_json io st)) = bans st" "keys_distinct (snd (save_bans to_json io st)) = keys_distinct st"
  using persist_snd [of to_json io st] by (auto simp: save_bans_def ban_simps keys_distinct_ops)

text \<open>What holds of every part of \<open>check_player\<close> holds of it.\<close>

lemma check_player_state:
  assumes "P st" "\<And>t st. P st \<Longrightarrow> P (snd (check_target lc now t st))"
  shows "P (snd (check_player lc now ip n u st))"
  by (simp add: check_player_alt Let_def split_beta assms split: option.splits)

lemma ban_inv_step: "ban_inv lc st \<Longrightarrow> ban_inv lc (ban_step lc to_json x st)"
  by (auto simp: ban_step_def ban_inv_add ban_inv_remove ban_inv_is_banned ban_inv_purge ban_inv_check_target
      check_player_state [of "ban_inv lc"] split: prod.splits ban_op.splits)
    (simp add: ban_inv_alt save_bans_state)

lemma ban_inv_run: "ban_inv lc st \<Longrightarrow> ban_inv lc (ban_run lc to_json h st)"
  unfolding ban_run_def by (induction h arbitrary: st) (simp_all add: ban_inv_step)

lemma ban_inv_new: "ban_inv lc (storage_new f)"
  by (auto simp: ban_inv_def storage_new_def bans_def split: ban_target.splits)

text \<open>A step leaves a ban that it does not touch and that is still in force.\<close>

lemma ban_step_keeps:
  assumes "ban_inv lc st" "bans st k = Some e" "\<not> is_expired now e" "\<not> touches lc k op"
  shows "bans (ban_step lc to_json (now, io, op) st) k = Some e"
proof -
  have "bans (snd (check_player lc now ip n u st)) k = Some e" for ip n u
    using assms(2,3) by (rule_tac check_player_state [where P = "\<lambda>st. bans st k = Some e"]) (auto simp: ban_simps)
  with assms show ?thesis
    by (cases op) (auto simp: ban_step_def touches_def ban_simps purge_bans save_bans_state)
qed

lemma ban_run_keeps:
  assumes "ban_inv lc st" "bans st k = Some e" "\<not> is_expired t e"
    and "\<forall>(now, io, op) \<in> set h. now \<le> t \<and> \<not> touches lc k op"
  shows "bans (ban_run lc to_json h st) k = Some e"
  using assms
proof (induction h arbitrary: st)
  case (Cons x h)
  obtain now io op where x: "x = (now, io, op)" by (cases x) auto
  then have "bans (ban_step lc to_json x st) k = Some e"
    using Cons.prems expired_at_later [of now e t] by (auto intro!: ban_step_keeps)
  then show ?case using Cons ban_inv_step by (auto simp: ban_run_def)
qed (simp add: ban_run_def)



section \<open>What the component promises\<close>

lemma in_force_cong: "bans st k = bans st' k \<Longrightarrow> ban_key lc t = k \<Longrightarrow> in_force lc now st t = in_force lc now st' t"
  by (simp add: in_force_def)

lemma in_force_check_target:
  "now \<le> later \<Longrightarrow> in_force lc later (snd (check_target lc now t st)) t' = in_force lc later st t'"
  using expired_at_later [of now _ later] by (auto simp: in_force_def ban_simps split: option.splits)

lemma in_force_is_banned:
  "now \<le> later \<Longrightarrow> in_force lc later (snd (is_banned lc to_json now io t st)) t' = in_force lc later st t'"
  using expired_at_later [of now _ later] by (auto simp: in_force_def ban_simps split: option.splits)

lemma in_force_check_player:
  "now \<le> later \<Longrightarrow> in_force lc later (snd (check_player lc now ip n u st)) t' = in_force lc later st t'"
  by (rule check_player_state [where P = "\<lambda>st'. in_force lc later st' t' = in_force lc later st t'"])
    (simp_all add: in_force_check_target)

lemma set_expired_keys:
  "distinct (map fst m) \<Longrightarrow> set (expired_keys now m) = {k. \<exists>e. map_of m k = Some e \<and> is_expired now e}"
  by (force simp: expired_keys_def)

lemma purge_count:
  assumes "ban_inv lc st"
  shows "length (expired_keys now (ip_bans st)) + length (expired_keys now (username_bans st)) + length (expired_keys now (uuid_bans st))
    = card {k. \<exists>e. bans st k = Some e \<and> is_expired now e}"
proof -
  have len: "length (expired_keys now m) = card (set (expired_keys now m))" if "distinct (map fst m)" for m :: "('k \<times> ban_entry) list"
  proof -
    have "distinct (expired_keys now m)" using that by (simp add: expired_keys_def distinct_map_filter)
    then show ?thesis by (simp add: distinct_card)
  qed
  let ?A = "BanIp ` set (expired_keys now (ip_bans st))" and ?B = "BanUsername ` set (expired_keys now (username_bans st))"
    and ?C = "BanUuid ` set (expired_keys now (uuid_bans st))"
  have "{k. \<exists>e. bans st k = Some e \<and> is_expired now e} = ?A \<union> ?B \<union> ?C"
  proof (rule set_eqI)
    fix k show "k \<in> {k. \<exists>e. bans st k = Some e \<and> is_expired now e} \<longleftrightarrow> k \<in> ?A \<union> ?B \<union> ?C"
      using assms by (cases k) (auto simp: ban_inv_def bans_def set_expired_keys)
  qed
  moreover have "card (?A \<union> ?B \<union> ?C) = card ?A + card ?B + card ?C"
    by (subst card_Un_disjoint, auto)+
  ultimately show ?thesis
    using assms by (simp add: ban_inv_def len card_image inj_on_def)
qed


text \<open>C9. A ban is enforced until it expires: after it is set, whatever else happens to the storage short
  of another ban or an unban of the same target, and even if nothing could ever be written to the file, every check
  of the player before its expiry refuses them, with this ban or with one that is looked up before it.\<close>

theorem ban_enforced:
  assumes "ban_inv lc st" "\<not> is_expired t e"
    and "\<forall>(now, io, op) \<in> set h. now \<le> t \<and> \<not> touches lc (ban_key lc (ban_target e)) op"
  shows "\<exists>e'. fst (check_player lc t ip n u (ban_run lc to_json h (snd (add_ban lc to_json now io e st)))) = Ok e'
    \<and> (ban_target e = BanIp ip \<longrightarrow> e' = Some e)
    \<and> (\<forall>name. ban_target e = BanUsername name \<and> lc name = lc n \<longrightarrow> e' \<noteq> None)
    \<and> (\<forall>v. ban_target e = BanUuid v \<and> u = Some v \<longrightarrow> e' \<noteq> None)"
proof -
  let ?s = "ban_run lc to_json h (snd (add_ban lc to_json now io e st))"
  have b: "bans ?s (ban_key lc (ban_target e)) = Some e"
    using assms by (intro ban_run_keeps [where t = t]) (auto intro: ban_inv_add simp: add_ban_bans)
  obtain s1 where 1: "check_target lc t (BanIp ip) ?s = (in_force lc t ?s (BanIp ip), s1)"
    using check_target_bans(1) [of lc t "BanIp ip" ?s] by (metis prod.collapse)
  obtain s2 where 2: "check_target lc t (BanUsername n) s1 = (in_force lc t s1 (BanUsername n), s2)"
    using check_target_bans(1) by (metis prod.collapse)
  have f1: "in_force lc t s1 x = in_force lc t ?s x" for x
    using in_force_check_target [of t t lc "BanIp ip" ?s x] 1 by simp
  have f2: "in_force lc t s2 x = in_force lc t ?s x" for x
    using in_force_check_target [of t t lc "BanUsername n" s1 x] 2 f1 by simp
  have "fst (check_player lc t ip n u ?s) = Ok
     (if in_force lc t ?s (BanIp ip) \<noteq> None then in_force lc t ?s (BanIp ip)
      else if in_force lc t ?s (BanUsername n) \<noteq> None then in_force lc t ?s (BanUsername n)
      else case u of None \<Rightarrow> None | Some v \<Rightarrow> in_force lc t ?s (BanUuid v))"
    by (simp add: check_player_alt 1 2 f1 f2 split_beta check_target_bans(1) split: option.splits)
  then show ?thesis using b assms(2) by (auto simp: in_force_def ban_key_def)
qed


definition sample_ban :: ban_entry where
  "sample_ban = ban_entry_new 10 (BanUsername ''bob'') None (Some 90) ''console''"


theorem ban_enforced_witness:
  "fst (check_player id 99 (V4 1) ''bob'' None (ban_run id (\<lambda>_. Err ''disk'') [(50, Persisted, OpPurge)]
     (snd (add_ban id (\<lambda>_. Err ''disk'') 10 Persisted sample_ban (storage_new None))))) \<noteq> Ok None"
  using ban_enforced [of id "storage_new None" 99 sample_ban "[(50, Persisted, OpPurge)]" "V4 1" "''bob''" None
      "\<lambda>_. Err ''disk''" 10 Persisted] ban_inv_new [of id None]
  by (auto simp: sample_ban_def ban_entry_new_def is_expired_def touches_def)

section \<open>What survives a restart\<close>

text \<open>The time that a write and a read leave of an instant.\<close>

definition whole_second :: "nat \<Rightarrow> nat" where "whole_second t = epoch_deserialize (epoch_serialize t)"

lemma whole_second_bounds: "whole_second t \<le> t" "t < whole_second t + nanos_per_sec"
  using div_mult_mod_eq [of t nanos_per_sec] mod_less_divisor [of nanos_per_sec t]
  by (simp_all add: whole_second_def epoch_deserialize_def epoch_serialize_def)

lemma entry_times_times: "entry_times f (entry_times g e) = entry_times (\<lambda>t. f (g t)) e"
  by (simp add: entry_times_def option.map_comp o_def)

lemma file_times_times:
  "file_times epoch_deserialize (file_times epoch_serialize d) =
     \<lparr>file_bans = map (entry_times whole_second) (file_bans d), file_audit_log = map (audit_times whole_second) (file_audit_log d)\<rparr>"
  by (simp add: file_times_def entry_times_times audit_times_def o_def whole_second_def [abs_def])

lemma bans_populate:
  "bans (populate_maps lc es st) = bans st ++ map_of (rev (map (\<lambda>e. (ban_key lc (ban_target e), e)) es))"
  unfolding populate_maps_def
  by (induction es arbitrary: st) (simp_all add: ban_simps map_add_upd_left)

lemma bans_keyed: "bans st = map_of (keyed_bans st)"
proof
  fix k
  have inj: "map_of (map (map_prod f id) xs) (f x) = map_of xs x" if "inj f" for f :: "'k \<Rightarrow> ban_target" and xs x
    using that by (induction xs) (auto simp: inj_eq)
  have out: "map_of (map (map_prod f id) xs) y = None" if "y \<notin> range f" for f :: "'k \<Rightarrow> ban_target" and xs y
    using that by (induction xs) auto
  show "bans st k = map_of (keyed_bans st) k"
    by (cases k) (auto simp: bans_def keyed_bans_def map_add_def inj out inj_on_def image_iff split: option.splits)
qed

lemma keyed_bans_ok:
  assumes "ban_inv lc st"
  shows "distinct (map fst (keyed_bans st))" "(k, e) \<in> set (keyed_bans st) \<Longrightarrow> ban_key lc (ban_target e) = k"
proof -
  have "map fst (keyed_bans st) = map BanIp (map fst (ip_bans st)) @ map BanUsername (map fst (username_bans st)) @ map BanUuid (map fst (uuid_bans st))"
    by (simp add: keyed_bans_def)
  then show d: "distinct (map fst (keyed_bans st))"
    using assms by (auto simp: ban_inv_def distinct_map inj_on_def simp del: map_map)
  show "(k, e) \<in> set (keyed_bans st) \<Longrightarrow> ban_key lc (ban_target e) = k"
    using assms d by (auto simp: ban_inv_def bans_keyed)
qed

lemma bans_new: "bans (storage_new f) = Map.empty"
  by (simp add: bans_def storage_new_def fun_eq_iff split: ban_target.splits)

text \<open>C11. What a successful write leaves in the file, a new process reads back: the same targets are
  banned for the same reasons, and a ban ends with the second in which it was to expire, never later and less than a
  second earlier; given that the JSON library reads what it writes.\<close>

theorem bans_survive_restart:
  assumes "\<forall>d s. to_json d = Ok s \<longrightarrow> from_json s = Ok d" "ban_inv lc st" "persist to_json Persisted st = (Ok (), st')"
  shows "\<exists>st2. load_bans lc from_json None b (storage_new (ban_file st')) = (Ok (), st2)
    \<and> bans st2 = map_option (entry_times whole_second) \<circ> bans st
    \<and> audit_log st2 = map (audit_times whole_second) (audit_log st)
    \<and> (\<forall>t. whole_second t \<le> t \<and> t < whole_second t + nanos_per_sec)"
proof -
  let ?d = "\<lparr>file_bans = map snd (keyed_bans st), file_audit_log = audit_log st\<rparr>"
  have all: "map snd (ip_bans st) @ map snd (username_bans st) @ map snd (uuid_bans st) = map snd (keyed_bans st)"
    by (simp add: keyed_bans_def)
  obtain s where s: "to_json (file_times epoch_serialize ?d) = Ok s" "ban_file st' = Some s"
    using assms(3) by (auto simp: persist_def serialize_all_def Let_def all split: sum.splits)
  have "map (\<lambda>e. (ban_key lc (ban_target e), e)) (map (entry_times whole_second) (map snd (keyed_bans st))) =
      map (map_prod id (entry_times whole_second)) (keyed_bans st)"
    using keyed_bans_ok(2) [OF assms(2)] by (auto simp: entry_times_def)
  moreover have "map_of (rev (map (map_prod id (entry_times whole_second)) (keyed_bans st))) =
      map_of (map (map_prod id (entry_times whole_second)) (keyed_bans st))"
    using keyed_bans_ok(1) [OF assms(2)] by (subst map_of_inject_set) (simp_all add: rev_map [symmetric])
  moreover have "map_of (map (map_prod id f) xs) = map_option f \<circ> map_of xs" for f xs
    by (induction xs) auto
  ultimately have "bans (populate_maps lc (map (entry_times whole_second) (map snd (keyed_bans st))) (storage_new (Some s))) =
      map_option (entry_times whole_second) \<circ> bans st"
    by (simp only: bans_populate bans_new bans_keyed [of st] empty_map_add)
  with s assms(1) show ?thesis
    by (simp add: load_bans_def storage_new_def file_times_times ban_simps whole_second_bounds Let_def)
qed


theorem bans_survive_restart_witness:
  "\<exists>st2. load_bans id (\<lambda>s. if s = ''x'' then Ok \<lparr>file_bans = [entry_times epoch_serialize sample_ban], file_audit_log = []\<rparr> else Err [])
      None True (storage_new (Some ''x'')) = (Ok (), st2) \<and> bans st2 (BanUsername ''bob'') = Some (entry_times whole_second sample_ban)"
proof -
  let ?d = "\<lparr>file_bans = [entry_times epoch_serialize sample_ban], file_audit_log = []\<rparr>"
  let ?to = "\<lambda>d. if d = ?d then Ok ''x'' else Err []" and ?from = "\<lambda>s. if s = ''x'' then Ok ?d else Err []"
  let ?st = "insert_ban id sample_ban (storage_new None)"
  have b: "ban_inv id ?st" "bans ?st (BanUsername ''bob'') = Some sample_ban"
    by (auto simp: ban_inv_def insert_ban_def storage_new_def bans_def sample_ban_def ban_entry_new_def ban_key_def
        split: ban_target.splits if_splits)
  have w: "persist ?to Persisted ?st = (Ok (), ?st\<lparr>ban_file := Some ''x''\<rparr>)"
    by (simp add: persist_def serialize_all_def insert_ban_def storage_new_def sample_ban_def ban_entry_new_def file_times_def)
  have h: "\<forall>d s. ?to d = Ok s \<longrightarrow> ?from s = Ok d" by auto
  from bans_survive_restart [OF h b(1) w, of True]
  obtain st2 where "load_bans id ?from None True (storage_new (Some ''x'')) = (Ok (), st2)"
    "bans st2 = map_option (entry_times whole_second) \<circ> bans ?st" by auto
  then show ?thesis using b(2) by auto
qed

section \<open>The manager and the connected players\<close>

definition matches_target :: "ban_target \<Rightarrow> player_session \<Rightarrow> bool" where
  "matches_target t s = (case t of BanIp ip \<Rightarrow> ps_remote_ip s = ip | BanUsername n \<Rightarrow> ps_username s = n | BanUuid u \<Rightarrow> ps_uuid s = u)"

lemma kick_all_fields:
  "sessions (kick_all ss r) = sessions r" "id_index (kick_all ss r) = id_index r"
  "cells (kick_all ss r) i = (if i \<in> ps_player_id ` set ss then cancel (cells r i) else cells r i)"
proof -
  have "sessions (kick_all ss r) = sessions r \<and> id_index (kick_all ss r) = id_index r \<and>
    cells (kick_all ss r) i = (if i \<in> ps_player_id ` set ss then cancel (cells r i) else cells r i)"
    unfolding kick_all_def by (induction ss arbitrary: r) (auto simp: on_cell_def cancel_def)
  then show "sessions (kick_all ss r) = sessions r" "id_index (kick_all ss r) = id_index r"
    "cells (kick_all ss r) i = (if i \<in> ps_player_id ` set ss then cancel (cells r i) else cells r i)" by blast+
qed

lemma sessions_to_kick_match:
  assumes "registry_reach used r"
  shows "s \<in> set (sessions_to_kick r t) \<Longrightarrow> s \<in> set (registry_all r) \<and> matches_target t s"
    and "s \<in> set (registry_all r) \<Longrightarrow> matches_target t s \<Longrightarrow> \<exists>s' \<in> set (sessions_to_kick r t). (\<forall>n. t \<noteq> BanUsername n) \<longrightarrow> s' = s"
proof -
  have u: "Some s = map_of (sessions r) u \<longleftrightarrow> s \<in> set (registry_all r) \<and> ps_uuid s = u" for u s
    using registry_reach_inv [OF assms] by (force simp: registry_inv_def index_ok_def registry_all_def)
  show "s \<in> set (sessions_to_kick r t) \<Longrightarrow> s \<in> set (registry_all r) \<and> matches_target t s"
    by (auto simp: sessions_to_kick_def matches_target_def find_by_ip_def find_by_username_def find_by_uuid_def registry_get_def
        registry_all_def find_Some_iff2 u [unfolded registry_all_def] simp del: map_of_eq_Some_iff split: ban_target.splits option.splits)
  show "s \<in> set (registry_all r) \<Longrightarrow> matches_target t s \<Longrightarrow> \<exists>s' \<in> set (sessions_to_kick r t). (\<forall>n. t \<noteq> BanUsername n) \<longrightarrow> s' = s"
    by (cases t; cases "find_by_username r (ps_username s)")
      (auto simp: sessions_to_kick_def matches_target_def find_by_ip_def find_by_username_def find_by_uuid_def registry_get_def
        registry_all_def find_None_iff u [unfolded registry_all_def] simp del: map_of_eq_Some_iff split: option.splits)
qed




end
