(* ===== verification/ServerManager.thy ===== *)
theory ServerManager
  imports Config Varint "HOL-Library.AList"
begin

text \<open>
  The server manager (\<open>infrarust_server_manager\<close>): \<open>state.rs\<close>, \<open>provider.rs\<close>, \<open>error.rs\<close>,
  \<open>service.rs\<close> and \<open>monitor.rs\<close>.

  The asynchronous functions run interleaved. Each is cut where it awaits: a definition is
  the part that runs under one lock, and what a provider answers or a timer does is an
  argument of the next part. A waiter (a \<open>oneshot\<close> channel) is a number; \<open>sm_outcomes\<close> holds
  what its receiver gets, once it gets something. Listeners are their ids, and \<open>sm_fired\<close>
  is the list of the calls made to them. Instants are nanoseconds.
\<close>

section \<open>States\<close>

datatype server_state = Online | Sleeping | Starting | Stopping | Crashed | UnknownState

definition is_joinable :: "server_state \<Rightarrow> bool" where "is_joinable s = (s = Online)"
definition is_startable :: "server_state \<Rightarrow> bool" where "is_startable s = (s = Sleeping \<or> s = Crashed)"
definition should_wait :: "server_state \<Rightarrow> bool" where "should_wait s = (s = Starting)"

datatype provider_status = StatusRunning | StatusStopped | StatusStarting | StatusStopping | StatusUnknown

definition state_of_status :: "provider_status \<Rightarrow> server_state" where
  "state_of_status p = (case p of StatusRunning \<Rightarrow> Online | StatusStopped \<Rightarrow> Sleeping | StatusStarting \<Rightarrow> Starting
     | StatusStopping \<Rightarrow> Stopping | StatusUnknown \<Rightarrow> UnknownState)"

datatype sm_error =
    SmServerNotFound string
  | SmInvalidState string server_state string
  | SmStartTimeout string duration
  | SmProvider string string
  | SmHttp string
  | SmProcess io_error_kind
  | SmApiResponse string
  | SmProcessExited string "int option"
  | SmShutdown

section \<open>The service\<close>

type_synonym waiter = nat

datatype wait_outcome = WaitAnswer "sm_error + unit" | WaitClosed | WaitElapsed

record server_entry =
  se_state :: server_state
  se_shutdown_after :: "duration option"
  se_start_timeout :: duration
  se_poll_interval :: duration
  se_last_player_seen :: "nat option"
  se_waiters :: "waiter list"

record sm_service =
  sm_entries :: "(string \<times> server_entry) list"
  sm_listeners :: "u64 list"
  sm_next_listener :: u64
  sm_next_waiter :: waiter
  sm_outcomes :: "waiter \<rightharpoonup> wait_outcome"
  sm_fired :: "(u64 \<times> string \<times> server_state \<times> server_state) list"

definition entry_new :: "duration option \<Rightarrow> duration \<Rightarrow> duration \<Rightarrow> server_entry" where
  "entry_new shutdown_after start_timeout poll_interval =
     \<lparr>se_state = Sleeping, se_shutdown_after = shutdown_after, se_start_timeout = start_timeout,
      se_poll_interval = poll_interval, se_last_player_seen = None, se_waiters = []\<rparr>"

definition entry_of_config :: "server_manager_config \<Rightarrow> server_entry" where
  "entry_of_config c = (case c of
      LocalManager cfg \<Rightarrow> entry_new (lm_shutdown_after cfg) (lm_start_timeout cfg) (5 * 1000000000)
    | Pterodactyl cfg \<Rightarrow> entry_new (am_shutdown_after cfg) (am_start_timeout cfg) (am_poll_interval cfg)
    | Crafty cfg \<Rightarrow> entry_new (am_shutdown_after cfg) (am_start_timeout cfg) (am_poll_interval cfg))"

definition sm_new :: "(string \<times> server_manager_config) list \<Rightarrow> sm_service" where
  "sm_new configs =
     \<lparr>sm_entries = fold (\<lambda>(i, c). AList.update i (entry_of_config c)) configs [],
      sm_listeners = [], sm_next_listener = 1, sm_next_waiter = 0, sm_outcomes = Map.empty, sm_fired = []\<rparr>"

definition sm_get :: "sm_service \<Rightarrow> string \<Rightarrow> server_entry option" where
  "sm_get svc i = map_of (sm_entries svc) i"

definition sm_put :: "string \<Rightarrow> server_entry \<Rightarrow> sm_service \<Rightarrow> sm_service" where
  "sm_put i e svc = svc\<lparr>sm_entries := AList.update i e (sm_entries svc)\<rparr>"

text \<open>Every waiter of a list receives an outcome.\<close>

definition resolve_waiters :: "waiter list \<Rightarrow> wait_outcome \<Rightarrow> sm_service \<Rightarrow> sm_service" where
  "resolve_waiters ws r svc = svc\<lparr>sm_outcomes := fold (\<lambda>w m. m(w \<mapsto> r)) ws (sm_outcomes svc)\<rparr>"

text \<open>Replacing an entry drops the senders of the old one.\<close>

definition register_server ::
  "string \<Rightarrow> duration option \<Rightarrow> duration \<Rightarrow> duration \<Rightarrow> sm_service \<Rightarrow> sm_service" where
  "register_server i shutdown_after start_timeout poll_interval svc =
     (let dropped = (case sm_get svc i of Some e \<Rightarrow> se_waiters e | None \<Rightarrow> [])
      in resolve_waiters dropped WaitClosed (sm_put i (entry_new shutdown_after start_timeout poll_interval) svc))"

definition get_state :: "sm_service \<Rightarrow> string \<Rightarrow> server_state option" where
  "get_state svc i = map_option se_state (sm_get svc i)"

definition get_all_managed :: "sm_service \<Rightarrow> (string \<times> server_state) list" where
  "get_all_managed svc = map (\<lambda>(i, e). (i, se_state e)) (sm_entries svc)"

definition add_on_state_change :: "sm_service \<Rightarrow> u64 \<times> sm_service" where
  "add_on_state_change svc =
     (sm_next_listener svc, svc\<lparr>sm_next_listener := sm_next_listener svc + 1, sm_listeners := sm_listeners svc @ [sm_next_listener svc]\<rparr>)"

definition remove_on_state_change :: "u64 \<Rightarrow> sm_service \<Rightarrow> sm_service" where
  "remove_on_state_change l svc = svc\<lparr>sm_listeners := filter (\<lambda>i. i \<noteq> l) (sm_listeners svc)\<rparr>"

definition fire_state_change :: "string \<Rightarrow> server_state \<Rightarrow> server_state \<Rightarrow> sm_service \<Rightarrow> sm_service" where
  "fire_state_change i old new svc = svc\<lparr>sm_fired := sm_fired svc @ map (\<lambda>l. (l, i, old, new)) (sm_listeners svc)\<rparr>"

definition health_check_server :: "string \<Rightarrow> sm_error + provider_status \<Rightarrow> sm_service \<Rightarrow> sm_service" where
  "health_check_server i status svc =
     (case sm_get svc i of
        None \<Rightarrow> svc
      | Some e \<Rightarrow>
          (case status of
             Err _ \<Rightarrow> svc
           | Ok p \<Rightarrow>
               let new = state_of_status p; svc' = sm_put i (e\<lparr>se_state := new\<rparr>) svc
               in if se_state e \<noteq> new then fire_state_change i (se_state e) new svc' else svc'))"

definition initial_health_check :: "(string \<Rightarrow> sm_error + provider_status) \<Rightarrow> sm_service \<Rightarrow> sm_service" where
  "initial_health_check status svc = fold (\<lambda>i. health_check_server i (status i)) (map fst (sm_entries svc)) svc"

subsection \<open>Starting and stopping\<close>

text \<open>
  \<open>ensure_started\<close> up to its first await: it returns, or it calls the provider's \<open>start\<close> and
  then waits, or it waits at once. The channel of a waiter is made here.
\<close>

datatype ensure_outcome = EnsureReturn "sm_error + unit" | EnsureCallStart waiter duration | EnsureWait waiter duration

definition push_waiter :: "string \<Rightarrow> server_entry \<Rightarrow> sm_service \<Rightarrow> sm_service" where
  "push_waiter i e svc =
     sm_put i (e\<lparr>se_waiters := se_waiters e @ [sm_next_waiter svc]\<rparr>) (svc\<lparr>sm_next_waiter := sm_next_waiter svc + 1\<rparr>)"

definition ensure_started_begin :: "string \<Rightarrow> sm_service \<Rightarrow> ensure_outcome \<times> sm_service" where
  "ensure_started_begin i svc =
     (case sm_get svc i of
        None \<Rightarrow> (EnsureReturn (Err (SmServerNotFound i)), svc)
      | Some e \<Rightarrow>
          (case se_state e of
             Online \<Rightarrow> (EnsureReturn (Ok ()), svc)
           | Stopping \<Rightarrow> (EnsureReturn (Err (SmInvalidState i Stopping ''connect'')), svc)
           | Starting \<Rightarrow> (EnsureWait (sm_next_waiter svc) (se_start_timeout e), push_waiter i e svc)
           | old \<Rightarrow> (EnsureCallStart (sm_next_waiter svc) (se_start_timeout e),
               fire_state_change i old Starting (push_waiter i (e\<lparr>se_state := Starting\<rparr>) svc))))"

text \<open>The provider's \<open>start\<close> failed.\<close>

definition ensure_started_failed :: "string \<Rightarrow> sm_error \<Rightarrow> sm_service \<Rightarrow> (sm_error + unit) \<times> sm_service" where
  "ensure_started_failed i err svc =
     (Err err,
      case sm_get svc i of
        None \<Rightarrow> svc
      | Some e \<Rightarrow>
          resolve_waiters (se_waiters e) (WaitAnswer (Err (SmProvider i ''start failed'')))
            (fire_state_change i Starting Crashed (sm_put i (e\<lparr>se_state := Crashed, se_waiters := []\<rparr>) svc)))"

definition ensure_started_wait :: "string \<Rightarrow> duration \<Rightarrow> wait_outcome \<Rightarrow> sm_error + unit" where
  "ensure_started_wait i timeout r =
     (case r of WaitAnswer result \<Rightarrow> result
      | WaitClosed \<Rightarrow> Err (SmProvider i ''waiter channel closed unexpectedly'')
      | WaitElapsed \<Rightarrow> Err (SmStartTimeout i timeout))"

text \<open>Manual start: the result is then the provider's.\<close>

definition start_server_begin :: "string \<Rightarrow> sm_service \<Rightarrow> (sm_error + unit) \<times> sm_service" where
  "start_server_begin i svc =
     (case sm_get svc i of
        None \<Rightarrow> (Err (SmServerNotFound i), svc)
      | Some e \<Rightarrow>
          if \<not> is_startable (se_state e) then (Err (SmInvalidState i (se_state e) ''start''), svc)
          else (Ok (), fire_state_change i (se_state e) Starting (sm_put i (e\<lparr>se_state := Starting\<rparr>) svc)))"

definition stop_server_begin :: "string \<Rightarrow> sm_service \<Rightarrow> (sm_error + server_state) \<times> sm_service" where
  "stop_server_begin i svc =
     (case sm_get svc i of
        None \<Rightarrow> (Err (SmServerNotFound i), svc)
      | Some e \<Rightarrow> (Ok (se_state e), fire_state_change i (se_state e) Stopping (sm_put i (e\<lparr>se_state := Stopping\<rparr>) svc)))"

definition stop_server_end ::
  "string \<Rightarrow> server_state \<Rightarrow> sm_error + unit \<Rightarrow> sm_service \<Rightarrow> (sm_error + unit) \<times> sm_service" where
  "stop_server_end i old result svc =
     (case result of
        Err err \<Rightarrow>
          (Err err, fire_state_change i Stopping old
             (case sm_get svc i of Some e \<Rightarrow> sm_put i (e\<lparr>se_state := old\<rparr>) svc | None \<Rightarrow> svc))
      | Ok _ \<Rightarrow>
          (Ok (), fire_state_change i Stopping Sleeping
             (case sm_get svc i of
                Some e \<Rightarrow> sm_put i (e\<lparr>se_state := Sleeping, se_last_player_seen := None\<rparr>) svc | None \<Rightarrow> svc)))"

definition update_state :: "string \<Rightarrow> provider_status \<Rightarrow> sm_service \<Rightarrow> (server_state \<times> server_state) option \<times> sm_service" where
  "update_state i status svc =
     (case sm_get svc i of
        None \<Rightarrow> (None, svc)
      | Some e \<Rightarrow>
          let new = state_of_status status; old = se_state e
          in if old = new then (None, svc)
             else (Some (old, new), fire_state_change i old new (sm_put i (e\<lparr>se_state := new\<rparr>) svc)))"

definition notify_waiters :: "string \<Rightarrow> sm_error + unit \<Rightarrow> sm_service \<Rightarrow> sm_service" where
  "notify_waiters i result svc =
     (case sm_get svc i of
        None \<Rightarrow> svc
      | Some e \<Rightarrow>
          resolve_waiters (se_waiters e)
            (WaitAnswer (case result of Ok _ \<Rightarrow> Ok () | Err _ \<Rightarrow> Err (SmProvider i ''server failed to start'')))
            (sm_put i (e\<lparr>se_waiters := []\<rparr>) svc))"

definition get_poll_interval :: "sm_service \<Rightarrow> string \<Rightarrow> duration" where
  "get_poll_interval svc i = (case sm_get svc i of Some e \<Rightarrow> se_poll_interval e | None \<Rightarrow> 5 * 1000000000)"

section \<open>The monitor\<close>

definition monitor_interval :: "bool \<Rightarrow> sm_service \<Rightarrow> string \<Rightarrow> duration" where
  "monitor_interval fast_poll svc i = (if fast_poll then get_poll_interval svc i else get_poll_interval svc i * 6)"

definition check_auto_shutdown :: "string \<Rightarrow> nat \<Rightarrow> nat \<Rightarrow> sm_service \<Rightarrow> bool \<times> sm_service" where
  "check_auto_shutdown i player_count now svc =
     (case sm_get svc i of
        None \<Rightarrow> (False, svc)
      | Some e \<Rightarrow>
          if player_count > 0 then (False, sm_put i (e\<lparr>se_last_player_seen := Some now\<rparr>) svc)
          else case se_shutdown_after e of
              None \<Rightarrow> (False, svc)
            | Some shutdown_after \<Rightarrow>
                (case se_last_player_seen e of
                   None \<Rightarrow> (False, sm_put i (e\<lparr>se_last_player_seen := Some now\<rparr>) svc)
                 | Some last_seen \<Rightarrow> (now - last_seen \<ge> shutdown_after, svc)))"

text \<open>
  One round of \<open>monitor_server\<close> after the provider answered: the transition with its
  waiters and the new polling mode, then whether the server is to be stopped.
\<close>

definition monitor_transition :: "string \<Rightarrow> provider_status \<Rightarrow> bool \<Rightarrow> sm_service \<Rightarrow> bool \<times> sm_service" where
  "monitor_transition i status fast_poll svc =
     (case update_state i status svc of
        (None, svc) \<Rightarrow> (fast_poll, svc)
      | (Some (_, new), svc) \<Rightarrow>
          (case new of
             Online \<Rightarrow> (False, notify_waiters i (Ok ()) svc)
           | Crashed \<Rightarrow> (False, notify_waiters i (Err (SmProcessExited i None)) svc)
           | Sleeping \<Rightarrow> (False, notify_waiters i (Err (SmProcessExited i None)) svc)
           | Starting \<Rightarrow> (True, svc)
           | Stopping \<Rightarrow> (True, svc)
           | UnknownState \<Rightarrow> (fast_poll, svc)))"

definition monitor_observe ::
  "string \<Rightarrow> provider_status \<Rightarrow> nat \<Rightarrow> nat \<Rightarrow> bool \<Rightarrow> sm_service \<Rightarrow> bool \<times> bool \<times> sm_service" where
  "monitor_observe i status player_count now fast_poll svc =
     (let (fast_poll, svc) = monitor_transition i status fast_poll svc
      in if status = StatusRunning
         then let (stop, svc) = check_auto_shutdown i player_count now svc in (fast_poll, stop, svc)
         else (fast_poll, False, svc))"

definition monitor_tick ::
  "string \<Rightarrow> sm_error + provider_status \<Rightarrow> nat \<Rightarrow> nat \<Rightarrow> bool \<Rightarrow> sm_service \<Rightarrow> bool \<times> bool \<times> sm_service" where
  "monitor_tick i answer player_count now fast_poll svc =
     (if get_state svc i = Some Crashed then (fast_poll, False, svc)
      else case answer of
          Err _ \<Rightarrow> (fast_poll, False, svc)
        | Ok status \<Rightarrow> monitor_observe i status player_count now fast_poll svc)"

text \<open>\<open>check_auto_shutdown\<close> when it stops the server; \<open>result\<close> is what the provider answers to \<open>stop\<close>.\<close>

definition auto_stop :: "string \<Rightarrow> sm_error + unit \<Rightarrow> sm_service \<Rightarrow> sm_service" where
  "auto_stop i result svc =
     (case stop_server_begin i svc of (Ok old, svc) \<Rightarrow> snd (stop_server_end i old result svc) | (Err _, svc) \<Rightarrow> svc)"

text \<open>
  A whole round of the loop. Beside the state it keeps the player counts that were taken,
  with their times.
\<close>

definition monitor_round ::
  "string \<Rightarrow> (sm_error + provider_status) \<times> nat \<times> nat \<times> (sm_error + unit) \<Rightarrow> bool \<times> sm_service \<times> (nat \<times> nat) list
     \<Rightarrow> bool \<times> sm_service \<times> (nat \<times> nat) list" where
  "monitor_round i = (\<lambda>(answer, count, now, result) (fast_poll, svc, seen).
     let (fast_poll, stop, svc') = monitor_tick i answer count now fast_poll svc;
         seen = (if get_state svc i \<noteq> Some Crashed \<and> answer = Ok StatusRunning then seen @ [(now, count)] else seen)
     in (fast_poll, if stop then auto_stop i result svc' else svc', seen))"

definition monitor_rounds ::
  "string \<Rightarrow> ((sm_error + provider_status) \<times> nat \<times> nat \<times> (sm_error + unit)) list \<Rightarrow> sm_service
     \<Rightarrow> bool \<times> sm_service \<times> (nat \<times> nat) list" where
  "monitor_rounds i rounds svc = fold (monitor_round i) rounds (False, svc, [])"

section \<open>Histories\<close>

text \<open>
  All interleavings: at any moment any part of any function may run. A part that answers an
  earlier one (\<open>ensure_started_failed\<close>, \<open>stop_server_end\<close>) may run in any state, since
  anything may have happened in between.
\<close>

inductive sm_step :: "sm_service \<Rightarrow> sm_service \<Rightarrow> bool" where
  register: "sm_step svc (register_server i a t p svc)"
| add_listener: "sm_step svc (snd (add_on_state_change svc))"
| remove_listener: "sm_step svc (remove_on_state_change l svc)"
| health: "sm_step svc (health_check_server i status svc)"
| ensure: "sm_step svc (snd (ensure_started_begin i svc))"
| ensure_failed: "sm_step svc (snd (ensure_started_failed i err svc))"
| start: "sm_step svc (snd (start_server_begin i svc))"
| stop: "sm_step svc (snd (stop_server_begin i svc))"
| stopped: "sm_step svc (snd (stop_server_end i old r svc))"
| update: "sm_step svc (snd (update_state i st svc))"
| notify: "sm_step svc (notify_waiters i r svc)"
| shutdown: "sm_step svc (snd (check_auto_shutdown i n now svc))"
| observe: "sm_step svc (snd (snd (monitor_observe i st n now fp svc)))"

definition sm_reach :: "(string \<times> server_manager_config) list \<Rightarrow> sm_service \<Rightarrow> bool" where
  "sm_reach cfg svc = sm_step\<^sup>*\<^sup>* (sm_new cfg) svc"

text \<open>The waiters queued at some server.\<close>

definition queued :: "sm_service \<Rightarrow> waiter \<Rightarrow> string set" where
  "queued svc w = {i. \<exists>e. sm_get svc i = Some e \<and> w \<in> set (se_waiters e)}"

text \<open>
  A waiter handed out is queued at one server, once, or has got its outcome; a number not
  handed out is neither.
\<close>

definition waiter_ok :: "sm_service \<Rightarrow> waiter \<Rightarrow> bool" where
  "waiter_ok svc w \<longleftrightarrow>
     (if w < sm_next_waiter svc
      then (if sm_outcomes svc w = None then \<exists>i. queued svc w = {i} else queued svc w = {})
      else sm_outcomes svc w = None \<and> queued svc w = {})"

definition waiters_inv :: "sm_service \<Rightarrow> bool" where
  "waiters_inv svc \<longleftrightarrow> (\<forall>i e. sm_get svc i = Some e \<longrightarrow> distinct (se_waiters e)) \<and> (\<forall>w. waiter_ok svc w)"

named_theorems sm_simps

lemma sm_get_put [sm_simps]: "sm_get (sm_put i e svc) j = (if j = i then Some e else sm_get svc j)"
  by (simp add: sm_get_def sm_put_def update_conv')

lemma sm_get_other [sm_simps]:
  "sm_get (resolve_waiters ws r svc) i = sm_get svc i" "sm_get (fire_state_change j a b svc) i = sm_get svc i"
  "sm_get (svc\<lparr>sm_next_waiter := n\<rparr>) i = sm_get svc i" "sm_get (snd (add_on_state_change svc)) i = sm_get svc i"
  "sm_get (remove_on_state_change l svc) i = sm_get svc i"
  by (simp_all add: sm_get_def resolve_waiters_def fire_state_change_def add_on_state_change_def remove_on_state_change_def)

lemma outcomes_resolve: "sm_outcomes (resolve_waiters ws r svc) w = (if w \<in> set ws then Some r else sm_outcomes svc w)"
proof -
  have "fold (\<lambda>w m. m(w \<mapsto> r)) ws m w = (if w \<in> set ws then Some r else m w)" for m
    by (induction ws arbitrary: m) auto
  then show ?thesis by (simp add: resolve_waiters_def)
qed

lemma sm_outcomes_other [sm_simps]:
  "sm_outcomes (sm_put i e svc) = sm_outcomes svc" "sm_outcomes (fire_state_change i a b svc) = sm_outcomes svc"
  "sm_next_waiter (sm_put i e svc) = sm_next_waiter svc" "sm_next_waiter (fire_state_change i a b svc) = sm_next_waiter svc"
  "sm_next_waiter (resolve_waiters ws r svc) = sm_next_waiter svc"
  by (simp_all add: sm_put_def fire_state_change_def resolve_waiters_def)

lemma queued_put: "queued (sm_put i e svc) w = (if w \<in> set (se_waiters e) then insert i (queued svc w) else queued svc w - {i})"
  by (auto simp: queued_def sm_simps split: if_splits)

lemma queued_other [sm_simps]:
  "queued (resolve_waiters ws r svc) w = queued svc w" "queued (fire_state_change j a b svc) w = queued svc w"
  "queued (svc\<lparr>sm_next_waiter := n\<rparr>) w = queued svc w"
  by (simp_all add: queued_def sm_simps)

lemma waiter_ok_cong:
  "queued svc' w = queued svc w \<Longrightarrow> sm_outcomes svc' w = sm_outcomes svc w \<Longrightarrow> sm_next_waiter svc' = sm_next_waiter svc
    \<Longrightarrow> waiter_ok svc' w = waiter_ok svc w"
  by (simp add: waiter_ok_def)

lemma waiters_inv_cong:
  assumes "waiters_inv svc" "\<And>i. sm_get svc' i = sm_get svc i" "sm_outcomes svc' = sm_outcomes svc" "sm_next_waiter svc' = sm_next_waiter svc"
  shows "waiters_inv svc'"
proof -
  have "queued svc' w = queued svc w" for w by (simp add: queued_def assms(2))
  then show ?thesis using assms by (simp add: waiters_inv_def waiter_ok_def)
qed

lemma waiters_inv_queued:
  assumes "waiters_inv svc" "sm_get svc i = Some e"
  shows "w \<in> set (se_waiters e) \<Longrightarrow> queued svc w = {i} \<and> w < sm_next_waiter svc \<and> sm_outcomes svc w = None"
    and "w \<notin> set (se_waiters e) \<Longrightarrow> i \<notin> queued svc w"
proof -
  assume "w \<in> set (se_waiters e)"
  then have "i \<in> queued svc w" using assms(2) unfolding queued_def by blast
  moreover have "waiter_ok svc w" using assms(1) by (simp add: waiters_inv_def)
  ultimately show "queued svc w = {i} \<and> w < sm_next_waiter svc \<and> sm_outcomes svc w = None"
    unfolding waiter_ok_def by (cases "w < sm_next_waiter svc"; cases "sm_outcomes svc w = None"; fastforce)
next
  assume "w \<notin> set (se_waiters e)"
  then show "i \<notin> queued svc w" using assms(2) unfolding queued_def by simp
qed

text \<open>The three things an operation does to the waiters of an entry: nothing, add a new one, or resolve them all.\<close>

lemma waiters_inv_keep:
  assumes "waiters_inv svc" "sm_get svc i = Some e" "se_waiters e' = se_waiters e"
  shows "waiters_inv (sm_put i e' svc)"
proof -
  have "queued (sm_put i e' svc) w = queued svc w" for w
    using waiters_inv_queued [OF assms(1,2), of w] assms(3) by (auto simp: queued_put)
  then have "waiter_ok (sm_put i e' svc) w = waiter_ok svc w" for w by (rule waiter_ok_cong) (simp_all add: sm_simps)
  then show ?thesis using assms by (simp add: waiters_inv_def sm_simps)
qed

lemma waiters_inv_push:
  assumes "waiters_inv svc" "sm_get svc i = Some e" "se_waiters e' = se_waiters e"
  shows "waiters_inv (push_waiter i e' svc)"
proof -
  let ?w = "sm_next_waiter svc" and ?s = "push_waiter i e' svc"
  have ok: "waiter_ok svc w" for w using assms(1) by (simp add: waiters_inv_def)
  have fresh: "queued svc ?w = {}" "sm_outcomes svc ?w = None" using ok [of ?w] by (simp_all add: waiter_ok_def)
  have new: "?w \<notin> set (se_waiters e)" using waiters_inv_queued [OF assms(1,2), of ?w] by blast
  have q: "queued ?s w = (if w = ?w then {i} else queued svc w)" for w
    using waiters_inv_queued [OF assms(1,2), of w] assms(3) fresh(1) by (auto simp: push_waiter_def queued_put sm_simps)
  have "waiter_ok ?s w" for w
    using ok [of w] fresh by (simp add: waiter_ok_def q) (simp add: push_waiter_def sm_simps less_Suc_eq)
  moreover have "distinct (se_waiters f)" if "sm_get ?s j = Some f" for j f
    using that assms new by (auto simp: push_waiter_def sm_simps waiters_inv_def split: if_splits)
  ultimately show ?thesis by (simp add: waiters_inv_def)
qed

lemma waiters_inv_resolve:
  assumes "waiters_inv svc" "sm_get svc i = Some e" "se_waiters e' = []"
  shows "waiters_inv (resolve_waiters (se_waiters e) r (sm_put i e' svc))"
proof -
  let ?s = "resolve_waiters (se_waiters e) r (sm_put i e' svc)"
  note q = waiters_inv_queued [OF assms(1,2)]
  have "waiter_ok ?s w" for w
  proof (cases "w \<in> set (se_waiters e)")
    case True
    with q(1) [OF True] assms(3) show ?thesis
      by (simp add: waiter_ok_def queued_put sm_simps outcomes_resolve)
  next
    case False
    with q(2) [OF False] assms(3) have "queued ?s w = queued svc w" by (simp add: queued_put sm_simps)
    then have "waiter_ok ?s w = waiter_ok svc w" using False by (intro waiter_ok_cong) (simp_all add: sm_simps outcomes_resolve)
    then show ?thesis using assms(1) by (simp add: waiters_inv_def)
  qed
  moreover have "distinct (se_waiters f)" if "sm_get ?s j = Some f" for j f
    using that assms by (auto simp: sm_simps waiters_inv_def split: if_splits)
  ultimately show ?thesis by (simp add: waiters_inv_def)
qed


lemma waiters_inv_fire: "waiters_inv (fire_state_change i a b svc) = waiters_inv svc"
  by (auto elim!: waiters_inv_cong simp: sm_simps)

lemma waiters_inv_resolve_fire:
  assumes "waiters_inv svc" "sm_get svc i = Some e" "se_waiters e' = []"
  shows "waiters_inv (resolve_waiters (se_waiters e) r (fire_state_change j a b (sm_put i e' svc)))"
proof -
  have "resolve_waiters ws r (fire_state_change j a b svc') = fire_state_change j a b (resolve_waiters ws r svc')" for ws svc'
    by (simp add: resolve_waiters_def fire_state_change_def)
  then show ?thesis using waiters_inv_resolve [OF assms] by (simp add: waiters_inv_fire)
qed

lemma waiters_inv_update: "waiters_inv svc \<Longrightarrow> waiters_inv (snd (update_state i st svc))"
  by (auto simp: update_state_def Let_def waiters_inv_fire intro: waiters_inv_keep split: option.splits)

lemma waiters_inv_notify: "waiters_inv svc \<Longrightarrow> waiters_inv (notify_waiters i r svc)"
  by (auto simp: notify_waiters_def intro!: waiters_inv_resolve split: option.splits)

lemma waiters_inv_shutdown: "waiters_inv svc \<Longrightarrow> waiters_inv (snd (check_auto_shutdown i n now svc))"
  by (auto simp: check_auto_shutdown_def intro: waiters_inv_keep split: option.splits)

text \<open>What every part of a round keeps, the round keeps.\<close>

lemma monitor_transition_state:
  assumes "P svc" "\<And>st svc. P svc \<Longrightarrow> P (snd (update_state i st svc))" "\<And>r svc. P svc \<Longrightarrow> P (notify_waiters i r svc)"
  shows "P (snd (monitor_transition i st fp svc))"
proof -
  obtain tr s where u: "update_state i st svc = (tr, s)" by fastforce
  then have "P s" using assms(1) assms(2) [of svc st] by simp
  then show ?thesis using assms(3) by (simp add: monitor_transition_def u split: option.split server_state.split prod.split)
qed

lemma monitor_observe_alt:
  "snd (monitor_observe i st n now fp svc) =
     (let svc1 = snd (monitor_transition i st fp svc)
      in if st = StatusRunning then check_auto_shutdown i n now svc1 else (False, svc1))"
  by (simp add: monitor_observe_def Let_def split_beta)

lemma monitor_observe_state:
  assumes "P svc" "\<And>st svc. P svc \<Longrightarrow> P (snd (update_state i st svc))" "\<And>r svc. P svc \<Longrightarrow> P (notify_waiters i r svc)"
    and "\<And>svc. P svc \<Longrightarrow> P (snd (check_auto_shutdown i n now svc))"
  shows "P (snd (snd (monitor_observe i st n now fp svc)))"
proof -
  have "P (snd (monitor_transition i st fp svc))" using assms(1-3) by (rule monitor_transition_state)
  then show ?thesis using assms(4) by (auto simp: monitor_observe_alt Let_def)
qed

lemma waiters_inv_ensure: "waiters_inv svc \<Longrightarrow> waiters_inv (snd (ensure_started_begin i svc))"
  by (auto simp: ensure_started_begin_def waiters_inv_fire intro: waiters_inv_push split: option.split server_state.split)

lemma waiters_inv_register:
  assumes "waiters_inv svc"
  shows "waiters_inv (register_server i a t p svc)"
proof (cases "sm_get svc i")
  case None
  then have "queued (sm_put i (entry_new a t p) svc) w = queued svc w" for w
    by (auto simp: queued_def sm_simps entry_new_def split: if_splits)
  then have "waiter_ok (sm_put i (entry_new a t p) svc) w = waiter_ok svc w" for w by (rule waiter_ok_cong) (simp_all add: sm_simps)
  moreover have "resolve_waiters [] r s = s" for r s by (simp add: resolve_waiters_def)
  ultimately show ?thesis using None assms
    by (auto simp: register_server_def waiters_inv_def sm_simps entry_new_def split: if_splits)
next
  case (Some e)
  then show ?thesis using assms by (auto simp: register_server_def Let_def entry_new_def intro!: waiters_inv_resolve)
qed

lemma waiters_inv_step: "sm_step svc svc' \<Longrightarrow> waiters_inv svc \<Longrightarrow> waiters_inv svc'"
proof (induction rule: sm_step.induct)
  case (observe svc i st n now fp)
  then show ?case
    by (intro monitor_observe_state [where P = waiters_inv]) (simp_all add: waiters_inv_update waiters_inv_notify waiters_inv_shutdown)
next
  case (add_listener svc)
  then show ?case by (rule waiters_inv_cong) (simp_all add: add_on_state_change_def sm_get_def)
next
  case (remove_listener svc l)
  then show ?case by (rule waiters_inv_cong) (simp_all add: remove_on_state_change_def sm_get_def)
next
  case (health svc i status)
  then show ?case
    by (auto simp: health_check_server_def Let_def waiters_inv_fire intro: waiters_inv_keep split: option.split sum.split)
next
  case (ensure_failed svc i err)
  then show ?case by (auto simp: ensure_started_failed_def intro!: waiters_inv_resolve_fire split: option.split)
next
  case (start svc i)
  then show ?case by (auto simp: start_server_begin_def waiters_inv_fire intro: waiters_inv_keep split: option.split)
next
  case (stop svc i)
  then show ?case by (auto simp: stop_server_begin_def waiters_inv_fire intro: waiters_inv_keep split: option.split)
next
  case (stopped svc i old r)
  then show ?case by (auto simp: stop_server_end_def waiters_inv_fire intro: waiters_inv_keep split: option.split sum.split)
qed (simp_all add: waiters_inv_register waiters_inv_ensure waiters_inv_update waiters_inv_notify waiters_inv_shutdown)

lemma sm_new_waiters: "sm_get (sm_new cfg) i = Some e \<Longrightarrow> se_waiters e = []"
proof -
  have "\<forall>i e. map_of (fold (\<lambda>(i, c). AList.update i (entry_of_config c)) cfg al) i = Some e \<longrightarrow> se_waiters e = []"
    if "\<forall>i e. map_of al i = Some e \<longrightarrow> se_waiters e = []" for al
    using that
  proof (induction cfg arbitrary: al)
    case (Cons x cfg)
    have "se_waiters (entry_of_config c) = []" for c
      by (simp add: entry_of_config_def entry_new_def split: server_manager_config.split)
    then have "\<forall>i e. map_of (AList.update (fst x) (entry_of_config (snd x)) al) i = Some e \<longrightarrow> se_waiters e = []"
      using Cons.prems by (simp add: update_conv' del: map_of_eq_Some_iff)
    from Cons.IH [OF this] show ?case by (simp add: split_beta del: map_of_eq_Some_iff)
  qed simp
  from this [of "[]"] show "sm_get (sm_new cfg) i = Some e \<Longrightarrow> se_waiters e = []"
    by (simp add: sm_get_def sm_new_def del: map_of_eq_Some_iff)
qed

lemma waiters_inv_reach: "sm_reach cfg svc \<Longrightarrow> waiters_inv svc"
  unfolding sm_reach_def
proof (induction rule: rtranclp_induct)
  case base
  have "queued (sm_new cfg) w = {}" for w using sm_new_waiters [of cfg] by (auto simp: queued_def)
  moreover have "sm_outcomes (sm_new cfg) = Map.empty" "sm_next_waiter (sm_new cfg) = 0" by (simp_all add: sm_new_def)
  ultimately show ?case using sm_new_waiters [of cfg] by (auto simp: waiters_inv_def waiter_ok_def)
next
  case (step y z)
  then show ?case using waiters_inv_step by blast
qed

lemma outcome_resolve_stable:
  assumes "waiters_inv svc" "sm_get svc i = Some e" "sm_outcomes svc w = Some r" "sm_outcomes svc' = sm_outcomes svc"
  shows "sm_outcomes (resolve_waiters (se_waiters e) r' svc') w = Some r"
  using waiters_inv_queued(1) [OF assms(1,2), of w] assms(3,4) by (auto simp: outcomes_resolve)

lemma outcome_notify:
  "waiters_inv svc \<Longrightarrow> sm_outcomes svc w = Some r \<Longrightarrow> sm_outcomes (notify_waiters i r' svc) w = Some r"
  by (auto simp: notify_waiters_def sm_simps intro!: outcome_resolve_stable split: option.split)

lemma outcome_update: "sm_outcomes (snd (update_state i st svc)) = sm_outcomes svc"
  by (simp add: update_state_def Let_def sm_simps split: option.split)

lemma outcome_shutdown: "sm_outcomes (snd (check_auto_shutdown i n now svc)) = sm_outcomes svc"
  by (simp add: check_auto_shutdown_def Let_def sm_simps split: option.split)

lemma outcome_step: "sm_step svc svc' \<Longrightarrow> waiters_inv svc \<Longrightarrow> sm_outcomes svc w = Some r \<Longrightarrow> sm_outcomes svc' w = Some r"
proof (induction rule: sm_step.induct)
  case (register svc i a t p)
  then show ?case
    by (cases "sm_get svc i") (auto simp: register_server_def outcomes_resolve sm_simps dest: waiters_inv_queued(1))
next
  case (observe svc i st n now fp)
  then have "waiters_inv (snd (snd (monitor_observe i st n now fp svc))) \<and> sm_outcomes (snd (snd (monitor_observe i st n now fp svc))) w = Some r"
    by (intro monitor_observe_state [where P = "\<lambda>s. waiters_inv s \<and> sm_outcomes s w = Some r"])
      (simp_all add: waiters_inv_update waiters_inv_notify waiters_inv_shutdown outcome_notify outcome_update outcome_shutdown)
  then show ?case by blast
next
  case (ensure_failed svc i err)
  then show ?case by (auto simp: ensure_started_failed_def sm_simps intro!: outcome_resolve_stable split: option.split)
qed (auto simp: add_on_state_change_def remove_on_state_change_def health_check_server_def ensure_started_begin_def push_waiter_def
    start_server_begin_def stop_server_begin_def stop_server_end_def outcome_update outcome_notify outcome_shutdown sm_simps Let_def
    split: option.split sum.split server_state.split)

lemma count_list_distinct: "distinct xs \<Longrightarrow> x \<in> set xs \<Longrightarrow> count_list xs x = 1"
  by (induction xs) (auto simp: count_list_0_iff)

text \<open>C13. In every interleaving of starts, stops, polls, notifications and registrations, a
  connection that waits for a server is never lost nor answered twice: it is queued, once, at exactly one server, or
  it has received its outcome, which then never changes.\<close>

theorem waiters_answered_once:
  assumes "sm_reach cfg svc" "w < sm_next_waiter svc" "sm_step\<^sup>*\<^sup>* svc svc'"
  shows "(case sm_outcomes svc w of
      Some r \<Rightarrow> queued svc w = {} \<and> sm_outcomes svc' w = Some r
    | None \<Rightarrow> (\<exists>i e. queued svc w = {i} \<and> sm_get svc i = Some e \<and> count_list (se_waiters e) w = 1))"
proof -
  have inv: "waiters_inv svc" using assms(1) by (rule waiters_inv_reach)
  then have ok: "waiter_ok svc w" by (simp add: waiters_inv_def)
  show ?thesis
  proof (cases "sm_outcomes svc w")
    case None
    with ok assms(2) obtain i where i: "queued svc w = {i}" by (auto simp: waiter_ok_def)
    then obtain e where e: "sm_get svc i = Some e" "w \<in> set (se_waiters e)" by (auto simp: queued_def)
    have "distinct (se_waiters e)" using inv e(1) by (simp add: waiters_inv_def)
    with e(2) have "count_list (se_waiters e) w = 1" by (simp add: count_list_distinct)
    with None i e show ?thesis by auto
  next
    case (Some r)
    have "waiters_inv svc' \<and> sm_outcomes svc' w = Some r"
      using assms(3)
    proof (induction rule: rtranclp_induct)
      case base
      with inv Some show ?case by blast
    next
      case (step y z)
      then show ?case using waiters_inv_step outcome_step by blast
    qed
    then show ?thesis using Some ok assms(2) by (auto simp: waiter_ok_def)
  qed
qed

text \<open>C14. The first poll that finds the provider running after a start lets every waiting connection
  in; one that finds it stopped turns every one of them away; in both cases the queue is empty afterwards.\<close>

theorem poll_releases_waiters:
  assumes "sm_reach cfg svc" "sm_get svc i = Some e" "w \<in> set (se_waiters e)" "se_state e \<in> {Starting, Stopping, UnknownState}"
    and "p \<in> {StatusRunning, StatusStopped}" "monitor_tick i (Ok p) n now fp svc = (fp', stop, svc')"
  shows "\<exists>r. sm_outcomes svc' w = Some r
    \<and> ensure_started_wait i t r = (if p = StatusRunning then Ok () else Err (SmProvider i ''server failed to start''))
    \<and> queued svc' w = {} \<and> get_state svc' i = Some (state_of_status p) \<and> (stop \<longrightarrow> p = StatusRunning \<and> n = 0)"
proof -
  let ?new = "state_of_status p" and ?r = "if p = StatusRunning then Ok () else Err (SmProvider i ''server failed to start'')"
  define s1 where "s1 = resolve_waiters (se_waiters e) (WaitAnswer ?r)
    (sm_put i (e\<lparr>se_state := ?new, se_waiters := []\<rparr>) (fire_state_change i (se_state e) ?new (sm_put i (e\<lparr>se_state := ?new\<rparr>) svc)))"
  have u: "update_state i p svc = (Some (se_state e, ?new), fire_state_change i (se_state e) ?new (sm_put i (e\<lparr>se_state := ?new\<rparr>) svc))"
    using assms(2,4,5) by (auto simp: update_state_def state_of_status_def)
  have m: "monitor_tick i (Ok p) n now fp svc =
      (False, p = StatusRunning \<and> fst (check_auto_shutdown i n now s1), if p = StatusRunning then snd (check_auto_shutdown i n now s1) else s1)"
    using assms(2,4,5)
    by (auto simp: monitor_tick_def get_state_def monitor_observe_def monitor_transition_def u s1_def notify_waiters_def sm_simps state_of_status_def Let_def split_beta)
  have q: "queued svc w = {i}" using waiters_inv_queued [OF waiters_inv_reach [OF assms(1)] assms(2)] assms(3) by blast
  have s1: "sm_outcomes s1 w = Some (WaitAnswer ?r)" "sm_get s1 i = Some (e\<lparr>se_state := ?new, se_waiters := []\<rparr>)" "queued s1 w = {}"
    using assms(3) q by (simp_all add: s1_def outcomes_resolve sm_simps queued_put)
  have a: "get_state (snd (check_auto_shutdown i n now s1)) i = Some ?new" "queued (snd (check_auto_shutdown i n now s1)) w = {}"
    "fst (check_auto_shutdown i n now s1) \<Longrightarrow> n = 0"
    using s1 by (auto simp: check_auto_shutdown_def get_state_def sm_simps queued_put split: option.split if_splits option.split_asm)
  show ?thesis
    using m assms(6) s1 a by (auto simp: outcome_shutdown ensure_started_wait_def get_state_def)
qed


section \<open>Automatic shutdown\<close>

text \<open>
  The idle clock of a server: when it is set, it was set by a count that was taken, and no
  count taken since saw a player.
\<close>

definition idle_since :: "nat \<Rightarrow> (nat \<times> nat) list \<Rightarrow> bool" where
  "idle_since t seen \<longleftrightarrow> (\<exists>before c after. seen = before @ (t, c) # after \<and> (\<forall>(_, n) \<in> set after. n = 0))"

definition clock_ok :: "string \<Rightarrow> sm_service \<Rightarrow> (nat \<times> nat) list \<Rightarrow> bool" where
  "clock_ok i svc seen \<longleftrightarrow> (\<forall>e t. sm_get svc i = Some e \<and> se_last_player_seen e = Some t \<longrightarrow> idle_since t seen)"

lemma idle_since_last: "idle_since t (seen @ [(t, n)])"
  unfolding idle_since_def by force

lemma idle_since_append: "idle_since t seen \<Longrightarrow> idle_since t (seen @ [(u, 0)])"
  unfolding idle_since_def by force

lemma clock_of_entry:
  assumes "clock_ok i svc seen" "\<And>e'. sm_get svc' i = Some e' \<Longrightarrow> \<exists>e. sm_get svc i = Some e \<and> se_last_player_seen e' \<in> {None, se_last_player_seen e}"
  shows "clock_ok i svc' seen"
  using assms unfolding clock_ok_def by (metis empty_iff insert_iff option.distinct(1))

lemma clock_update: "clock_ok i svc seen \<Longrightarrow> clock_ok i (snd (update_state i st svc)) seen"
  by (erule clock_of_entry) (auto simp: update_state_def Let_def sm_simps split: option.splits if_splits)

lemma clock_notify: "clock_ok i svc seen \<Longrightarrow> clock_ok i (notify_waiters i r svc) seen"
  by (erule clock_of_entry) (auto simp: notify_waiters_def sm_simps split: option.splits)

lemma clock_auto_stop: "clock_ok i svc seen \<Longrightarrow> clock_ok i (auto_stop i r svc) seen"
  by (erule clock_of_entry)
    (auto simp: auto_stop_def stop_server_begin_def stop_server_end_def sm_simps split: option.splits sum.splits if_splits)

lemma clock_shutdown:
  assumes "clock_ok i svc seen"
  shows "clock_ok i (snd (check_auto_shutdown i n now svc)) (seen @ [(now, n)])"
proof (cases "sm_get svc i")
  case (Some e)
  then show ?thesis
  proof (cases "n > 0 \<or> (se_shutdown_after e \<noteq> None \<and> se_last_player_seen e = None)")
    case True
    then show ?thesis using Some by (auto simp: check_auto_shutdown_def clock_ok_def sm_simps idle_since_last)
  next
    case False
    then have "n = 0" "snd (check_auto_shutdown i n now svc) = svc" using Some
      by (auto simp: check_auto_shutdown_def split: option.splits)
    then show ?thesis using assms idle_since_append by (auto simp: clock_ok_def)
  qed
qed (simp add: check_auto_shutdown_def clock_ok_def)

lemma clock_round:
  assumes "clock_ok i svc seen"
  shows "case monitor_round i x (fp, svc, seen) of (_, svc', seen') \<Rightarrow> clock_ok i svc' seen'"
proof -
  obtain a n now r where x: "x = (a, n, now, r)" by (cases x) auto
  have t: "clock_ok i (snd (monitor_transition i st fp svc)) seen" for st
    using assms by (intro monitor_transition_state [where P = "\<lambda>s. clock_ok i s seen"]) (simp_all add: clock_update clock_notify)
  have o: "clock_ok i (snd (snd (monitor_observe i StatusRunning n now fp svc))) (seen @ [(now, n)])"
    "st \<noteq> StatusRunning \<Longrightarrow> clock_ok i (snd (snd (monitor_observe i st n now fp svc))) seen" for st
    using clock_shutdown [OF t [of StatusRunning], of n now] t [of st] by (simp_all add: monitor_observe_alt Let_def)
  show ?thesis
    using assms o by (auto simp: x monitor_round_def monitor_tick_def Let_def split_beta intro!: clock_auto_stop split: sum.splits if_splits)
qed

lemma clock_rounds:
  assumes "sm_reach cfg svc" "\<And>e. sm_get svc i = Some e \<Longrightarrow> se_last_player_seen e = None" "monitor_rounds i rounds svc = (fp, svc', seen)"
  shows "clock_ok i svc' seen"
proof -
  have "clock_ok i s sn \<Longrightarrow> fold (monitor_round i) rounds (f, s, sn) = (fp, svc', seen) \<Longrightarrow> clock_ok i svc' seen" for f s sn
  proof (induction rounds arbitrary: f s sn)
    case (Cons x rounds)
    obtain f1 s1 sn1 where 1: "monitor_round i x (f, s, sn) = (f1, s1, sn1)" by (cases "monitor_round i x (f, s, sn)") auto
    with clock_round [OF Cons.prems(1), of x f] have "clock_ok i s1 sn1" by simp
    then show ?case using Cons.IH Cons.prems(2) 1 by simp
  qed simp
  moreover have "clock_ok i svc []" using assms(2) by (fastforce simp: clock_ok_def)
  ultimately show ?thesis using assms(3) by (simp add: monitor_rounds_def)
qed

text \<open>C15. The monitor stops a server on its own only when it found it running without players,
  and the last count that saw a player, or the first one taken, is at least the configured time ago, with no player
  seen in between.\<close>

theorem auto_shutdown_idle:
  assumes "sm_reach cfg svc" "\<forall>e. sm_get svc i = Some e \<longrightarrow> se_last_player_seen e = None"
    and "monitor_rounds i rounds svc = (fp, svc', seen)" "monitor_tick i answer n now fp svc' = (fp'', True, svc'')"
  shows "answer = Ok StatusRunning \<and> n = 0 \<and> (\<exists>e d before t c after. sm_get svc' i = Some e \<and> se_shutdown_after e = Some d
    \<and> seen = before @ (t, c) # after \<and> now - t \<ge> d \<and> (\<forall>(_, m) \<in> set after. m = 0))"
proof -
  have ok: "clock_ok i svc' seen" using clock_rounds assms(1,2,3) by blast
  from assms(4) obtain st where st: "answer = Ok st" "snd (monitor_observe i st n now fp svc') = (True, svc'')"
    by (auto simp: monitor_tick_def split: sum.splits if_splits)
  define s1 where "s1 = snd (monitor_transition i st fp svc')"
  from st(2) have run: "st = StatusRunning" "fst (check_auto_shutdown i n now s1)"
    by (auto simp: monitor_observe_alt s1_def Let_def split: if_splits)
  then obtain e1 d t where e1: "sm_get s1 i = Some e1" "n = 0" "se_shutdown_after e1 = Some d" "se_last_player_seen e1 = Some t" "now - t \<ge> d"
    by (auto simp: check_auto_shutdown_def split: option.splits if_splits)
  have "\<exists>e. sm_get svc' i = Some e \<and> se_shutdown_after e = se_shutdown_after e1 \<and> se_last_player_seen e = se_last_player_seen e1"
    using e1(1) by (auto simp: s1_def monitor_transition_def update_state_def notify_waiters_def sm_simps Let_def
        split: option.splits server_state.splits if_splits)
  then obtain e where e: "sm_get svc' i = Some e" "se_shutdown_after e = Some d" "se_last_player_seen e = Some t" using e1 by auto
  then have "idle_since t seen" using ok by (auto simp: clock_ok_def)
  then show ?thesis using st run e e1 unfolding idle_since_def by blast
qed


section \<open>Examples\<close>

definition sample_service :: sm_service where
  "sample_service = sm_new [(''hub'', LocalManager \<lparr>lm_command = ''java'', lm_working_dir = ''srv'', lm_args = [],
     lm_ready_pattern = ''Done'', lm_shutdown_timeout = 9, lm_shutdown_after = Some 60, lm_start_timeout = 30\<rparr>)]"

definition waiting_service :: sm_service where
  "waiting_service = snd (ensure_started_begin ''hub'' sample_service)"

lemma sample_reach: "sm_step\<^sup>*\<^sup>* sample_service waiting_service"
    "sm_reach [(''hub'', LocalManager \<lparr>lm_command = ''java'', lm_working_dir = ''srv'', lm_args = [],
     lm_ready_pattern = ''Done'', lm_shutdown_timeout = 9, lm_shutdown_after = Some 60, lm_start_timeout = 30\<rparr>)] waiting_service"
    "sm_reach [(''hub'', LocalManager \<lparr>lm_command = ''java'', lm_working_dir = ''srv'', lm_args = [],
     lm_ready_pattern = ''Done'', lm_shutdown_timeout = 9, lm_shutdown_after = Some 60, lm_start_timeout = 30\<rparr>)] sample_service"
  by (auto simp: sm_reach_def waiting_service_def sample_service_def intro: sm_step.ensure)

lemma waiting_entry:
  "sm_get waiting_service ''hub'' = Some \<lparr>se_state = Starting, se_shutdown_after = Some 60, se_start_timeout = 30,
     se_poll_interval = 5000000000, se_last_player_seen = None, se_waiters = [0]\<rparr>"
  "sm_next_waiter waiting_service = 1" "sm_outcomes waiting_service 0 = None"
  by (simp_all add: waiting_service_def sample_service_def sm_new_def entry_of_config_def entry_new_def ensure_started_begin_def
      sm_get_def push_waiter_def sm_put_def fire_state_change_def)

text \<open>
  A stop during a start releases no waiter: the stop ends in \<open>Sleeping\<close>, and a poll that finds
  the server stopped then sees no transition.
\<close>

lemma stop_strands_waiters:
  fixes i :: string
  assumes "sm_get svc i = Some e" "se_state e = Starting" "w \<in> set (se_waiters e)" "sm_outcomes svc w = None"
  defines "svc1 \<equiv> snd (stop_server_end i Starting (Ok ()) (snd (stop_server_begin i svc)))"
  shows "sm_outcomes (snd (snd (monitor_tick i (Ok StatusStopped) n now fp svc1))) w = None \<and> i \<in> queued svc1 w"
  using assms(1-4)
  by (auto simp: svc1_def stop_server_begin_def stop_server_end_def monitor_tick_def monitor_observe_def monitor_transition_def
      update_state_def state_of_status_def get_state_def sm_simps queued_def)

theorem waiters_answered_once_witness: "queued waiting_service 0 \<noteq> {}"
  using waiters_answered_once [OF sample_reach(2), of 0 waiting_service] by (auto simp: waiting_entry)

theorem poll_releases_waiters_witness:
  "sm_outcomes (snd (snd (monitor_tick ''hub'' (Ok StatusRunning) 0 7 False waiting_service))) 0 = Some (WaitAnswer (Ok ()))"
proof -
  obtain fp stop svc where m: "monitor_tick ''hub'' (Ok StatusRunning) 0 7 False waiting_service = (fp, stop, svc)" by (metis prod.collapse)
  from poll_releases_waiters [OF sample_reach(2) waiting_entry(1) _ _ _ m, of 0 30] obtain r where
    "sm_outcomes svc 0 = Some r" "ensure_started_wait ''hub'' 30 r = Ok ()" by auto
  then show ?thesis by (cases r) (simp_all add: m ensure_started_wait_def)
qed

theorem auto_shutdown_idle_witness:
  "\<exists>fp svc seen. monitor_rounds ''hub'' [(Ok StatusRunning, 2, 100, Ok ()), (Ok StatusRunning, 0, 130, Ok ())] sample_service = (fp, svc, seen)
    \<and> (\<exists>svc'. monitor_tick ''hub'' (Ok StatusRunning) 0 160 fp svc = (False, True, svc')) \<and> (\<exists>before c after. seen = before @ (100, c) # after)"
proof -
  let ?h = "[(Ok StatusRunning, 2, 100, Ok ()), (Ok StatusRunning, 0, 130, Ok ())]"
  obtain fp svc seen where r: "monitor_rounds ''hub'' ?h sample_service = (fp, svc, seen)" by (metis prod.collapse)
  note defs = sample_service_def sm_new_def entry_of_config_def entry_new_def monitor_rounds_def monitor_round_def monitor_tick_def
    monitor_observe_def monitor_transition_def update_state_def state_of_status_def notify_waiters_def check_auto_shutdown_def sm_get_def
    sm_put_def fire_state_change_def resolve_waiters_def get_state_def Let_def
  have seen: "seen = [(100, 2), (130, 0)]" using r by (simp add: defs)
  obtain svc' where t: "monitor_tick ''hub'' (Ok StatusRunning) 0 160 fp svc = (False, True, svc')" using r by (auto simp: defs)
  have n: "\<forall>e. sm_get sample_service ''hub'' = Some e \<longrightarrow> se_last_player_seen e = None" by (simp add: defs)
  from auto_shutdown_idle [OF sample_reach(3) n r t] obtain before u c after where "seen = before @ (u, c) # after" "160 - u \<ge> 60"
    using r by (auto simp: defs)
  moreover from this have "u = 100" using seen by (cases before; cases "tl before") (auto simp: Cons_eq_append_conv)
  ultimately show ?thesis using r t by blast
qed

end
