(* ===== verification/Legacy.thy ===== *)
theory Legacy
  imports Wire
begin

text \<open>
  The protocol of clients before 1.7: \<open>legacy/mod.rs\<close>, \<open>legacy/ping.rs\<close> and
  \<open>legacy/handshake.rs\<close>. Its strings are UTF-16 in big-endian order; the conversions of the
  standard library between UTF-8, scalar values and UTF-16 are written out, with code units
  and scalar values as numbers.
\<close>

section \<open>UTF-16\<close>

definition is_scalar :: "nat \<Rightarrow> bool" where
  "is_scalar n \<longleftrightarrow> n < 0xD800 \<or> (0xE000 \<le> n \<and> n < 0x110000)"

text \<open>The scalar values of a well-formed UTF-8 string, and the bytes of one.\<close>

fun utf8_scalars :: "bytes \<Rightarrow> nat list" where
  "utf8_scalars [] = []"
| "utf8_scalars (b # r) =
     (if b < 0x80 then unat b # utf8_scalars r
      else if b < 0xE0 then
        (case r of b1 # r1 \<Rightarrow> ((unat b - 0xC0) * 64 + (unat b1 - 0x80)) # utf8_scalars r1 | _ \<Rightarrow> [])
      else if b < 0xF0 then
        (case r of b1 # b2 # r2 \<Rightarrow>
             ((unat b - 0xE0) * 4096 + (unat b1 - 0x80) * 64 + (unat b2 - 0x80)) # utf8_scalars r2
         | _ \<Rightarrow> [])
      else
        (case r of b1 # b2 # b3 # r3 \<Rightarrow>
             ((unat b - 0xF0) * 262144 + (unat b1 - 0x80) * 4096 + (unat b2 - 0x80) * 64 + (unat b3 - 0x80)) # utf8_scalars r3
         | _ \<Rightarrow> []))"

definition utf8_char :: "nat \<Rightarrow> bytes" where
  "utf8_char n = map word_of_nat
     (if n < 0x80 then [n]
      else if n < 0x800 then [0xC0 + n div 64, 0x80 + n mod 64]
      else if n < 0x10000 then [0xE0 + n div 4096, 0x80 + n div 64 mod 64, 0x80 + n mod 64]
      else [0xF0 + n div 262144, 0x80 + n div 4096 mod 64, 0x80 + n div 64 mod 64, 0x80 + n mod 64])"

definition utf16_char :: "nat \<Rightarrow> nat list" where
  "utf16_char n = (if n < 0x10000 then [n] else [0xD800 + (n - 0x10000) div 1024, 0xDC00 + (n - 0x10000) mod 1024])"

fun from_utf16 :: "nat list \<Rightarrow> nat list option" where
  "from_utf16 [] = Some []"
| "from_utf16 (u # r) =
     (if u < 0xD800 \<or> 0xE000 \<le> u then map_option ((#) u) (from_utf16 r)
      else if u < 0xDC00 then
        (case r of
           v # r' \<Rightarrow> if 0xDC00 \<le> v \<and> v < 0xE000
                    then map_option ((#) (0x10000 + (u - 0xD800) * 1024 + (v - 0xDC00))) (from_utf16 r') else None
         | [] \<Rightarrow> None)
      else None)"

definition encode_utf16 :: "string \<Rightarrow> nat list" where
  "encode_utf16 s = concat (map utf16_char (utf8_scalars (str_bytes s)))"

definition encode_utf16be :: "string \<Rightarrow> bytes" where
  "encode_utf16be s = concat (map (\<lambda>u. be_bytes 2 (word_of_nat u :: u16)) (encode_utf16 s))"

fun code_units :: "bytes \<Rightarrow> nat list" where
  "code_units (a # b # r) = unat (from_be_bytes [a, b] :: u16) # code_units r"
| "code_units _ = []"

definition decode_utf16be :: "bytes \<Rightarrow> protocol_error + string" where
  "decode_utf16be data =
     (if odd (length data) then Err (Invalid ''UTF-16BE data has odd length'')
      else case from_utf16 (code_units data) of
          Some ns \<Rightarrow> Ok (bytes_str (concat (map utf8_char ns)))
        | None \<Rightarrow> Err (Invalid ''invalid UTF-16BE string''))"

section \<open>Pings and their responses\<close>

datatype legacy_detection = LegacyPing | LegacyLogin | Modern

definition detect :: "u8 \<Rightarrow> legacy_detection" where
  "detect b = (if b = 0xFE then LegacyPing else if b = 0x02 then LegacyLogin else Modern)"

datatype legacy_ping_variant = Beta | PingV1_4 | PingV1_6

record legacy_ping_request =
  lp_variant :: legacy_ping_variant
  lp_hostname :: "string option"
  lp_port :: "i32 option"
  lp_protocol_version :: "u8 option"

record legacy_ping_response =
  lr_protocol_version :: i32
  lr_server_version :: string
  lr_motd :: string
  lr_online_players :: i32
  lr_max_players :: i32

definition build_kick_packet :: "string \<Rightarrow> protocol_error + bytes" where
  "build_kick_packet payload =
     (let encoded = encode_utf16be payload; code_unit_count = length encoded div 2
      in if code_unit_count > 65535 then Err (TooLarge 65535 code_unit_count)
         else Ok (0xFF # be_bytes 2 (word_of_nat code_unit_count :: u16) @ encoded))"

text \<open>The section sign, U+00A7.\<close>

abbreviation section_sign :: string where "section_sign \<equiv> [CHR 0xC2, CHR 0xA7]"

definition build_beta_response :: "legacy_ping_response \<Rightarrow> protocol_error + bytes" where
  "build_beta_response p = build_kick_packet
     (lr_motd p @ section_sign @ show_int (sint (lr_online_players p)) @ section_sign @ show_int (sint (lr_max_players p)))"

definition build_v1_4_response :: "legacy_ping_response \<Rightarrow> protocol_error + bytes" where
  "build_v1_4_response p = build_kick_packet
     (section_sign @ ''1'' @ [CHR 0x00] @ show_int (sint (lr_protocol_version p)) @ [CHR 0x00] @ lr_server_version p @ [CHR 0x00]
       @ lr_motd p @ [CHR 0x00] @ show_int (sint (lr_online_players p)) @ [CHR 0x00] @ show_int (sint (lr_max_players p)))"

text \<open>A big-endian \<open>u16\<close> at a position of the data, as a length.\<close>

definition u16_at :: "bytes \<Rightarrow> nat \<Rightarrow> nat" where
  "u16_at data pos = unat (from_be_bytes [data ! pos, data ! (pos + 1)] :: u16)"

definition i32_at :: "bytes \<Rightarrow> nat \<Rightarrow> i32" where
  "i32_at data pos = from_be_bytes [data ! pos, data ! (pos + 1), data ! (pos + 2), data ! (pos + 3)]"

definition parse_v1_6_ping :: "bytes \<Rightarrow> protocol_error + legacy_ping_request" where
  "parse_v1_6_ping data =
     (if length data < 2 then Err (Invalid ''V1_6 ping: missing channel name length'')
      else let offset = 2 + u16_at data 0 * 2 in
      if length data < offset + 2 then Err (Invalid ''V1_6 ping: truncated channel name'')
      else let pos = offset + 2 in
      if pos \<ge> length data then Err (Invalid ''V1_6 ping: missing protocol version'')
      else let protocol_version = data ! pos; pos = pos + 1 in
      if pos + 2 > length data then Err (Invalid ''V1_6 ping: missing hostname length'')
      else let hostname_bytes = u16_at data pos * 2; pos = pos + 2 in
      if pos + hostname_bytes > length data then Err (Invalid ''V1_6 ping: truncated hostname'')
      else rbind (decode_utf16be (take hostname_bytes (drop pos data))) (\<lambda>hostname.
        let pos = pos + hostname_bytes in
        if pos + 4 > length data then Err (Invalid ''V1_6 ping: missing port'')
        else Ok \<lparr>lp_variant = PingV1_6, lp_hostname = Some hostname, lp_port = Some (i32_at data pos),
                 lp_protocol_version = Some protocol_version\<rparr>))"

definition parse_legacy_ping :: "bytes \<Rightarrow> protocol_error + legacy_ping_request" where
  "parse_legacy_ping data =
     (if data = [] \<or> data ! 0 \<noteq> 0x01 then
        Ok \<lparr>lp_variant = Beta, lp_hostname = None, lp_port = None, lp_protocol_version = None\<rparr>
      else if length data < 2 \<or> data ! 1 \<noteq> 0xFA then
        Ok \<lparr>lp_variant = PingV1_4, lp_hostname = None, lp_port = None, lp_protocol_version = None\<rparr>
      else parse_v1_6_ping (drop 2 data))"

section \<open>Handshakes\<close>

record legacy_handshake_request =
  lh_protocol_version :: u8
  lh_username :: string
  lh_hostname :: string
  lh_port :: i32

definition read_string16 :: "bytes \<Rightarrow> nat \<Rightarrow> string \<Rightarrow> protocol_error + (string \<times> nat)" where
  "read_string16 data pos context =
     (if pos + 2 > length data then Err (Invalid (''legacy handshake: missing '' @ context @ '' length''))
      else let byte_count = u16_at data pos * 2; start = pos + 2
      in if start + byte_count > length data then Err (Invalid (''legacy handshake: truncated '' @ context))
         else rbind (decode_utf16be (take byte_count (drop start data))) (\<lambda>s. Ok (s, start + byte_count)))"

text \<open>\<open>str::split_once\<close>, \<open>str::rsplit_once\<close> and \<open>str::parse::<i32>\<close>.\<close>

definition split_once :: "char \<Rightarrow> string \<Rightarrow> (string \<times> string) option" where
  "split_once c s = (if c \<in> set s then Some (takeWhile (\<lambda>x. x \<noteq> c) s, tl (dropWhile (\<lambda>x. x \<noteq> c) s)) else None)"

definition rsplit_once :: "char \<Rightarrow> string \<Rightarrow> (string \<times> string) option" where
  "rsplit_once c s = map_option (\<lambda>(a, b). (rev b, rev a)) (split_once c (rev s))"

definition is_digit :: "char \<Rightarrow> bool" where
  "is_digit c \<longleftrightarrow> c \<in> set ''0123456789''"

definition digits_value :: "string \<Rightarrow> nat" where
  "digits_value s = foldl (\<lambda>n c. n * 10 + (of_char c - 48)) 0 s"

definition parse_i32 :: "string \<Rightarrow> i32 option" where
  "parse_i32 s =
     (let (neg, ds) = (case s of c # r \<Rightarrow> if c = CHR ''-'' then (True, r) else if c = CHR ''+'' then (False, r) else (False, s) | [] \<Rightarrow> (False, []));
          v = (if neg then - int (digits_value ds) else int (digits_value ds))
      in if ds = [] \<or> \<not> list_all is_digit ds \<or> v < - (2 ^ 31) \<or> v \<ge> 2 ^ 31 then None else Some (word_of_int v))"

definition parse_pre_1_3_connection_string :: "string \<Rightarrow> legacy_handshake_request" where
  "parse_pre_1_3_connection_string s =
     (case split_once (CHR '';'') s of
        Some (username, host_port) \<Rightarrow>
          (case rsplit_once (CHR '':'') host_port of
             Some (hostname, port_str) \<Rightarrow>
               \<lparr>lh_protocol_version = 0, lh_username = username, lh_hostname = hostname,
                lh_port = (case parse_i32 port_str of Some p \<Rightarrow> p | None \<Rightarrow> 25565)\<rparr>
           | None \<Rightarrow> \<lparr>lh_protocol_version = 0, lh_username = username, lh_hostname = host_port, lh_port = 25565\<rparr>)
      | None \<Rightarrow> \<lparr>lh_protocol_version = 0, lh_username = s, lh_hostname = [], lh_port = 25565\<rparr>)"

definition parse_legacy_handshake :: "bytes \<Rightarrow> protocol_error + legacy_handshake_request" where
  "parse_legacy_handshake data =
     (if data = [] then Err (Invalid ''legacy handshake: missing format byte'')
      else if data ! 0 = 0x00 then
        (if length data < 2 then Err (Invalid ''legacy handshake: missing string length'')
         else let byte_count = unat (from_be_bytes [0x00, data ! 1] :: u16) * 2; start = 2
         in if start + byte_count > length data then Err (Invalid ''legacy handshake: truncated connection string'')
            else rbind (decode_utf16be (take byte_count (drop start data))) (\<lambda>connection_string.
              Ok (parse_pre_1_3_connection_string connection_string)))
      else
        rbind (read_string16 data 1 ''username'') (\<lambda>(username, pos).
        rbind (read_string16 data pos ''hostname'') (\<lambda>(hostname, pos).
          if pos + 4 > length data then Err (Invalid ''legacy handshake: missing port'')
          else Ok \<lparr>lh_protocol_version = data ! 0, lh_username = username, lh_hostname = hostname, lh_port = i32_at data pos\<rparr>)))"

definition build_legacy_kick :: "string \<Rightarrow> protocol_error + bytes" where
  "build_legacy_kick reason = build_kick_packet reason"

section \<open>Strings survive\<close>

lemma mod64: "a < 64 \<Longrightarrow> (k * 64 + a) mod 64 = (a :: nat)"
  by simp

lemma word_of_unat: "unat b = k \<Longrightarrow> word_of_nat k = (b :: u8)"
  by (drule sym) simp

lemma utf8_char_2:
  assumes "0xC2 \<le> b" "b \<le> 0xDF" "utf8_cont b1"
  shows "utf8_char ((unat b - 0xC0) * 64 + (unat b1 - 0x80)) = [b, b1] \<and> is_scalar ((unat b - 0xC0) * 64 + (unat b1 - 0x80))"
proof -
  define x a where "x = unat b - 0xC0" and "a = unat b1 - 0x80"
  have n: "2 \<le> x" "x < 32" "a < 64" "unat b = 0xC0 + x" "unat b1 = 0x80 + a"
    using assms by (auto simp: x_def a_def utf8_cont_def word_le_nat_alt)
  have d: "(x * 64 + a) div 64 = x" by (rule div_nat_eqI) (use n in simp_all)
  have "0x80 \<le> x * 64 + a" "x * 64 + a < 0x800" using n(1-3) by linarith+
  then have "utf8_char (x * 64 + a) = map word_of_nat [0xC0 + x, 0x80 + a]" "is_scalar (x * 64 + a)"
    unfolding utf8_char_def is_scalar_def by (simp_all only: d mod64 [OF n(3)] if_False if_True not_less [symmetric] simp_thms, simp_all)
  moreover have "word_of_nat (0xC0 + x) = b" "word_of_nat (0x80 + a) = b1" by (rule word_of_unat n)+
  ultimately show ?thesis unfolding x_def [symmetric] a_def [symmetric] by (simp only: list.map simp_thms)
qed

lemma utf8_char_3:
  assumes "0xE0 \<le> b" "b \<le> 0xEF" "utf8_cont b1" "utf8_cont b2" "b = 0xE0 \<longrightarrow> 0xA0 \<le> b1" "b = 0xED \<longrightarrow> b1 \<le> 0x9F"
  defines "n \<equiv> (unat b - 0xE0) * 4096 + (unat b1 - 0x80) * 64 + (unat b2 - 0x80)"
  shows "utf8_char n = [b, b1, b2] \<and> is_scalar n"
proof -
  define x y a where "x = unat b - 0xE0" and "y = unat b1 - 0x80" and "a = unat b2 - 0x80"
  have u: "x < 16" "y < 64" "a < 64" "unat b = 0xE0 + x" "unat b1 = 0x80 + y" "unat b2 = 0x80 + a"
    using assms(1-4) by (auto simp: x_def y_def a_def utf8_cont_def word_le_nat_alt)
  have "x = 0 \<longrightarrow> 32 \<le> y" "x = 13 \<longrightarrow> y < 32"
    using assms(5,6) u by (auto simp: word_le_nat_alt word_unat_eq_iff)
  then have xy: "x = 0 \<and> 32 \<le> y \<or> 1 \<le> x \<and> x \<le> 12 \<or> x = 13 \<and> y < 32 \<or> 14 \<le> x" by linarith
  have n: "n = x * 4096 + y * 64 + a" "n = (x * 64 + y) * 64 + a" by (simp_all add: n_def x_def y_def a_def)
  have r: "\<not> n < 0x80" "\<not> n < 0x800" "n < 0x10000" using xy u(1-3) unfolding n(1) by linarith+
  have "n < 0xD800 \<or> 0xE000 \<le> n" using xy u(1-3) unfolding n(1) by linarith
  with r(3) have sc: "is_scalar n" by (auto simp: is_scalar_def)
  have d: "n div 64 = x * 64 + y" "n div 4096 = x" unfolding n(1) by (rule div_nat_eqI; use u(1-3) in simp)+
  have m: "n mod 64 = a" unfolding n(2) by (rule mod64 [OF u(3)])
  have m2: "n div 64 mod 64 = y" unfolding d(1) by (rule mod64 [OF u(2)])
  have "utf8_char n = map word_of_nat [0xE0 + x, 0x80 + y, 0x80 + a]" by (simp only: utf8_char_def r d(2) m m2 if_True if_False)
  moreover have "word_of_nat (0xE0 + x) = b" "word_of_nat (0x80 + y) = b1" "word_of_nat (0x80 + a) = b2" by (rule word_of_unat u)+
  ultimately show ?thesis using sc by (simp only: list.map simp_thms)
qed

lemma utf8_char_4:
  assumes "0xF0 \<le> b" "b \<le> 0xF4" "utf8_cont b1" "utf8_cont b2" "utf8_cont b3" "b = 0xF0 \<longrightarrow> 0x90 \<le> b1" "b = 0xF4 \<longrightarrow> b1 \<le> 0x8F"
  defines "n \<equiv> (unat b - 0xF0) * 262144 + (unat b1 - 0x80) * 4096 + (unat b2 - 0x80) * 64 + (unat b3 - 0x80)"
  shows "utf8_char n = [b, b1, b2, b3] \<and> is_scalar n"
proof -
  define x y z a where "x = unat b - 0xF0" and "y = unat b1 - 0x80" and "z = unat b2 - 0x80" and "a = unat b3 - 0x80"
  have u: "x < 5" "y < 64" "z < 64" "a < 64" "unat b = 0xF0 + x" "unat b1 = 0x80 + y" "unat b2 = 0x80 + z" "unat b3 = 0x80 + a"
    using assms(1-5) by (auto simp: x_def y_def z_def a_def utf8_cont_def word_le_nat_alt)
  have xy: "x = 0 \<longrightarrow> 16 \<le> y" "x = 4 \<longrightarrow> y < 16"
    using assms(6,7) u by (auto simp: word_le_nat_alt word_unat_eq_iff)
  have n: "n = x * 262144 + y * 4096 + z * 64 + a" "n = ((x * 64 + y) * 64 + z) * 64 + a" by (simp_all add: n_def x_def y_def z_def a_def)
  have r: "\<not> n < 0x80" "\<not> n < 0x800" "\<not> n < 0x10000" "n < 0x110000" using xy u(1-4) unfolding n(1) by linarith+
  then have sc: "is_scalar n" by (simp add: is_scalar_def)
  have d: "n div 64 = (x * 64 + y) * 64 + z" "n div 4096 = x * 64 + y" "n div 262144 = x"
    unfolding n(1) by (rule div_nat_eqI; use u(1-4) in simp)+
  have m: "n mod 64 = a" unfolding n(2) by (rule mod64 [OF u(4)])
  have m2: "n div 64 mod 64 = z" unfolding d(1) by (rule mod64 [OF u(3)])
  have m3: "n div 4096 mod 64 = y" unfolding d(2) by (rule mod64 [OF u(2)])
  have "utf8_char n = map word_of_nat [0xF0 + x, 0x80 + y, 0x80 + z, 0x80 + a]" by (simp only: utf8_char_def r d(3) m m2 m3 if_False)
  moreover have "word_of_nat (0xF0 + x) = b" "word_of_nat (0x80 + y) = b1" "word_of_nat (0x80 + z) = b2" "word_of_nat (0x80 + a) = b3"
    by (rule word_of_unat u)+
  ultimately show ?thesis using sc by (simp only: list.map simp_thms)
qed

lemma utf8_ranges:
  fixes b :: u8
  shows "0xC2 \<le> b \<Longrightarrow> b \<le> 0xDF \<Longrightarrow> \<not> b < 0x80 \<and> b < 0xE0"
    "0xE0 \<le> b \<Longrightarrow> b \<le> 0xEF \<Longrightarrow> \<not> b < 0x80 \<and> \<not> b < 0xE0 \<and> b < 0xF0"
    "0xF0 \<le> b \<Longrightarrow> \<not> b < 0x80 \<and> \<not> b < 0xE0 \<and> \<not> b < 0xF0"
  by (simp_all add: word_le_nat_alt word_less_nat_alt)

lemma utf8_scalars_sound:
  assumes "valid_utf8 bs"
  shows "concat (map utf8_char (utf8_scalars bs)) = bs \<and> list_all is_scalar (utf8_scalars bs)"
  using assms
proof (induction bs rule: valid_utf8.induct)
  case (2 b r)
  show ?case
  proof (cases "b < 0x80")
    case True
    then have "unat b < 0x80" by (simp add: word_less_nat_alt)
    then have "utf8_char (unat b) = [b]" "is_scalar (unat b)" by (simp_all add: utf8_char_def is_scalar_def)
    with True "2.IH"(1) "2.prems" show ?thesis by simp
  next
    case b: False
    show ?thesis
    proof (cases "0xC2 \<le> b \<and> b \<le> 0xDF")
      case True
      then obtain b1 r1 where r: "r = b1 # r1" "utf8_cont b1" "valid_utf8 r1" using "2.prems" b by (cases r) simp_all
      note u = utf8_char_2 [OF True [THEN conjunct1] True [THEN conjunct2] r(2)]
      from "2.IH"(2) [OF b True r(1)] r(3) utf8_ranges(1) True u show ?thesis by (simp add: r(1))
    next
      case c: False
      show ?thesis
      proof (cases "0xE0 \<le> b \<and> b \<le> 0xEF")
        case True
        then obtain b1 b2 r2 where r: "r = b1 # b2 # r2" "utf8_cont b1" "utf8_cont b2" "b = 0xE0 \<longrightarrow> 0xA0 \<le> b1" "b = 0xED \<longrightarrow> b1 \<le> 0x9F" "valid_utf8 r2"
          using "2.prems" b c by (cases r; cases "tl r") simp_all
        note u = utf8_char_3 [OF True [THEN conjunct1] True [THEN conjunct2] r(2-5)]
        from "2.IH"(3) [OF b c True r(1) refl] r(6) utf8_ranges(2) True u show ?thesis by (simp add: r(1))
      next
        case d: False
        then have f: "0xF0 \<le> b \<and> b \<le> 0xF4" using "2.prems" b c by (simp split: if_splits)
        then obtain b1 b2 b3 r3 where r: "r = b1 # b2 # b3 # r3" "utf8_cont b1" "utf8_cont b2" "utf8_cont b3"
            "b = 0xF0 \<longrightarrow> 0x90 \<le> b1" "b = 0xF4 \<longrightarrow> b1 \<le> 0x8F" "valid_utf8 r3"
          using "2.prems" b c d by (cases r; cases "tl r"; cases "tl (tl r)") simp_all
        note u = utf8_char_4 [OF f [THEN conjunct1] f [THEN conjunct2] r(2-6)]
        from "2.IH"(4) [OF b c d f r(1) refl refl] r(7) utf8_ranges(3) f u show ?thesis by (simp add: r(1))
      qed
    qed
  qed
qed simp


lemma utf16_char_bound: "is_scalar n \<Longrightarrow> u \<in> set (utf16_char n) \<Longrightarrow> u < 65536"
  using div_le_mono [of "n - 65536" 1048575 1024] mod_less_divisor [of 1024 "n - 65536"]
  by (cases "n < 0x10000") (auto simp: is_scalar_def utf16_char_def)

lemma from_utf16_char:
  assumes "is_scalar n"
  shows "from_utf16 (utf16_char n @ us) = map_option ((#) n) (from_utf16 us)"
proof (cases "n < 0x10000")
  case True
  then show ?thesis using assms by (auto simp: utf16_char_def is_scalar_def)
next
  case False
  define m where "m = n - 0x10000"
  have m: "m < 0x100000" "n = 0x10000 + m" using False assms by (auto simp: m_def is_scalar_def)
  have h: "m div 1024 < 1024" using m(1) by (simp add: less_mult_imp_div_less)
  have e: "0x10000 + (m div 1024 * 1024 + m mod 1024) = n" using m(2) by simp
  have "utf16_char n = [0xD800 + m div 1024, 0xDC00 + m mod 1024]" using False by (simp add: utf16_char_def m_def)
  moreover have "0x10000 + (0xD800 + m div 1024 - 0xD800) * 1024 + (0xDC00 + m mod 1024 - 0xDC00) = n" using e by simp
  ultimately show ?thesis using h by (simp del: div_mult_mod_eq)
qed

lemma from_utf16_scalars: "list_all is_scalar ns \<Longrightarrow> from_utf16 (concat (map utf16_char ns)) = Some ns"
  by (induction ns) (simp_all add: from_utf16_char)

lemma code_units_be: "\<forall>u \<in> set us. u < 65536 \<Longrightarrow> code_units (concat (map (\<lambda>u. be_bytes 2 (word_of_nat u :: u16)) us)) = us"
proof (induction us)
  case (Cons u us)
  obtain a b where ab: "be_bytes 2 (word_of_nat u :: u16) = [a, b]"
    by (metis (no_types, opaque_lifting) One_nat_def Suc_1 length_0_conv length_Suc_conv length_be_bytes)
  have "from_be_bytes [a, b] = (word_of_nat u :: u16)" using from_be_be_bytes [of 2 "word_of_nat u :: u16"] ab by simp
  then show ?case using Cons ab by (simp add: unat_of_nat take_bit_eq_mod)
qed simp

lemma utf16_units_bound: "rust_string s \<Longrightarrow> \<forall>u \<in> set (encode_utf16 s). u < 65536"
  using utf8_scalars_sound [of "str_bytes s"] by (auto simp: encode_utf16_def rust_string_def list_all_iff utf16_char_bound)

lemma length_encode_utf16be: "length (encode_utf16be s) = 2 * length (encode_utf16 s)"
proof -
  have "length (concat (map (\<lambda>u. be_bytes 2 (word_of_nat u :: u16)) us)) = 2 * length us" for us by (induction us) simp_all
  then show ?thesis by (simp add: encode_utf16be_def)
qed

lemma decode_encode_utf16be: "rust_string s \<Longrightarrow> decode_utf16be (encode_utf16be s) = Ok s"
  using utf8_scalars_sound [of "str_bytes s"] code_units_be [OF utf16_units_bound [of s]] from_utf16_scalars [of "utf8_scalars (str_bytes s)"]
  by (simp add: decode_utf16be_def length_encode_utf16be encode_utf16be_def [symmetric]) (simp add: encode_utf16_def rust_string_def)

text \<open>A length-prefixed string on the wire, and the requests that clients send.\<close>

definition string16 :: "string \<Rightarrow> bytes" where
  "string16 s = be_bytes 2 (word_of_nat (length (encode_utf16 s)) :: u16) @ encode_utf16be s"

definition legacy_string :: "string \<Rightarrow> bool" where
  "legacy_string s \<longleftrightarrow> rust_string s \<and> length (encode_utf16 s) < 65536"

lemma u16_at_append:
  fixes w :: u16
  assumes "n = length p"
  shows "u16_at (p @ be_bytes 2 w @ r) n = unat w"
proof -
  obtain a b where ab: "be_bytes 2 w = [a, b]"
    by (metis (no_types, opaque_lifting) One_nat_def Suc_1 length_0_conv length_Suc_conv length_be_bytes)
  then show ?thesis using from_be_be_bytes [of 2 w] assms by (simp add: u16_at_def nth_append)
qed

lemma i32_at_append:
  assumes "n = length p"
  shows "i32_at (p @ be_bytes 4 w @ r) n = w"
proof -
  have "length (be_bytes 4 w) = Suc (Suc (Suc (Suc 0)))" unfolding length_be_bytes by simp
  then obtain a b c d where e: "be_bytes 4 w = [a, b, c, d]" unfolding length_Suc_conv by blast
  then show ?thesis using from_be_be_bytes [of 4 w] assms by (simp add: i32_at_def nth_append)
qed

lemma read_string16_append:
  assumes "legacy_string s" "n = length p"
  shows "read_string16 (p @ string16 s @ r) n ctx = Ok (s, n + length (string16 s))"
proof -
  have "u16_at (p @ string16 s @ r) n = length (encode_utf16 s)"
    using u16_at_append [OF assms(2), of "word_of_nat (length (encode_utf16 s))" "encode_utf16be s @ r"] assms(1)
    by (simp add: string16_def legacy_string_def unat_of_nat take_bit_eq_mod)
  moreover have "take (length (encode_utf16 s) * 2) (drop (n + 2) (p @ string16 s @ r)) = encode_utf16be s"
    using assms(2) by (simp add: string16_def length_encode_utf16be)
  ultimately show ?thesis
    using assms by (simp add: read_string16_def legacy_string_def decode_encode_utf16be string16_def length_encode_utf16be)
qed


lemma parse_v1_6_ping_wire:
  assumes "legacy_string channel" "legacy_string host"
  shows "parse_v1_6_ping (string16 channel @ be_bytes 2 (len :: u16) @ v # string16 host @ be_bytes 4 port @ r) =
      Ok \<lparr>lp_variant = PingV1_6, lp_hostname = Some host, lp_port = Some port, lp_protocol_version = Some v\<rparr>"
proof -
  define q m where "q = length (string16 channel)" and "m = length (encode_utf16 host)"
  define D where "D = string16 channel @ be_bytes 2 len @ v # string16 host @ be_bytes 4 port @ r"
  have len16: "length (string16 s) = 2 + length (encode_utf16 s) * 2" for s by (simp add: string16_def length_encode_utf16be)
  have lenD: "length D = q + 2 + 1 + 2 + m * 2 + 4 + length r" by (simp add: D_def q_def m_def len16)
  have "u16_at D 0 = length (encode_utf16 channel)"
    using u16_at_append [of 0 "[]" "word_of_nat (length (encode_utf16 channel)) :: u16"
        "encode_utf16be channel @ be_bytes 2 len @ v # string16 host @ be_bytes 4 port @ r"] assms(1)
    by (simp add: D_def string16_def legacy_string_def unat_of_nat take_bit_eq_mod)
  then have c: "2 + u16_at D 0 * 2 = q" by (simp add: q_def len16)
  have h: "u16_at D (q + 2 + 1) = m"
    using u16_at_append [of "q + 2 + 1" "string16 channel @ be_bytes 2 len @ [v]" "word_of_nat m :: u16" "encode_utf16be host @ be_bytes 4 port @ r"] assms(2)
    by (simp add: D_def q_def m_def string16_def [of host] legacy_string_def unat_of_nat take_bit_eq_mod)
  have t: "decode_utf16be (take (m * 2) (drop (q + 2 + 1 + 2) D)) = Ok host"
    using assms(2) by (simp add: D_def q_def m_def string16_def [of host] length_encode_utf16be legacy_string_def decode_encode_utf16be)
  have i: "i32_at D (q + 2 + 1 + 2 + m * 2) = port"
    using i32_at_append [of "q + 2 + 1 + 2 + m * 2" "string16 channel @ be_bytes 2 len @ v # string16 host" port r]
    by (simp add: D_def q_def m_def len16)
  have v: "D ! (q + 2) = v" by (simp add: D_def q_def nth_append)
  have l: "(length D < 2) = False" "(length D < q + 2) = False" "(length D \<le> q + 2) = False" "(length D < q + 2 + 1 + 2) = False"
    "(length D < q + 2 + 1 + 2 + m * 2) = False" "(length D < q + 2 + 1 + 2 + m * 2 + 4) = False" unfolding lenD by simp_all
  show ?thesis
    unfolding D_def [symmetric] parse_v1_6_ping_def Let_def by (simp only: c h t i v l if_False rbind_simps)
qed



end
