(* ===== verification/Pipeline.thy ===== *)
theory Pipeline
  imports Frames Routing Rewrite Bans ServerManager Legacy
begin

text \<open>
  The connection pipeline: \<open>pipeline/\<close>, the middlewares of \<open>middleware/\<close>, and the part of
  \<open>server.rs\<close> that composes them and picks the handler of a connection.

  A connection context holds the bytes already read and what the coming reads of the socket
  give: data, the end (no data), or an error; when the list is exhausted nothing arrives
  until the timeout. The typed \<open>Extensions\<close> map has one optional field per type that is
  stored in it. The state the middlewares share (router, bans, limiters, servers) is the
  \<open>world\<close>; libraries and clocks are fields of \<open>proxy_env\<close>.
\<close>

section \<open>Contexts and middlewares\<close>

datatype middleware_result = Continue | ShortCircuit | Reject string

type_synonym tcp_reads = "(io_error_kind + bytes) list"

record 'net connection_context =
  cx_stream :: tcp_reads
  cx_client_ip :: ip_addr
  cx_buffered :: bytes
  cx_handshake :: "handshake_data option"
  cx_routing :: "'net routing_data option"
  cx_login :: "login_data option"
  cx_legacy :: bool
  cx_span :: bool

definition context_new :: "ip_addr \<Rightarrow> bytes \<Rightarrow> tcp_reads \<Rightarrow> 'net connection_context" where
  "context_new ip buffered stream =
     \<lparr>cx_stream = stream, cx_client_ip = ip, cx_buffered = buffered, cx_handshake = None, cx_routing = None, cx_login = None,
      cx_legacy = False, cx_span = False\<rparr>"

definition require_extension :: "string \<Rightarrow> 'a option \<Rightarrow> core_error + 'a" where
  "require_extension name x = (case x of Some v \<Rightarrow> Ok v | None \<Rightarrow> Err (MissingExtension name))"

record ('net, 'g) world =
  w_router :: "'net domain_router"
  w_bans :: file_ban_storage
  w_login_limiter :: 'g
  w_status_limiter :: 'g
  w_servers :: sm_service

record ('net, 'g) proxy_env =
  pe_lc :: "string \<Rightarrow> string"
  pe_wm :: "string \<Rightarrow> string \<Rightarrow> bool"
  pe_contains :: "'net \<Rightarrow> ip_addr \<Rightarrow> bool"
  pe_show_ip :: "ip_addr \<Rightarrow> string"
  pe_inflate :: "bytes \<Rightarrow> bytes"
  pe_to_json :: "ban_file_data \<Rightarrow> string + string"
  pe_persist :: persist_io
  pe_now :: nat
  pe_check_key :: "ip_addr \<Rightarrow> 'g \<Rightarrow> bool \<times> 'g"
  pe_start :: "string \<Rightarrow> sm_error + unit"
  pe_wait :: "waiter \<Rightarrow> wait_outcome"

type_synonym ('net, 'g) pipe_state = "'net connection_context \<times> ('net, 'g) world"
type_synonym ('net, 'g) middleware = "('net, 'g) pipe_state \<Rightarrow> (core_error + middleware_result) \<times> ('net, 'g) pipe_state"

fun execute :: "('net, 'g) middleware list \<Rightarrow> ('net, 'g) middleware" where
  "execute [] s = (Ok Continue, s)"
| "execute (mw # mws) s =
     (case mw s of
        (Ok Continue, s) \<Rightarrow> execute mws s
      | (Ok ShortCircuit, s) \<Rightarrow> (Ok ShortCircuit, s)
      | (Ok (Reject reason), s) \<Rightarrow> (Ok (Reject reason), s)
      | (Err e, s) \<Rightarrow> (Err e, s))"

section \<open>Reading packets\<close>

datatype read_outcome = ReadPending | ReadFailed io_error_kind | ReadData bytes tcp_reads

definition stream_read :: "nat \<Rightarrow> tcp_reads \<Rightarrow> read_outcome" where
  "stream_read cap s =
     (case s of
        [] \<Rightarrow> ReadPending
      | Inl k # _ \<Rightarrow> ReadFailed k
      | Inr bs # s \<Rightarrow> ReadData (take cap bs) (if length bs \<le> cap then s else Ok (drop cap bs) # s))"

definition reads_size :: "tcp_reads \<Rightarrow> nat" where
  "reads_size s = sum_list (map (\<lambda>x. case x of Inl _ \<Rightarrow> 1 | Inr bs \<Rightarrow> Suc (length bs)) s)"

lemma stream_read_size: "stream_read cap s = ReadData bs s' \<Longrightarrow> cap > 0 \<Longrightarrow> reads_size s' < reads_size s"
  by (auto simp: stream_read_def reads_size_def split: list.splits sum.splits if_splits)

text \<open>
  The loop of the two parsers: decode, or read more. \<open>raw\<close> collects what was queued, and
  \<open>late\<close> is the error when the timeout passes.
\<close>

function read_frame_loop ::
  "(bytes \<Rightarrow> bytes) \<Rightarrow> core_error \<Rightarrow> packet_decoder \<Rightarrow> bytes \<Rightarrow> tcp_reads
     \<Rightarrow> core_error + (packet_frame \<times> packet_decoder \<times> bytes \<times> tcp_reads)" where
  "read_frame_loop inflate late d raw s =
     (case try_next_frame inflate d of
        (Err e, _) \<Rightarrow> Err (ProtocolError e)
      | (Ok (Some frame), d) \<Rightarrow> Ok (frame, d, raw, s)
      | (Ok None, d) \<Rightarrow>
          (case stream_read 1024 s of
             ReadPending \<Rightarrow> Err late
           | ReadFailed k \<Rightarrow> Err (IoError k)
           | ReadData bs s' \<Rightarrow>
               if bs = [] then Err ConnectionClosed
               else read_frame_loop inflate late (queue_bytes bs d) (raw @ bs) s'))"
  by pat_completeness auto
termination
  by (relation "measure (\<lambda>(_, _, _, _, s). reads_size s)") (auto dest: stream_read_size)

declare read_frame_loop.simps [simp del]

text \<open>\<open>{:02X}\<close> of an \<open>i32\<close>.\<close>

fun show_hex :: "nat \<Rightarrow> string" where
  "show_hex n = (let digit = (\<lambda>d. char_of (if d < 10 then 48 + d else 55 + d))
     in if n < 16 then [digit n] else show_hex (n div 16) @ [digit (n mod 16)])"

declare show_hex.simps [simp del]

definition show_id :: "i32 \<Rightarrow> string" where
  "show_id i = (let h = show_hex (unat i) in ''0x'' @ (if length h < 2 then ''0'' @ h else h))"

definition first_byte :: "'net connection_context \<Rightarrow> core_error + (u8 \<times> 'net connection_context)" where
  "first_byte ctx =
     (if cx_buffered ctx = [] then
        (case stream_read 1 (cx_stream ctx) of
           ReadPending \<Rightarrow> Err (Timeout ''handshake read timed out'')
         | ReadFailed k \<Rightarrow> Err (IoError k)
         | ReadData bs s \<Rightarrow>
             if bs = [] then Err ConnectionClosed
             else Ok (hd bs, ctx\<lparr>cx_buffered := cx_buffered ctx @ bs, cx_stream := s\<rparr>))
      else Ok (hd (cx_buffered ctx), ctx))"

definition handshake_parser ::
  "('net, 'g) proxy_env \<Rightarrow> 'net connection_context \<Rightarrow> core_error + (middleware_result \<times> 'net connection_context)" where
  "handshake_parser env ctx =
     rbind (first_byte ctx) (\<lambda>(b, ctx).
     case detect b of
       LegacyPing \<Rightarrow> Ok (ShortCircuit, ctx\<lparr>cx_legacy := True\<rparr>)
     | LegacyLogin \<Rightarrow> Ok (ShortCircuit, ctx\<lparr>cx_legacy := True\<rparr>)
     | Modern \<Rightarrow>
         rbind (read_frame_loop (pe_inflate env) (Timeout ''handshake read timed out'')
                  (queue_bytes (cx_buffered ctx) decoder_new) (cx_buffered ctx) (cx_stream ctx)) (\<lambda>(frame, d, raw, s).
         let remaining = dec_buf d; raw = take (length raw - length remaining) raw;
             ctx = ctx\<lparr>cx_buffered := remaining, cx_stream := s\<rparr>
         in if frame_id frame \<noteq> 0 then Err (ProtocolError (Invalid (''expected handshake (0x00), got '' @ show_id (frame_id frame))))
            else rbind (lift_protocol (s_handshake_decode (frame_payload frame))) (\<lambda>(hs, _).
              let intent = (case hs_next_state hs of Status \<Rightarrow> IntentStatus | Login \<Rightarrow> IntentLogin | _ \<Rightarrow> IntentTransfer)
              in Ok (Continue, ctx\<lparr>cx_handshake := Some
                   \<lparr>hd_domain = pe_lc env (normalize_handshake (hs_server_address hs)), hd_port = hs_server_port hs,
                    hd_protocol_version = sint (hs_protocol_version hs), hd_intent = intent, hd_raw_packets = [raw]\<rparr>\<rparr>))))"

definition login_start_parser ::
  "('net, 'g) proxy_env \<Rightarrow> 'net connection_context \<Rightarrow> core_error + (middleware_result \<times> 'net connection_context)" where
  "login_start_parser env ctx =
     rbind (require_extension ''HandshakeData'' (cx_handshake ctx)) (\<lambda>h.
     let d = (if cx_buffered ctx \<noteq> [] then queue_bytes (cx_buffered ctx) decoder_new else decoder_new)
     in rbind (read_frame_loop (pe_inflate env) ConnectionClosed d (cx_buffered ctx) (cx_stream ctx)) (\<lambda>(frame, d, raw, s).
        if frame_id frame \<noteq> 0 then Err (ProtocolError (Invalid (''expected login start (0x00), got '' @ show_id (frame_id frame))))
        else rbind (lift_protocol (s_login_start_decode (hd_protocol_version h) (frame_payload frame))) (\<lambda>(ls, _).
          let remaining = dec_buf d; raw = take (length raw - length remaining) raw
          in Ok (Continue, ctx\<lparr>cx_login := Some \<lparr>ld_username = ls_name ls, ld_player_uuid = ls_uuid ls\<rparr>,
               cx_handshake := Some (h\<lparr>hd_raw_packets := hd_raw_packets h @ [raw]\<rparr>),
               cx_buffered := remaining, cx_stream := s\<rparr>))))"

section \<open>The middlewares\<close>

text \<open>A middleware that only touches its own connection.\<close>

definition on_context ::
  "('net connection_context \<Rightarrow> core_error + (middleware_result \<times> 'net connection_context)) \<Rightarrow> ('net, 'g) middleware" where
  "on_context f = (\<lambda>(ctx, w). case f ctx of Err e \<Rightarrow> (Err e, ctx, w) | Ok (r, ctx) \<Rightarrow> (Ok r, ctx, w))"

definition ip_filter_mw :: "('net, 'g) proxy_env \<Rightarrow> 'net ip_filter_config option \<Rightarrow> ('net, 'g) middleware" where
  "ip_filter_mw env global_filter = (\<lambda>(ctx, w).
     case global_filter of
       Some f \<Rightarrow> if \<not> is_allowed (pe_contains env) f (cx_client_ip ctx)
                 then (Ok (Reject (''IP '' @ pe_show_ip env (cx_client_ip ctx) @ '' is not allowed'')), ctx, w)
                 else (Ok Continue, ctx, w)
     | None \<Rightarrow> (Ok Continue, ctx, w))"

definition ban_ip_check_mw :: "('net, 'g) proxy_env \<Rightarrow> ('net, 'g) middleware" where
  "ban_ip_check_mw env = (\<lambda>(ctx, w).
     case is_ip_banned (pe_lc env) (pe_to_json env) (pe_now env) (pe_persist env) (cx_client_ip ctx) (w_bans w) of
       (Err e, st) \<Rightarrow> (Err e, ctx, w\<lparr>w_bans := st\<rparr>)
     | (Ok (Some _), st) \<Rightarrow> (Ok ShortCircuit, ctx, w\<lparr>w_bans := st\<rparr>)
     | (Ok None, st) \<Rightarrow> (Ok Continue, ctx, w\<lparr>w_bans := st\<rparr>))"

definition ban_check_mw :: "('net, 'g) proxy_env \<Rightarrow> ('net, 'g) middleware" where
  "ban_check_mw env = (\<lambda>(ctx, w).
     case cx_login ctx of
       None \<Rightarrow> (Ok Continue, ctx, w)
     | Some data \<Rightarrow>
         (case check_player (pe_lc env) (pe_now env) (cx_client_ip ctx) (ld_username data) None (w_bans w) of
            (Err e, st) \<Rightarrow> (Err e, ctx, w\<lparr>w_bans := st\<rparr>)
          | (Ok (Some entry), st) \<Rightarrow> (Ok (Reject (kick_message (pe_now env) entry)), ctx, w\<lparr>w_bans := st\<rparr>)
          | (Ok None, st) \<Rightarrow> (Ok Continue, ctx, w\<lparr>w_bans := st\<rparr>)))"

text \<open>
  The limiter library gets a period and a burst; without a positive period it gives no
  quota and the proxy panics when it starts.
\<close>

definition build_limiter :: "u32 \<Rightarrow> duration \<Rightarrow> (duration \<times> nat) option" where
  "build_limiter max_count window =
     (let n = max (unat max_count) 1; period = window div n in if period = 0 then None else Some (period, n))"

definition rate_limiter_mw :: "('net, 'g) proxy_env \<Rightarrow> bool \<Rightarrow> ('net, 'g) middleware" where
  "rate_limiter_mw env enabled = (\<lambda>(ctx, w).
     if \<not> enabled then (Ok Continue, ctx, w)
     else case cx_handshake ctx of
         None \<Rightarrow> (Ok Continue, ctx, w)
       | Some h \<Rightarrow>
           if hd_intent h = IntentStatus then
             (let (ok, g) = pe_check_key env (cx_client_ip ctx) (w_status_limiter w)
              in (if ok then Ok Continue else Ok (Reject ''Rate limit exceeded''), ctx, w\<lparr>w_status_limiter := g\<rparr>))
           else
             (let (ok, g) = pe_check_key env (cx_client_ip ctx) (w_login_limiter w)
              in (if ok then Ok Continue else Ok (Reject ''Rate limit exceeded''), ctx, w\<lparr>w_login_limiter := g\<rparr>)))"

definition domain_router_mw :: "('net, 'g) proxy_env \<Rightarrow> ('net, 'g) middleware" where
  "domain_router_mw env = (\<lambda>(ctx, w).
     case require_extension ''HandshakeData'' (cx_handshake ctx) of
       Err e \<Rightarrow> (Err e, ctx, w)
     | Ok h \<Rightarrow>
         (case router_resolve (pe_lc env) (pe_wm env) (w_router w) (hd_domain h) of
            None \<Rightarrow> (Ok (Reject (''Unknown server: '' @ hd_domain h)), ctx, w)
          | Some (_, config) \<Rightarrow>
              if (case sc_ip_filter config of Some f \<Rightarrow> \<not> is_allowed (pe_contains env) f (cx_client_ip ctx) | None \<Rightarrow> False)
              then (Ok (Reject (''IP '' @ pe_show_ip env (cx_client_ip ctx) @ '' is not allowed on this server'')), ctx, w)
              else (Ok Continue, ctx\<lparr>cx_routing := Some \<lparr>rd_server_config = config, rd_config_id = effective_id config\<rparr>\<rparr>, w)))"

definition telemetry_mw :: "('net, 'g) middleware" where
  "telemetry_mw = (\<lambda>(ctx, w). (Ok Continue, ctx\<lparr>cx_span := True\<rparr>, w))"

text \<open>
  \<open>ensure_started\<close> as one connection sees it: the provider answers the start it asks for,
  and the waiter it queues gets an outcome.
\<close>

definition ensure_started ::
  "('net, 'g) proxy_env \<Rightarrow> string \<Rightarrow> sm_service \<Rightarrow> (sm_error + unit) \<times> sm_service" where
  "ensure_started env i svc =
     (case ensure_started_begin i svc of
        (EnsureReturn r, svc) \<Rightarrow> (r, svc)
      | (EnsureCallStart wt timeout, svc) \<Rightarrow>
          (case pe_start env i of
             Err e \<Rightarrow> ensure_started_failed i e svc
           | Ok _ \<Rightarrow> (ensure_started_wait i timeout (pe_wait env wt), svc))
      | (EnsureWait wt timeout, svc) \<Rightarrow> (ensure_started_wait i timeout (pe_wait env wt), svc))"

definition server_manager_mw :: "('net, 'g) proxy_env \<Rightarrow> ('net, 'g) middleware" where
  "server_manager_mw env = (\<lambda>(ctx, w).
     case cx_routing ctx of
       None \<Rightarrow> (Ok Continue, ctx, w)
     | Some r \<Rightarrow>
         if sc_server_manager (rd_server_config r) = None then (Ok Continue, ctx, w)
         else let server_id = effective_id (rd_server_config r) in
           case get_state (w_servers w) server_id of
             None \<Rightarrow> (Ok Continue, ctx, w)
           | Some st \<Rightarrow>
               if st = Stopping then (Ok (Reject ''Server is shutting down, please try again later.''), ctx, w)
               else if st \<in> {Sleeping, Crashed, Starting} then
                 (case ensure_started env server_id (w_servers w) of
                    (Ok _, svc) \<Rightarrow> (Ok Continue, ctx, w\<lparr>w_servers := svc\<rparr>)
                  | (Err (SmStartTimeout _ _), svc) \<Rightarrow>
                      (Ok (Reject ''Server failed to start in time. Please try again.''), ctx, w\<lparr>w_servers := svc\<rparr>)
                  | (Err _, svc) \<Rightarrow>
                      (Ok (Reject ''Server is unavailable. Please try again later.''), ctx, w\<lparr>w_servers := svc\<rparr>))
               else (Ok Continue, ctx, w))"

section \<open>From a connection to its handler\<close>

datatype unknown_domain_behavior = DefaultMotd | DropConnection

record 'net pipeline_config =
  pc_ip_filter :: "'net ip_filter_config option"
  pc_rate_limit :: bool
  pc_unknown_domain :: unknown_domain_behavior
  pc_server_manager :: bool

definition common_pipeline :: "('net, 'g) proxy_env \<Rightarrow> 'net pipeline_config \<Rightarrow> ('net, 'g) middleware list" where
  "common_pipeline env cfg =
     [ip_filter_mw env (pc_ip_filter cfg), ban_ip_check_mw env, on_context (handshake_parser env),
      rate_limiter_mw env (pc_rate_limit cfg), domain_router_mw env]"

definition login_pipeline :: "('net, 'g) proxy_env \<Rightarrow> 'net pipeline_config \<Rightarrow> ('net, 'g) middleware list" where
  "login_pipeline env cfg =
     [on_context (login_start_parser env), ban_check_mw env, telemetry_mw]
       @ (if pc_server_manager cfg then [server_manager_mw env] else [])"

datatype connection_end =
    Failed core_error | Closed | Kicked string | ToLegacy | ToStatus | ToTransfer
  | ToOffline | ToClientOnly | ToPassthrough

definition proxy_handler :: "proxy_mode \<Rightarrow> connection_end" where
  "proxy_handler m = (case m of Offline \<Rightarrow> ToOffline | ClientOnly \<Rightarrow> ToClientOnly | _ \<Rightarrow> ToPassthrough)"

definition handle_login ::
  "('net, 'g) proxy_env \<Rightarrow> 'net pipeline_config \<Rightarrow> ('net, 'g) pipe_state \<Rightarrow> connection_end \<times> ('net, 'g) pipe_state" where
  "handle_login env cfg s =
     (case execute (login_pipeline env cfg) s of
        (Err e, s) \<Rightarrow> (Failed e, s)
      | (Ok ShortCircuit, s) \<Rightarrow> (Closed, s)
      | (Ok (Reject msg), s) \<Rightarrow> (Kicked msg, s)
      | (Ok Continue, ctx, w) \<Rightarrow>
          (case require_extension ''RoutingData'' (cx_routing ctx) of
             Err e \<Rightarrow> (Failed e, ctx, w)
           | Ok r \<Rightarrow> (proxy_handler (sc_proxy_mode (rd_server_config r)), ctx\<lparr>cx_span := False\<rparr>, w)))"

definition handle_connection ::
  "('net, 'g) proxy_env \<Rightarrow> 'net pipeline_config \<Rightarrow> ('net, 'g) pipe_state \<Rightarrow> connection_end \<times> ('net, 'g) pipe_state" where
  "handle_connection env cfg s =
     (case execute (common_pipeline env cfg) s of
        (Err e, s) \<Rightarrow> (Failed e, s)
      | (Ok ShortCircuit, ctx, w) \<Rightarrow> (if cx_legacy ctx then ToLegacy else Closed, ctx, w)
      | (Ok (Reject msg), ctx, w) \<Rightarrow>
          (if pc_unknown_domain cfg = DropConnection then Closed
           else if (case cx_handshake ctx of Some h \<Rightarrow> hd_intent h = IntentStatus | None \<Rightarrow> False) then Closed
           else Kicked msg, ctx, w)
      | (Ok Continue, ctx, w) \<Rightarrow>
          (case require_extension ''HandshakeData'' (cx_handshake ctx) of
             Err e \<Rightarrow> (Failed e, ctx, w)
           | Ok h \<Rightarrow>
               (case hd_intent h of
                  IntentStatus \<Rightarrow> (ToStatus, ctx, w)
                | IntentLogin \<Rightarrow> handle_login env cfg (ctx, w)
                | IntentTransfer \<Rightarrow> (ToTransfer, ctx, w))))"

section \<open>What runs of a pipeline keep\<close>

lemma execute_passes:
  "execute (mw # mws) s = (Ok Continue, s') \<longleftrightarrow> (\<exists>s1. mw s = (Ok Continue, s1) \<and> execute mws s1 = (Ok Continue, s'))"
  by (auto split: prod.splits sum.splits middleware_result.splits)

text \<open>A relation that every stage keeps is kept by every pipeline of those stages, wherever it stops.\<close>

locale pipeline_keeps =
  fixes keeps :: "('net, 'g) pipe_state \<Rightarrow> ('net, 'g) pipe_state \<Rightarrow> bool"
    and stage :: "('net, 'g) middleware \<Rightarrow> bool"
  assumes keeps_refl: "keeps s s"
    and keeps_trans: "keeps s t \<Longrightarrow> keeps t u \<Longrightarrow> keeps s u"
    and stage_keeps: "stage mw \<Longrightarrow> mw s = (r, s') \<Longrightarrow> keeps s s'"
begin

lemma execute_keeps: "list_all stage mws \<Longrightarrow> execute mws s = (r, s') \<Longrightarrow> keeps s s'"
proof (induction mws arbitrary: s)
  case (Cons mw mws)
  obtain r1 s1 where 1: "mw s = (r1, s1)" by (cases "mw s")
  with Cons.prems have "keeps s s1" by (auto intro: stage_keeps)
  moreover have "keeps s1 s'"
    using Cons 1 by (auto intro: keeps_refl split: sum.splits middleware_result.splits)
  ultimately show ?case by (rule keeps_trans)
qed (simp add: keeps_refl)

end

text \<open>The address of the client, the routes, and every ban in force from now on.\<close>

definition policy_kept :: "('net, 'g) proxy_env \<Rightarrow> ('net, 'g) pipe_state \<Rightarrow> ('net, 'g) pipe_state \<Rightarrow> bool" where
  "policy_kept env s s' \<longleftrightarrow>
     cx_client_ip (fst s') = cx_client_ip (fst s) \<and> w_router (snd s') = w_router (snd s)
     \<and> (\<forall>t later. pe_now env \<le> later \<longrightarrow>
          in_force (pe_lc env) later (w_bans (snd s')) t = in_force (pe_lc env) later (w_bans (snd s)) t)"

lemma policy_kept_trans: "policy_kept env s t \<Longrightarrow> policy_kept env t u \<Longrightarrow> policy_kept env s u"
  by (simp add: policy_kept_def)

definition proxy_stage :: "('net, 'g) proxy_env \<Rightarrow> ('net, 'g) middleware \<Rightarrow> bool" where
  "proxy_stage env mw \<longleftrightarrow>
     mw \<in> range (ip_filter_mw env) \<union> range (rate_limiter_mw env)
       \<union> {ban_ip_check_mw env, on_context (handshake_parser env), domain_router_mw env,
          on_context (login_start_parser env), ban_check_mw env, telemetry_mw, server_manager_mw env}"

lemma first_byte_ip: "first_byte ctx = Ok (b, ctx') \<Longrightarrow> cx_client_ip ctx' = cx_client_ip ctx"
  by (auto simp: first_byte_def split: if_splits read_outcome.splits)

lemma handshake_parser_ip: "handshake_parser env ctx = Ok (r, ctx') \<Longrightarrow> cx_client_ip ctx' = cx_client_ip ctx"
  by (auto simp: handshake_parser_def rbind_eq_Ok Let_def lift_protocol_eq_Ok dest!: first_byte_ip
      split: legacy_detection.split_asm if_split_asm intro: legacy_detection.exhaust)

lemma login_start_parser_ip: "login_start_parser env ctx = Ok (r, ctx') \<Longrightarrow> cx_client_ip ctx' = cx_client_ip ctx"
  by (auto simp: login_start_parser_def rbind_eq_Ok Let_def lift_protocol_eq_Ok split: if_splits)

lemma policy_kept_context:
  assumes "\<And>ctx r ctx'. f ctx = Ok (r, ctx') \<Longrightarrow> cx_client_ip ctx' = cx_client_ip ctx" "on_context f s = (r, s')"
  shows "policy_kept env s s'"
  using assms(2) by (cases s) (auto simp: on_context_def policy_kept_def dest: assms(1) split: sum.splits)

lemma policy_kept_ban_ip: "ban_ip_check_mw env s = (r, s') \<Longrightarrow> policy_kept env s s'"
  using in_force_is_banned [of "pe_now env" _ "pe_lc env" "pe_to_json env" "pe_persist env" "BanIp (cx_client_ip (fst s))" "w_bans (snd s)"]
  by (cases s) (auto simp: ban_ip_check_mw_def policy_kept_def is_ip_banned_def split: prod.splits sum.splits option.splits)

lemma policy_kept_ban: "ban_check_mw env s = (r, s') \<Longrightarrow> policy_kept env s s'"
  using in_force_check_player [of "pe_now env" _ "pe_lc env" "cx_client_ip (fst s)" "ld_username (the (cx_login (fst s)))" None "w_bans (snd s)"]
  by (cases s) (auto simp: ban_check_mw_def policy_kept_def split: prod.splits sum.splits option.splits)

lemma policy_kept_servers: "server_manager_mw env s = (r, s') \<Longrightarrow> policy_kept env s s'"
  by (cases s) (auto simp: server_manager_mw_def policy_kept_def Let_def
      split: option.splits if_splits prod.splits sum.splits sm_error.splits)

lemma policy_kept_light:
  "ip_filter_mw env f s = (r, s') \<Longrightarrow> policy_kept env s s'"
  "rate_limiter_mw env b s = (r, s') \<Longrightarrow> policy_kept env s s'"
  "domain_router_mw env s = (r, s') \<Longrightarrow> policy_kept env s s'"
  "telemetry_mw s = (r, s') \<Longrightarrow> policy_kept env s s'"
  by (cases s; auto simp: policy_kept_def ip_filter_mw_def rate_limiter_mw_def domain_router_mw_def telemetry_mw_def Let_def
      split: option.split_asm if_split_asm sum.split_asm prod.split_asm)+

lemmas policy_kept_stages = policy_kept_light policy_kept_ban_ip policy_kept_ban policy_kept_servers
  policy_kept_context [where f = "handshake_parser env" for env, OF handshake_parser_ip]
  policy_kept_context [where f = "login_start_parser env" for env, OF login_start_parser_ip]

lemma policy_kept_stage: "proxy_stage env mw \<Longrightarrow> mw s = (r, s') \<Longrightarrow> policy_kept env s s'"
  unfolding proxy_stage_def by (elim UnE rangeE insertE emptyE) (simp_all add: policy_kept_stages)

interpretation pol: pipeline_keeps "policy_kept env" "proxy_stage env" for env
  by unfold_locales (auto simp: policy_kept_def [where s = s and s' = s for s] intro: policy_kept_stage policy_kept_trans)

lemma pipelines_staged: "list_all (proxy_stage env) (common_pipeline env cfg)" "list_all (proxy_stage env) (login_pipeline env cfg)"
  by (simp_all add: proxy_stage_def common_pipeline_def login_pipeline_def)

lemmas common_keeps = pol.execute_keeps [OF pipelines_staged(1)]
lemmas login_keeps = pol.execute_keeps [OF pipelines_staged(2)]

section \<open>What passing a stage means\<close>

named_theorems passes

lemma on_context_passes [passes]:
  "on_context f (ctx, w) = (Ok Continue, s') \<longleftrightarrow> (\<exists>ctx'. f ctx = Ok (Continue, ctx') \<and> s' = (ctx', w))"
  by (auto simp: on_context_def split: sum.splits)

lemma ip_filter_passes [passes]:
  "ip_filter_mw env gf (ctx, w) = (Ok Continue, s') \<longleftrightarrow>
     s' = (ctx, w) \<and> (\<forall>f. gf = Some f \<longrightarrow> is_allowed (pe_contains env) f (cx_client_ip ctx))"
  by (auto simp: ip_filter_mw_def split: option.splits)

lemma ban_ip_passes [passes]:
  "ban_ip_check_mw env (ctx, w) = (Ok Continue, s') \<longleftrightarrow>
     (\<exists>st. is_ip_banned (pe_lc env) (pe_to_json env) (pe_now env) (pe_persist env) (cx_client_ip ctx) (w_bans w) = (Ok None, st)
        \<and> s' = (ctx, w\<lparr>w_bans := st\<rparr>))"
  by (auto simp: ban_ip_check_mw_def split: prod.splits sum.splits option.splits)

lemma rate_limiter_passes:
  "rate_limiter_mw env on (ctx, w) = (Ok Continue, s') \<Longrightarrow> cx_handshake ctx = Some h \<Longrightarrow> fst s' = ctx
     \<and> (on \<longrightarrow> fst (pe_check_key env (cx_client_ip ctx) (if hd_intent h = IntentStatus then w_status_limiter w else w_login_limiter w)))
     \<and> w_servers (snd s') = w_servers w"
  by (auto simp: rate_limiter_mw_def Let_def split: if_splits prod.splits)

lemma domain_router_passes:
  "domain_router_mw env (ctx, w) = (Ok Continue, s') \<longleftrightarrow>
     (\<exists>h pid c. cx_handshake ctx = Some h \<and> router_resolve (pe_lc env) (pe_wm env) (w_router w) (hd_domain h) = Some (pid, c)
        \<and> (\<forall>f. sc_ip_filter c = Some f \<longrightarrow> is_allowed (pe_contains env) f (cx_client_ip ctx))
        \<and> s' = (ctx\<lparr>cx_routing := Some \<lparr>rd_server_config = c, rd_config_id = effective_id c\<rparr>\<rparr>, w))"
  by (auto simp: domain_router_mw_def require_extension_def split: option.splits if_splits)

lemma ban_check_passes:
  "ban_check_mw env (ctx, w) = (Ok Continue, s') \<Longrightarrow> cx_login ctx = Some l \<Longrightarrow>
     fst s' = ctx \<and> w_servers (snd s') = w_servers w
     \<and> fst (check_player (pe_lc env) (pe_now env) (cx_client_ip ctx) (ld_username l) None (w_bans w)) = Ok None"
  by (auto simp: ban_check_mw_def split: prod.splits sum.splits option.splits)

lemma server_manager_context: "server_manager_mw env (ctx, w) = (r, ctx', w') \<Longrightarrow> ctx' = ctx"
  by (auto simp: server_manager_mw_def Let_def split: option.splits if_splits prod.splits sum.splits sm_error.splits)

lemma server_manager_passes:
  "server_manager_mw env (ctx, w) = (Ok Continue, s') \<Longrightarrow> cx_routing ctx = Some r \<Longrightarrow>
     fst s' = ctx \<and>
     (\<forall>st. sc_server_manager (rd_server_config r) \<noteq> None \<longrightarrow> get_state (w_servers w) (effective_id (rd_server_config r)) = Some st \<longrightarrow>
        st \<in> {Online, UnknownState}
        \<or> st \<noteq> Stopping \<and> fst (ensure_started env (effective_id (rd_server_config r)) (w_servers w)) = Ok ())"
  by (auto simp: server_manager_mw_def Let_def split: option.splits if_splits prod.splits sum.splits sm_error.splits
      intro: server_state.exhaust)

text \<open>The two parsers: what they set, and that no received byte is lost or duplicated.\<close>

definition reads_bytes :: "tcp_reads \<Rightarrow> bytes" where
  "reads_bytes s = concat (map (\<lambda>x. case x of Inl _ \<Rightarrow> [] | Inr bs \<Rightarrow> bs) s)"

definition received :: "'net connection_context \<Rightarrow> bytes" where
  "received ctx = (case cx_handshake ctx of Some h \<Rightarrow> concat (hd_raw_packets h) | None \<Rightarrow> []) @ cx_buffered ctx @ reads_bytes (cx_stream ctx)"

lemma stream_read_bytes: "stream_read cap s = ReadData bs s' \<Longrightarrow> reads_bytes s = bs @ reads_bytes s'"
  by (auto simp: stream_read_def reads_bytes_def split: list.splits sum.splits if_splits)

lemma first_byte_Ok:
  "first_byte ctx = Ok (b, ctx') \<Longrightarrow> received ctx' = received ctx \<and> cx_buffered ctx' = b # tl (cx_buffered ctx')
     \<and> cx_handshake ctx' = cx_handshake ctx \<and> cx_legacy ctx' = cx_legacy ctx"
  by (auto simp: first_byte_def received_def neq_Nil_conv dest!: stream_read_bytes split: if_splits read_outcome.splits option.splits)

lemma try_next_frame_suffix: "try_next_frame inflate d = (Ok (Some f), d') \<Longrightarrow> \<exists>p. dec_buf d = p @ dec_buf d' \<and> p \<noteq> []"
proof -
  assume t: "try_next_frame inflate d = (Ok (Some f), d')"
  then have "\<exists>n. dec_buf d' = drop n (dec_buf d)"
    by (cases rule: try_next_frame_cases [where d = d and inflate = inflate]) auto
  then obtain n where n: "dec_buf d' = drop n (dec_buf d)" by blast
  then have "dec_buf d = take n (dec_buf d) @ dec_buf d'" by simp
  moreover have "take n (dec_buf d) \<noteq> []" using try_next_frame_consumes [OF t] n by auto
  ultimately show ?thesis by blast
qed

text \<open>What a frame consumed is a frame by itself.\<close>

lemma varint_decode_partial_loop_incomplete:
  "varint_decode_partial_loop i val p = Inl StatusIncomplete \<Longrightarrow> varint_decode_partial_loop i val (p @ r) = Inr (l, n) \<Longrightarrow>
     length p < n"
proof (induction i val p rule: varint_decode_partial_loop.induct)
  case (1 i val p)
  show ?case
  proof (cases rule: varint_partial_cases [where i = i and buf = p])
    case short
    with varint_decode_partial_loop_Ok [OF "1.prems"(2)] show ?thesis by simp
  next
    case cont
    then have app: "i < length (p @ r)" "(p @ r) ! i AND 0x80 \<noteq> 0" "(p @ r) ! i = p ! i" by (simp_all add: nth_append)
    have rec: "varint_decode_partial_loop (Suc i) (val OR push_bit (i * 7) (ucast (p ! i) AND 0x7F)) p = Inl StatusIncomplete"
      using "1.prems"(1) by (simp only: varint_partial_steps(4) [OF cont])
    have "varint_decode_partial_loop (Suc i) (val OR push_bit (i * 7) (ucast (p ! i) AND 0x7F)) (p @ r) = Inr (l, n)"
      using "1.prems"(2) by (simp only: varint_partial_steps(4) [OF cont(1) app(1,2)] app(3))
    with cont rec show ?thesis by (intro "1.IH" [OF _ _ refl refl]) (simp_all only: not_le not_False_eq_True)
  qed (use "1.prems"(1) in \<open>simp_all only: varint_partial_steps sum.inject varint_decode_status.distinct sum.distinct\<close>)
qed

lemma try_next_frame_prefix:
  assumes "try_next_frame inflate (queue_bytes (p @ r) decoder_new) = (Ok (Some f), d')" "dec_buf d' = r"
  shows "try_next_frame inflate (queue_bytes p decoder_new) = (Ok (Some f), decoder_new)"
proof -
  obtain x e where t: "try_next_frame inflate (queue_bytes p decoder_new) = (x, e)"
    by (cases "try_next_frame inflate (queue_bytes p decoder_new)")
  have "x \<noteq> Ok None"
  proof
    assume x: "x = Ok None"
    from assms(1) obtain l n where cut: "varint_decode_partial (p @ r) = Inr (l, n)" "n + unat l \<le> length (p @ r)"
      "dec_buf d' = drop (n + unat l) (p @ r)"
      by (cases rule: try_next_frame_cases [where d = "queue_bytes (p @ r) decoder_new" and inflate = inflate])
        (auto simp: queue_bytes_def decoder_new_def)
    have len: "length p = n + unat l" using cut(2) arg_cong [OF cut(3), of length] assms(2) by simp
    from t x show False
    proof (cases rule: try_next_frame_cases [where d = "queue_bytes p decoder_new" and inflate = inflate])
      case short
      then have "length p < n"
        using cut(1) varint_decode_partial_loop_incomplete by (auto simp: varint_decode_partial_def queue_bytes_def decoder_new_def)
      with len show False by simp
    next
      case (wait l' n')
      with varint_decode_partial_append(1) [of p l' n' r] cut(1) len show False by (simp add: queue_bytes_def decoder_new_def)
    qed (auto simp: rmap_eq_Ok)
  qed
  then have "x = Ok (Some f)" "queue_bytes r e = d'"
    using try_next_frame_append [OF t, of r] assms(1) by auto
  moreover from this have "e = decoder_new"
    using assms(2) try_next_frame_threshold [OF t] by (cases e) (auto simp: queue_bytes_def decoder_new_def)
  ultimately show ?thesis using t by simp
qed

text \<open>
  A frame read by the loop is the first frame of the bytes queued so far, and the decoder is
  left with what follows it.
\<close>

lemma read_frame_loop_queued:
  "read_frame_loop inflate late e raw s = Ok (f, d', raw', s') \<Longrightarrow> e = queue_bytes raw d \<Longrightarrow>
     raw @ reads_bytes s = raw' @ reads_bytes s' \<and> try_next_frame inflate (queue_bytes raw' d) = (Ok (Some f), d')"
proof (induction inflate late e raw s rule: read_frame_loop.induct)
  case (1 inflate late e raw s)
  obtain r e' where t: "try_next_frame inflate e = (r, e')" by (cases "try_next_frame inflate e")
  consider (found) "r = Ok (Some f)" "e' = d'" "raw' = raw" "s' = s"
    | (wait) bs s1 where "r = Ok None" "stream_read 1024 s = ReadData bs s1" "bs \<noteq> []"
        "read_frame_loop inflate late (queue_bytes bs e') (raw @ bs) s1 = Ok (f, d', raw', s')"
    using 1(2) t by (auto simp: read_frame_loop.simps [of _ _ e]
        split: sum.split_asm option.split_asm read_outcome.split_asm if_split_asm)
  then show ?case
  proof cases
    case wait
    then have "e' = e" using t try_next_frame_None by blast
    with 1(1) [OF t [symmetric] wait(1) refl wait(2,3,4)] 1(3) stream_read_bytes [OF wait(2)] show ?thesis by simp
  qed (use t 1(3) in simp)
qed

lemma read_frame_loop_Ok:
  assumes "read_frame_loop inflate late (queue_bytes raw decoder_new) raw s = Ok (f, d', raw', s')"
  shows "\<exists>p. raw' = p @ dec_buf d' \<and> raw @ reads_bytes s = p @ dec_buf d' @ reads_bytes s'
           \<and> try_next_frame inflate (queue_bytes p decoder_new) = (Ok (Some f), decoder_new)"
proof -
  note q = read_frame_loop_queued [OF assms refl]
  then obtain p where p: "raw' = p @ dec_buf d'"
    using try_next_frame_suffix [of inflate "queue_bytes raw' decoder_new" f d'] by (auto simp: queue_bytes_def decoder_new_def)
  have "try_next_frame inflate (queue_bytes p decoder_new) = (Ok (Some f), decoder_new)"
    using q p by (intro try_next_frame_prefix) auto
  with q p show ?thesis by auto
qed

lemma handshake_parser_passes:
  assumes "handshake_parser env ctx = Ok (Continue, ctx')" "cx_handshake ctx = None"
  shows "\<exists>h raw f hs rest. ctx' = ctx\<lparr>cx_handshake := Some h, cx_buffered := cx_buffered ctx', cx_stream := cx_stream ctx'\<rparr>
    \<and> hd_raw_packets h = [raw] \<and> received ctx' = received ctx
    \<and> try_next_frame (pe_inflate env) (queue_bytes raw decoder_new) = (Ok (Some f), decoder_new) \<and> frame_id f = 0
    \<and> s_handshake_decode (frame_payload f) = Ok (hs, rest)
    \<and> hd_domain h = pe_lc env (normalize_handshake (hs_server_address hs))
    \<and> hd_protocol_version h = sint (hs_protocol_version hs)
    \<and> hd_intent h = (case hs_next_state hs of Status \<Rightarrow> IntentStatus | Login \<Rightarrow> IntentLogin | _ \<Rightarrow> IntentTransfer)"
proof -
  obtain b c where fb: "first_byte ctx = Ok (b, c)" using assms(1) by (auto simp: handshake_parser_def rbind_eq_Ok)
  have c: "c = ctx\<lparr>cx_buffered := cx_buffered c, cx_stream := cx_stream c\<rparr>"
    using fb by (auto simp: first_byte_def split: if_splits read_outcome.splits)
  have "detect b = Modern"
    using assms(1) fb by (auto simp: handshake_parser_def split: legacy_detection.splits)
  then obtain f d raw s hs rest where l:
    "read_frame_loop (pe_inflate env) (Timeout ''handshake read timed out'')
       (queue_bytes (cx_buffered c) decoder_new) (cx_buffered c) (cx_stream c) = Ok (f, d, raw, s)"
    "frame_id f = 0" "s_handshake_decode (frame_payload f) = Ok (hs, rest)"
    and ctx': "ctx' = c\<lparr>cx_buffered := dec_buf d, cx_stream := s, cx_handshake := Some
       \<lparr>hd_domain = pe_lc env (normalize_handshake (hs_server_address hs)), hd_port = hs_server_port hs,
        hd_protocol_version = sint (hs_protocol_version hs),
        hd_intent = (case hs_next_state hs of Status \<Rightarrow> IntentStatus | Login \<Rightarrow> IntentLogin | _ \<Rightarrow> IntentTransfer),
        hd_raw_packets = [take (length raw - length (dec_buf d)) raw]\<rparr>\<rparr>"
    using assms(1) fb by (auto simp: handshake_parser_def rbind_eq_Ok Let_def lift_protocol_eq_Ok split: if_splits)
  obtain p where p: "raw = p @ dec_buf d" "cx_buffered c @ reads_bytes (cx_stream c) = p @ dec_buf d @ reads_bytes s"
    "try_next_frame (pe_inflate env) (queue_bytes p decoder_new) = (Ok (Some f), decoder_new)"
    using read_frame_loop_Ok [OF l(1)] by blast
  have "received ctx' = received ctx"
    using first_byte_Ok [OF fb] assms(2) p(1,2) by (auto simp: received_def ctx')
  moreover have "ctx' = ctx\<lparr>cx_handshake := cx_handshake ctx', cx_buffered := cx_buffered ctx', cx_stream := cx_stream ctx'\<rparr>"
    by (subst ctx', subst c) (simp add: ctx')
  ultimately show ?thesis using p l by (intro exI [of _ "the (cx_handshake ctx')"] exI [of _ p] exI [of _ f] exI [of _ hs] exI [of _ rest]) (simp add: ctx')
qed

lemma login_start_parser_passes:
  assumes "login_start_parser env ctx = Ok (Continue, ctx')" "cx_handshake ctx = Some h"
  shows "\<exists>raw f ls rest. ctx' = ctx\<lparr>cx_login := Some \<lparr>ld_username = ls_name ls, ld_player_uuid = ls_uuid ls\<rparr>,
      cx_handshake := Some (h\<lparr>hd_raw_packets := hd_raw_packets h @ [raw]\<rparr>),
      cx_buffered := cx_buffered ctx', cx_stream := cx_stream ctx'\<rparr>
    \<and> received ctx' = received ctx
    \<and> try_next_frame (pe_inflate env) (queue_bytes raw decoder_new) = (Ok (Some f), decoder_new) \<and> frame_id f = 0
    \<and> s_login_start_decode (hd_protocol_version h) (frame_payload f) = Ok (ls, rest)"
proof -
  have q: "(if cx_buffered ctx \<noteq> [] then queue_bytes (cx_buffered ctx) decoder_new else decoder_new)
      = queue_bytes (cx_buffered ctx) decoder_new" by simp
  obtain f d raw s ls rest where l:
    "read_frame_loop (pe_inflate env) ConnectionClosed (queue_bytes (cx_buffered ctx) decoder_new) (cx_buffered ctx) (cx_stream ctx)
       = Ok (f, d, raw, s)"
    "frame_id f = 0" "s_login_start_decode (hd_protocol_version h) (frame_payload f) = Ok (ls, rest)"
    and ctx': "ctx' = ctx\<lparr>cx_login := Some \<lparr>ld_username = ls_name ls, ld_player_uuid = ls_uuid ls\<rparr>,
       cx_handshake := Some (h\<lparr>hd_raw_packets := hd_raw_packets h @ [take (length raw - length (dec_buf d)) raw]\<rparr>),
       cx_buffered := dec_buf d, cx_stream := s\<rparr>"
    using assms unfolding login_start_parser_def q
    by (auto simp: rbind_eq_Ok Let_def lift_protocol_eq_Ok require_extension_def split: if_splits)
  obtain p where p: "raw = p @ dec_buf d" "cx_buffered ctx @ reads_bytes (cx_stream ctx) = p @ dec_buf d @ reads_bytes s"
    "try_next_frame (pe_inflate env) (queue_bytes p decoder_new) = (Ok (Some f), decoder_new)"
    using read_frame_loop_Ok [OF l(1)] by blast
  have "received ctx' = received ctx" using assms(2) p(1,2) by (simp add: received_def ctx')
  with p l show ?thesis by (intro exI [of _ p] exI [of _ f] exI [of _ ls] exI [of _ rest]) (simp add: ctx')
qed

section \<open>Boundary cases\<close>

text \<open>A limiter whose window has fewer nanoseconds than connections has no quota.\<close>

lemma build_limiter_panics: "build_limiter max_count window = None \<longleftrightarrow> window < max (unat max_count) 1"
  by (simp add: build_limiter_def Let_def div_eq_0_iff)

text \<open>A transfer is parsed as a login: the transfer branch of \<open>handle_connection\<close> is never taken.\<close>

lemma s_handshake_decode_state: "s_handshake_decode r = Ok (hs, rest) \<Longrightarrow> hs_next_state hs \<in> {Status, Login}"
  by (auto simp: s_handshake_decode_def dbind_eq_Ok from_handshake_id_def split: option.splits if_splits)

lemma transfer_is_login:
  assumes "handshake_parser env ctx = Ok (Continue, ctx')" "cx_handshake ctx = None" "cx_handshake ctx' = Some h"
  shows "hd_intent h \<noteq> IntentTransfer"
proof -
  obtain h' and hs :: s_handshake and f :: packet_frame and rest where c: "ctx' = ctx\<lparr>cx_handshake := Some h', cx_buffered := cx_buffered ctx', cx_stream := cx_stream ctx'\<rparr>"
    and d: "s_handshake_decode (frame_payload f) = Ok (hs, rest)"
    and i: "hd_intent h' = (case hs_next_state hs of Status \<Rightarrow> IntentStatus | Login \<Rightarrow> IntentLogin | _ \<Rightarrow> IntentTransfer)"
    using handshake_parser_passes [OF assms(1,2)] by blast
  have "cx_handshake ctx' = Some h'" by (subst c) simp
  with assms(3) s_handshake_decode_state [OF d] i show ?thesis by auto
qed

section \<open>Connections that reach a handler\<close>

text \<open>The facts each pipeline establishes when it lets a connection through.\<close>

definition common_admits ::
  "('net, 'g) proxy_env \<Rightarrow> 'net pipeline_config \<Rightarrow> ('net, 'g) world \<Rightarrow> 'net connection_context \<Rightarrow> bool" where
  "common_admits env cfg w ctx \<longleftrightarrow> (\<exists>h r pid. cx_handshake ctx = Some h \<and> cx_routing ctx = Some r
     \<and> (\<forall>f. pc_ip_filter cfg = Some f \<longrightarrow> is_allowed (pe_contains env) f (cx_client_ip ctx))
     \<and> in_force (pe_lc env) (pe_now env) (w_bans w) (BanIp (cx_client_ip ctx)) = None
     \<and> (pc_rate_limit cfg \<longrightarrow> fst (pe_check_key env (cx_client_ip ctx)
          (if hd_intent h = IntentStatus then w_status_limiter w else w_login_limiter w)))
     \<and> router_resolve (pe_lc env) (pe_wm env) (w_router w) (hd_domain h) = Some (pid, rd_server_config r)
     \<and> (\<forall>f. sc_ip_filter (rd_server_config r) = Some f \<longrightarrow> is_allowed (pe_contains env) f (cx_client_ip ctx)))"

lemma is_ip_banned_None:
  "is_ip_banned lc to_json now io ip st = (Ok None, st') \<Longrightarrow> in_force lc now st (BanIp ip) = None"
  by (auto simp: is_ip_banned_def is_banned_def in_force_def ban_simps split: option.splits if_splits)

lemma common_passes:
  assumes "execute (common_pipeline env cfg) (ctx, w) = (Ok Continue, ctx', w')" "cx_handshake ctx = None"
  shows "common_admits env cfg w ctx' \<and> w_servers w' = w_servers w \<and> cx_login ctx' = cx_login ctx \<and> cx_legacy ctx' = cx_legacy ctx
    \<and> (\<exists>c. handshake_parser env ctx = Ok (Continue, c) \<and> ctx' = c\<lparr>cx_routing := cx_routing ctx'\<rparr>)"
proof -
  obtain st c s4 where f: "\<forall>f. pc_ip_filter cfg = Some f \<longrightarrow> is_allowed (pe_contains env) f (cx_client_ip ctx)"
    and b: "is_ip_banned (pe_lc env) (pe_to_json env) (pe_now env) (pe_persist env) (cx_client_ip ctx) (w_bans w) = (Ok None, st)"
    and h: "handshake_parser env ctx = Ok (Continue, c)"
    and l: "rate_limiter_mw env (pc_rate_limit cfg) (c, w\<lparr>w_bans := st\<rparr>) = (Ok Continue, s4)"
    and r: "domain_router_mw env s4 = (Ok Continue, ctx', w')"
    using assms(1) unfolding common_pipeline_def
    by (auto simp only: execute_passes passes execute.simps(1) prod.inject)
  obtain hd where c: "c = ctx\<lparr>cx_handshake := Some hd, cx_buffered := cx_buffered c, cx_stream := cx_stream c\<rparr>"
    using handshake_parser_passes [OF h assms(2)] by blast
  have hd: "cx_handshake c = Some hd" by (subst c) simp
  have same: "cx_client_ip c = cx_client_ip ctx" "cx_login c = cx_login ctx" "cx_legacy c = cx_legacy ctx" by (subst c, simp)+
  obtain w4 where s4: "s4 = (c, w4)" using rate_limiter_passes [OF l hd] by (cases s4) auto
  have "policy_kept env (c, w\<lparr>w_bans := st\<rparr>) (c, w4)" using l policy_kept_light(2) unfolding s4 by blast
  then have rt: "w_router w4 = w_router w" by (simp add: policy_kept_def)
  show ?thesis
    using f is_ip_banned_None [OF b] h rate_limiter_passes [OF l hd] r hd rt same
    unfolding s4 domain_router_passes common_admits_def by auto
qed

definition login_admits :: "('net, 'g) proxy_env \<Rightarrow> 'net pipeline_config \<Rightarrow> ('net, 'g) world \<Rightarrow> 'net connection_context \<Rightarrow> bool" where
  "login_admits env cfg w ctx \<longleftrightarrow> (\<exists>l. cx_login ctx = Some l
     \<and> in_force (pe_lc env) (pe_now env) (w_bans w) (BanUsername (ld_username l)) = None
     \<and> (\<forall>r st. pc_server_manager cfg \<longrightarrow> cx_routing ctx = Some r \<longrightarrow> sc_server_manager (rd_server_config r) \<noteq> None \<longrightarrow>
          get_state (w_servers w) (effective_id (rd_server_config r)) = Some st \<longrightarrow>
          st \<in> {Online, UnknownState}
          \<or> st \<noteq> Stopping \<and> fst (ensure_started env (effective_id (rd_server_config r)) (w_servers w)) = Ok ()))"

lemma check_player_None:
  "fst (check_player lc now ip n None st) = Ok None \<Longrightarrow> in_force lc now st (BanUsername n) = None"
  by (simp add: check_player_alt Let_def split_beta ban_simps in_force_check_target split: if_splits)

lemma login_passes:
  assumes "execute (login_pipeline env cfg) (ctx, w) = (Ok Continue, ctx', w')" "cx_handshake ctx = Some h"
  shows "login_admits env cfg w ctx' \<and> (\<exists>c. login_start_parser env ctx = Ok (Continue, c) \<and> ctx' = c\<lparr>cx_span := True\<rparr>)"
proof -
  obtain c s2 s3 where p: "login_start_parser env ctx = Ok (Continue, c)" and b: "ban_check_mw env (c, w) = (Ok Continue, s2)"
    and t: "telemetry_mw s2 = (Ok Continue, s3)"
    and m: "if pc_server_manager cfg then server_manager_mw env s3 = (Ok Continue, ctx', w') else s3 = (ctx', w')"
    using assms(1) unfolding login_pipeline_def
    by (cases "pc_server_manager cfg") (auto simp only: execute_passes passes append.simps if_True if_False execute.simps(1) prod.inject)
  obtain raw and ls :: s_login_start where c: "c = ctx\<lparr>cx_login := Some \<lparr>ld_username = ls_name ls, ld_player_uuid = ls_uuid ls\<rparr>,
      cx_handshake := Some (h\<lparr>hd_raw_packets := hd_raw_packets h @ [raw]\<rparr>),
      cx_buffered := cx_buffered c, cx_stream := cx_stream c\<rparr>"
    using login_start_parser_passes [OF p assms(2)] by blast
  have l: "cx_login c = Some \<lparr>ld_username = ls_name ls, ld_player_uuid = ls_uuid ls\<rparr>" by (subst c) simp
  note bc = ban_check_passes [OF b l]
  obtain w3 where s3: "s3 = (c\<lparr>cx_span := True\<rparr>, w3)" "w_servers w3 = w_servers w"
    using bc t by (cases s2) (auto simp: telemetry_mw_def)
  have "ctx' = c\<lparr>cx_span := True\<rparr>"
    using m s3 by (auto dest: server_manager_context split: if_splits)
  then show ?thesis
    using p l check_player_None [of "pe_lc env" "pe_now env"] bc m s3
    by (auto simp: login_admits_def dest: server_manager_passes split: if_splits)
qed

section \<open>Properties\<close>

lemma handle_login_handler:
  assumes "handle_login env cfg s = (e, ctx', w')" "e \<in> {ToOffline, ToClientOnly, ToPassthrough}"
  shows "\<exists>c r. execute (login_pipeline env cfg) s = (Ok Continue, c, w') \<and> cx_routing c = Some r
    \<and> e = proxy_handler (sc_proxy_mode (rd_server_config r)) \<and> ctx' = c\<lparr>cx_span := False\<rparr>"
proof -
  obtain x c w1 where x: "execute (login_pipeline env cfg) s = (x, c, w1)" by (rule prod_cases3)
  note d = assms(1) [unfolded handle_login_def x prod.case]
  obtain r where "x = Ok Continue" "cx_routing c = Some r"
    using d assms(2) by (cases x; cases "projr x"; cases "cx_routing c") (simp_all add: require_extension_def, blast+)
  with d x show ?thesis by (simp add: require_extension_def)
qed

lemma handle_connection_login:
  assumes "handle_connection env cfg s = (e, ctx', w')" "e \<in> {ToOffline, ToClientOnly, ToPassthrough}"
  shows "\<exists>c w1 h. execute (common_pipeline env cfg) s = (Ok Continue, c, w1) \<and> cx_handshake c = Some h
    \<and> hd_intent h = IntentLogin \<and> handle_login env cfg (c, w1) = (e, ctx', w')"
proof -
  obtain x c w1 where x: "execute (common_pipeline env cfg) s = (x, c, w1)" by (rule prod_cases3)
  note d = assms(1) [unfolded handle_connection_def x prod.case]
  have "x = Ok Continue" using d assms(2) by (cases x; cases "projr x") (auto split: if_splits)
  moreover from this obtain h where "cx_handshake c = Some h" "hd_intent h = IntentLogin"
    using d assms(2) by (cases "cx_handshake c"; cases "hd_intent (the (cx_handshake c))") (auto simp: require_extension_def)
  ultimately show ?thesis using d x by (simp add: require_extension_def)
qed

lemma context_new_fields [simp]:
  "cx_client_ip (context_new ip buf s) = ip" "cx_handshake (context_new ip buf s) = None"
  "received (context_new ip buf s) = buf @ reads_bytes s"
  by (simp_all add: context_new_def received_def)


definition sample_env :: "(nat, unit) proxy_env" where
  "sample_env = \<lparr>pe_lc = (\<lambda>s. s), pe_wm = (\<lambda>_ _. False), pe_contains = (\<lambda>_ _. False), pe_show_ip = (\<lambda>_. ''''),
     pe_inflate = (\<lambda>s. s), pe_to_json = (\<lambda>_. Err ''''), pe_persist = Persisted, pe_now = 7,
     pe_check_key = (\<lambda>_ g. (True, g)), pe_start = (\<lambda>_. Ok ()), pe_wait = (\<lambda>_. WaitElapsed)\<rparr>"

definition sample_world :: "(nat, unit) world" where
  "sample_world = \<lparr>w_router = router_add (\<lambda>s. s) (\<lambda>x. x) \<lparr>provider_type = ''file'', unique_id = ''a''\<rparr> (sample_config ''hub'' [''a.b'']) router_new,
     w_bans = storage_new None, w_login_limiter = (), w_status_limiter = (), w_servers = sm_new []\<rparr>"

definition sample_pipeline :: "nat pipeline_config" where
  "sample_pipeline = \<lparr>pc_ip_filter = None, pc_rate_limit = True, pc_unknown_domain = DefaultMotd, pc_server_manager = True\<rparr>"

definition sample_reads :: tcp_reads where
  "sample_reads = [Ok [9, 0, 5, 3, 97, 46, 98], Ok [99, 221, 2, 5, 0, 3, 98, 111, 98]]"


abbreviation sample_payload :: bytes where "sample_payload \<equiv> [5, 3, 97, 46, 98, 99, 221, 2]"

lemma sample_bytes:
  "varint_decode_partial [9, 0, 5, 3, 97, 46, 98] = Inr (9, 1)"
  "varint_decode_partial [9, 0, 5, 3, 97, 46, 98, 99, 221, 2, 5, 0, 3, 98, 111, 98] = Inr (9, 1)"
  "varint_decode_partial [9] = Inr (9, 1)"
  "varint_decode_partial [5, 0, 3, 98, 111, 98] = Inr (5, 1)"
  "varint_decode [0, 5, 3, 97, 46, 98, 99, 221, 2] = Ok (0, sample_payload)"
  "varint_decode [0, 3, 98, 111, 98] = Ok (0, [3, 98, 111, 98])"
  "read_varint_from_reader sample_payload = Ok (5, [3, 97, 46, 98, 99, 221, 2])"
  "read_varint_from_reader [3, 97, 46, 98, 99, 221, 2] = Ok (3, [97, 46, 98, 99, 221, 2])"
  "read_varint_from_reader [3, 98, 111, 98] = Ok (3, [98, 111, 98])"
  "read_varint_from_reader [2] = Ok (2, [])"
  "from_utf8 [97, 46, 98] = Some ''a.b''" "from_utf8 [98, 111, 98] = Some ''bob''"
  "str_chars ''a.b'' = 3" "str_chars ''bob'' = 3"
  by code_simp+

lemma sample_handshake:
  "s_handshake_decode sample_payload =
     Ok (\<lparr>hs_protocol_version = 5, hs_server_address = ''a.b'', hs_server_port = from_be_bytes [99, 221], hs_next_state = Login\<rparr>, [])"
  by (simp add: s_handshake_decode_def sample_bytes read_string_bounded_def read_exact_def read_be_def from_handshake_id_def)

lemma sample_login:
  "s_login_start_decode 5 [3, 98, 111, 98] = Ok (\<lparr>ls_name = ''bob'', ls_uuid = None, ls_signature_data = None\<rparr>, [])"
  by (simp add: s_login_start_decode_def sample_bytes read_string_bounded_def read_exact_def)

lemma sample_frames:
  "try_next_frame inflate \<lparr>dec_buf = [9], dec_threshold = None\<rparr> = (Ok None, \<lparr>dec_buf = [9], dec_threshold = None\<rparr>)"
  "try_next_frame inflate \<lparr>dec_buf = [9, 0, 5, 3, 97, 46, 98], dec_threshold = None\<rparr>
     = (Ok None, \<lparr>dec_buf = [9, 0, 5, 3, 97, 46, 98], dec_threshold = None\<rparr>)"
  "try_next_frame inflate \<lparr>dec_buf = [9, 0, 5, 3, 97, 46, 98, 99, 221, 2, 5, 0, 3, 98, 111, 98], dec_threshold = None\<rparr>
     = (Ok (Some \<lparr>frame_id = 0, frame_payload = sample_payload\<rparr>), \<lparr>dec_buf = [5, 0, 3, 98, 111, 98], dec_threshold = None\<rparr>)"
  "try_next_frame inflate \<lparr>dec_buf = [5, 0, 3, 98, 111, 98], dec_threshold = None\<rparr>
     = (Ok (Some \<lparr>frame_id = 0, frame_payload = [3, 98, 111, 98]\<rparr>), \<lparr>dec_buf = [], dec_threshold = None\<rparr>)"
  by (simp_all add: try_next_frame_def sample_bytes MAX_PACKET_SIZE_def decode_packet_def)

lemma sample_parsed:
  "handshake_parser sample_env (context_new ip [] sample_reads) =
     Ok (Continue, (context_new ip [5, 0, 3, 98, 111, 98] [])\<lparr>cx_handshake := Some
       \<lparr>hd_domain = ''a.b'', hd_port = from_be_bytes [99, 221], hd_protocol_version = 5, hd_intent = IntentLogin,
        hd_raw_packets = [[9, 0, 5, 3, 97, 46, 98, 99, 221, 2]]\<rparr>\<rparr>)"
  by (simp add: handshake_parser_def first_byte_def context_new_def sample_reads_def stream_read_def detect_def
      read_frame_loop.simps queue_bytes_def decoder_new_def sample_frames sample_handshake sample_env_def normalize_handshake_def)


lemma sample_resolved:
  "router_resolve (pe_lc sample_env) (pe_wm sample_env) (w_router sample_world) ''a.b'' =
     Some (\<lparr>provider_type = ''file'', unique_id = ''a''\<rparr>, sample_config ''hub'' [''a.b''])"
  by code_simp

lemma execute_append:
  "execute (xs @ ys) s = (case execute xs s of (Ok Continue, s) \<Rightarrow> execute ys s | r \<Rightarrow> r)"
  by (induction xs arbitrary: s) (simp_all split: prod.splits sum.splits middleware_result.splits)

lemma common_split: "common_pipeline env cfg = take 4 (common_pipeline env cfg) @ [domain_router_mw env]"
  by (simp add: common_pipeline_def)

lemma sample_front:
  "execute (take 4 (common_pipeline sample_env sample_pipeline)) (context_new ip [] sample_reads, sample_world\<lparr>w_router := r\<rparr>) =
     (Ok Continue, (context_new ip [5, 0, 3, 98, 111, 98] [])\<lparr>cx_handshake := Some
       \<lparr>hd_domain = ''a.b'', hd_port = from_be_bytes [99, 221], hd_protocol_version = 5, hd_intent = IntentLogin,
        hd_raw_packets = [[9, 0, 5, 3, 97, 46, 98, 99, 221, 2]]\<rparr>\<rparr>, sample_world\<lparr>w_router := r\<rparr>)"
proof -
  have "ban_ip_check_mw sample_env (ctx, sample_world\<lparr>w_router := r\<rparr>) = (Ok Continue, ctx, sample_world\<lparr>w_router := r\<rparr>)" for ctx
    by (simp add: ban_ip_check_mw_def is_ip_banned_def is_banned_def sample_world_def storage_new_def lookup_ban_def)
  moreover have "rate_limiter_mw sample_env True (ctx, sample_world\<lparr>w_router := r\<rparr>) = (Ok Continue, ctx, sample_world\<lparr>w_router := r\<rparr>)" for ctx
    by (simp add: rate_limiter_mw_def sample_env_def sample_world_def split: option.split)
  ultimately show ?thesis
    by (simp add: common_pipeline_def on_context_def sample_parsed ip_filter_mw_def sample_pipeline_def)
qed

lemma sample_common:
  "execute (common_pipeline sample_env sample_pipeline) (context_new ip [] sample_reads, sample_world) =
     (Ok Continue, (context_new ip [5, 0, 3, 98, 111, 98] [])\<lparr>cx_handshake := Some
       \<lparr>hd_domain = ''a.b'', hd_port = from_be_bytes [99, 221], hd_protocol_version = 5, hd_intent = IntentLogin,
        hd_raw_packets = [[9, 0, 5, 3, 97, 46, 98, 99, 221, 2]]\<rparr>,
        cx_routing := Some \<lparr>rd_server_config = sample_config ''hub'' [''a.b''], rd_config_id = ''hub''\<rparr>\<rparr>, sample_world)"
proof -
  have "sample_world\<lparr>w_router := w_router sample_world\<rparr> = sample_world" by simp
  with sample_front [of ip "w_router sample_world"] sample_resolved show ?thesis
    by (subst common_split) (simp add: execute_append domain_router_mw_def require_extension_def,
        simp add: sample_config_def effective_id_def)
qed

lemma sample_admitted:
  "\<exists>ctx w'. handle_connection sample_env sample_pipeline (context_new (V4 1) [] sample_reads, sample_world) = (ToPassthrough, ctx, w')"
proof -
  have "\<exists>s. handle_login sample_env sample_pipeline
     ((context_new (V4 1) [5, 0, 3, 98, 111, 98] [])\<lparr>cx_handshake := Some
       \<lparr>hd_domain = ''a.b'', hd_port = from_be_bytes [99, 221], hd_protocol_version = 5, hd_intent = IntentLogin,
        hd_raw_packets = [[9, 0, 5, 3, 97, 46, 98, 99, 221, 2]]\<rparr>,
        cx_routing := Some \<lparr>rd_server_config = sample_config ''hub'' [''a.b''], rd_config_id = ''hub''\<rparr>\<rparr>, sample_world)
     = (ToPassthrough, s)"
    by (simp add: require_extension_def handle_login_def login_pipeline_def on_context_def
      login_start_parser_def context_new_def read_frame_loop.simps queue_bytes_def decoder_new_def sample_frames sample_login
      ban_check_mw_def check_player_def check_target_def sample_world_def storage_new_def lookup_ban_def telemetry_mw_def
      sample_pipeline_def server_manager_mw_def sample_config_def proxy_handler_def)
  then show ?thesis by (auto simp: handle_connection_def sample_common require_extension_def)
qed


text \<open>C2. Between the socket and the login handler no byte is lost, repeated or reordered, however
  the reads cut the stream: the two recorded packets, then the bytes still buffered and those not yet read, are what the
  client sent. Each recorded packet is exactly one frame, the first decodes to the handshake whose host and version the
  context holds, the second to the login start whose name and identifier it holds.\<close>

theorem admitted_bytes:
  assumes "handle_connection env cfg (context_new ip buffered stream, w) = (e, ctx, w')"
    and "e \<in> {ToOffline, ToClientOnly, ToPassthrough}"
  shows "\<exists>h raw1 raw2 f1 f2 hs ls rest1 rest2. cx_handshake ctx = Some h \<and> hd_raw_packets h = [raw1, raw2]
    \<and> raw1 @ raw2 @ cx_buffered ctx @ reads_bytes (cx_stream ctx) = buffered @ reads_bytes stream
    \<and> try_next_frame (pe_inflate env) (queue_bytes raw1 decoder_new) = (Ok (Some f1), decoder_new) \<and> frame_id f1 = 0
    \<and> s_handshake_decode (frame_payload f1) = Ok (hs, rest1)
    \<and> hd_domain h = pe_lc env (normalize_handshake (hs_server_address hs)) \<and> hd_protocol_version h = sint (hs_protocol_version hs)
    \<and> try_next_frame (pe_inflate env) (queue_bytes raw2 decoder_new) = (Ok (Some f2), decoder_new) \<and> frame_id f2 = 0
    \<and> s_login_start_decode (hd_protocol_version h) (frame_payload f2) = Ok (ls, rest2)
    \<and> cx_login ctx = Some \<lparr>ld_username = ls_name ls, ld_player_uuid = ls_uuid ls\<rparr>"
proof -
  obtain c1 w1 h where c: "execute (common_pipeline env cfg) (context_new ip buffered stream, w) = (Ok Continue, c1, w1)"
    and h: "cx_handshake c1 = Some h" and hl: "handle_login env cfg (c1, w1) = (e, ctx, w')"
    using handle_connection_login [OF assms] by blast
  obtain c2 where l: "execute (login_pipeline env cfg) (c1, w1) = (Ok Continue, c2, w')" and ctx: "ctx = c2\<lparr>cx_span := False\<rparr>"
    using handle_login_handler [OF hl assms(2)] by blast
  obtain c0 where c0: "handshake_parser env (context_new ip buffered stream) = Ok (Continue, c0)" "c1 = c0\<lparr>cx_routing := cx_routing c1\<rparr>"
    using common_passes [OF c context_new_fields(2)] by blast
  obtain c3 where c3: "login_start_parser env c1 = Ok (Continue, c3)" "c2 = c3\<lparr>cx_span := True\<rparr>"
    using login_passes [OF l h] by blast
  have k0: "cx_handshake c0 = Some h" "received c1 = received c0" using h by (subst (asm) c0(2), simp) (subst c0(2), simp add: received_def)
  obtain h0 raw1 f1 hs rest1 where p1: "c0 = (context_new ip buffered stream)\<lparr>cx_handshake := Some h0, cx_buffered := cx_buffered c0, cx_stream := cx_stream c0\<rparr>"
    "hd_raw_packets h0 = [raw1]" "received c0 = buffered @ reads_bytes stream"
    "try_next_frame (pe_inflate env) (queue_bytes raw1 decoder_new) = (Ok (Some f1), decoder_new)" "frame_id f1 = 0"
    "s_handshake_decode (frame_payload f1) = Ok (hs, rest1)" "hd_domain h0 = pe_lc env (normalize_handshake (hs_server_address hs))"
    "hd_protocol_version h0 = sint (hs_protocol_version hs)"
    using handshake_parser_passes [OF c0(1) context_new_fields(2)] unfolding context_new_fields by blast
  have "cx_handshake c0 = Some h0" by (subst p1(1)) simp
  with k0 have h0: "h0 = h" by simp
  obtain raw2 f2 rest2 and ls :: s_login_start where p2: "c3 = c1\<lparr>cx_login := Some \<lparr>ld_username = ls_name ls, ld_player_uuid = ls_uuid ls\<rparr>,
      cx_handshake := Some (h\<lparr>hd_raw_packets := hd_raw_packets h @ [raw2]\<rparr>), cx_buffered := cx_buffered c3, cx_stream := cx_stream c3\<rparr>"
    "received c3 = received c1"
    "try_next_frame (pe_inflate env) (queue_bytes raw2 decoder_new) = (Ok (Some f2), decoder_new)" "frame_id f2 = 0"
    "s_login_start_decode (hd_protocol_version h) (frame_payload f2) = Ok (ls, rest2)"
    using login_start_parser_passes [OF c3(1) h] by blast
  have f: "cx_handshake c3 = Some (h\<lparr>hd_raw_packets := [raw1, raw2]\<rparr>)"
    "cx_login c3 = Some \<lparr>ld_username = ls_name ls, ld_player_uuid = ls_uuid ls\<rparr>" using p1(2) h0 by (subst p2(1), simp)+
  have "received c3 = buffered @ reads_bytes stream" using p1(3) p2(2) k0(2) by simp
  then have r: "raw1 @ raw2 @ cx_buffered c3 @ reads_bytes (cx_stream c3) = buffered @ reads_bytes stream"
    by (simp add: received_def f)
  show ?thesis
    by (rule exI [of _ "h\<lparr>hd_raw_packets := [raw1, raw2]\<rparr>"], rule exI [of _ raw1], rule exI [of _ raw2], rule exI [of _ f1],
        rule exI [of _ f2], rule exI [of _ hs], rule exI [of _ ls], rule exI [of _ rest1], rule exI [of _ rest2])
      (use p1 p2 h0 f r in \<open>simp add: ctx c3(2)\<close>)
qed

theorem admitted_bytes_witness:
  "\<exists>ctx w' h raw1 raw2. handle_connection sample_env sample_pipeline (context_new (V4 1) [] sample_reads, sample_world) = (ToPassthrough, ctx, w')
     \<and> cx_handshake ctx = Some h \<and> hd_raw_packets h = [raw1, raw2]
     \<and> raw1 @ raw2 @ cx_buffered ctx @ reads_bytes (cx_stream ctx) = [9, 0, 5, 3, 97, 46, 98, 99, 221, 2, 5, 0, 3, 98, 111, 98]"
proof -
  obtain ctx w' where h: "handle_connection sample_env sample_pipeline (context_new (V4 1) [] sample_reads, sample_world) = (ToPassthrough, ctx, w')"
    using sample_admitted by blast
  from admitted_bytes [OF this] h show ?thesis by (auto simp: sample_reads_def reads_bytes_def)
qed

text \<open>C30. No connection, whatever becomes of it, changes the routes or any ban in force then
  or later. One from an address with a ban in force that the global filter allows is closed at once: nothing is read
  from it, nothing is answered and no state changes.\<close>

theorem banned_ip_dropped:
  "policy_kept env s (snd (handle_connection env cfg s))
   \<and> (in_force (pe_lc env) (pe_now env) (w_bans w) (BanIp ip) \<noteq> None \<longrightarrow>
      (\<forall>f. pc_ip_filter cfg = Some f \<longrightarrow> is_allowed (pe_contains env) f ip) \<longrightarrow>
      handle_connection env cfg (context_new ip buffered stream, w) = (Closed, context_new ip buffered stream, w))"
proof (intro conjI impI)
  show "policy_kept env s (snd (handle_connection env cfg s))"
  proof -
    have l: "policy_kept env t (snd (handle_login env cfg t))" for t
    proof -
      obtain x c w1 where x: "execute (login_pipeline env cfg) t = (x, c, w1)" by (rule prod_cases3)
      have "policy_kept env t (c, w1)" using login_keeps [OF x] .
      then show ?thesis by (auto simp: handle_login_def x policy_kept_def split: sum.split middleware_result.split)
    qed
    obtain x c w1 where x: "execute (common_pipeline env cfg) s = (x, c, w1)" by (rule prod_cases3)
    have "policy_kept env s (c, w1)" using common_keeps [OF x] .
    moreover have "snd (handle_connection env cfg s) \<in> {(c, w1), snd (handle_login env cfg (c, w1))}"
      by (simp add: handle_connection_def x split: sum.split middleware_result.split connection_intent.split)
    ultimately show ?thesis using l policy_kept_trans by fastforce
  qed
next
  assume b: "in_force (pe_lc env) (pe_now env) (w_bans w) (BanIp ip) \<noteq> None"
    and f: "\<forall>f. pc_ip_filter cfg = Some f \<longrightarrow> is_allowed (pe_contains env) f ip"
  from b obtain e where "is_ip_banned (pe_lc env) (pe_to_json env) (pe_now env) (pe_persist env) ip (w_bans w) = (Ok (Some e), w_bans w)"
    by (auto simp: is_ip_banned_def is_banned_def in_force_def ban_simps split: option.splits if_splits)
  with f show "handle_connection env cfg (context_new ip buffered stream, w) = (Closed, context_new ip buffered stream, w)"
    by (simp add: handle_connection_def common_pipeline_def ip_filter_mw_def ban_ip_check_mw_def split: option.split)
      (simp add: context_new_def)
qed

definition sample_banned :: "(nat, unit) world" where
  "sample_banned = sample_world\<lparr>w_bans := snd (add_ban (\<lambda>s. s) (\<lambda>_. Err '''') 5 Persisted
     (ban_entry_new 5 (BanIp (V4 1)) None None ''admin'') (storage_new None))\<rparr>"

theorem banned_ip_dropped_witness:
  "handle_connection sample_env sample_pipeline (context_new (V4 1) [] sample_reads, sample_banned)
     = (Closed, context_new (V4 1) [] sample_reads, sample_banned)"
  using banned_ip_dropped [of sample_env _ sample_pipeline sample_banned "V4 1" "[]" sample_reads]
  by (simp add: in_force_def add_ban_bans sample_banned_def sample_env_def sample_pipeline_def ban_entry_new_def is_expired_def)



end
