(* ===== verification/EventBus.thy ===== *)
theory EventBus
  imports Prelude Version "HOL-Library.AList"
begin

text \<open>
  The event bus: \<open>event_bus/bus.rs\<close>, \<open>event_bus/handler.rs\<close> and the types of \<open>event/mod.rs\<close>.

  A handler is the change it makes to the event; whether it is awaited makes no difference to
  the order of the calls. The two hash maps are association lists, and their iteration order in
  \<open>unsubscribe\<close> is a parameter.
\<close>

section \<open>Handlers and the bus\<close>

type_synonym event_priority = u8
type_synonym listener_handle = u64

definition FIRST :: event_priority where "FIRST = 0"
definition EARLY :: event_priority where "EARLY = 64"
definition NORMAL :: event_priority where "NORMAL = 128"
definition LATE :: event_priority where "LATE = 192"
definition LAST :: event_priority where "LAST = 255"

datatype 'e handler_kind = SyncHandler "'e \<Rightarrow> 'e" | AsyncHandler "'e \<Rightarrow> 'e"

record 'e handler_entry =
  he_handle :: listener_handle
  he_priority :: event_priority
  he_kind :: "'e handler_kind"

datatype packet_direction = PacketServerbound | PacketClientbound

record packet_key =
  pk_packet_id :: i32
  pk_state :: connection_state
  pk_direction :: packet_direction

type_synonym ('k, 'e) handler_table = "('k \<times> 'e handler_entry list) list"

record ('t, 'e) event_bus =
  bus_handlers :: "('t, 'e) handler_table"
  bus_packet_handlers :: "(packet_key, 'e) handler_table"
  bus_next_handle :: u64
  bus_packet_listeners :: u64

definition bus_new :: "('t, 'e) event_bus" where
  "bus_new = \<lparr>bus_handlers = [], bus_packet_handlers = [], bus_next_handle = 1, bus_packet_listeners = 0\<rparr>"

definition next_handle :: "('t, 'e) event_bus \<Rightarrow> listener_handle \<times> ('t, 'e) event_bus" where
  "next_handle bus = (bus_next_handle bus, bus\<lparr>bus_next_handle := bus_next_handle bus + 1\<rparr>)"

text \<open>\<open>partition_point\<close> on a vector ordered by priority, then \<open>insert\<close>.\<close>

definition insert_sorted :: "'e handler_entry \<Rightarrow> 'e handler_entry list \<Rightarrow> 'e handler_entry list" where
  "insert_sorted entry vec =
     (let pos = length (takeWhile (\<lambda>h. he_priority h \<le> he_priority entry) vec) in take pos vec @ [entry] @ drop pos vec)"

definition or_default :: "('k, 'e) handler_table \<Rightarrow> 'k \<Rightarrow> 'e handler_entry list" where
  "or_default m k = (case map_of m k of Some vec \<Rightarrow> vec | None \<Rightarrow> [])"

definition insert_handler :: "'t \<Rightarrow> 'e handler_entry \<Rightarrow> ('t, 'e) event_bus \<Rightarrow> listener_handle \<times> ('t, 'e) event_bus" where
  "insert_handler event_type entry bus =
     (he_handle entry,
      bus\<lparr>bus_handlers := AList.update event_type (insert_sorted entry (or_default (bus_handlers bus) event_type)) (bus_handlers bus)\<rparr>)"

definition insert_packet_handler ::
  "packet_key \<Rightarrow> 'e handler_entry \<Rightarrow> ('t, 'e) event_bus \<Rightarrow> listener_handle \<times> ('t, 'e) event_bus" where
  "insert_packet_handler key entry bus =
     (he_handle entry,
      bus\<lparr>bus_packet_handlers :=
            AList.update key (insert_sorted entry (or_default (bus_packet_handlers bus) key)) (bus_packet_handlers bus),
          bus_packet_listeners := bus_packet_listeners bus + 1\<rparr>)"

definition subscribe ::
  "'t \<Rightarrow> event_priority \<Rightarrow> 'e handler_kind \<Rightarrow> ('t, 'e) event_bus \<Rightarrow> listener_handle \<times> ('t, 'e) event_bus" where
  "subscribe event_type priority kind bus =
     (let (handle, bus) = next_handle bus
      in insert_handler event_type \<lparr>he_handle = handle, he_priority = priority, he_kind = kind\<rparr> bus)"

definition subscribe_packet ::
  "packet_key \<Rightarrow> event_priority \<Rightarrow> 'e handler_kind \<Rightarrow> ('t, 'e) event_bus \<Rightarrow> listener_handle \<times> ('t, 'e) event_bus" where
  "subscribe_packet key priority kind bus =
     (let (handle, bus) = next_handle bus
      in insert_packet_handler key \<lparr>he_handle = handle, he_priority = priority, he_kind = kind\<rparr> bus)"

definition has_packet_listeners :: "packet_key \<Rightarrow> ('t, 'e) event_bus \<Rightarrow> bool" where
  "has_packet_listeners key bus =
     (if bus_packet_listeners bus = 0 then False
      else case map_of (bus_packet_handlers bus) key of Some v \<Rightarrow> v \<noteq> [] | None \<Rightarrow> False)"

text \<open>\<open>position\<close> and \<open>remove\<close> in one vector, then in the vectors of a map in the order of iteration.\<close>

fun remove_handle :: "listener_handle \<Rightarrow> 'e handler_entry list \<Rightarrow> 'e handler_entry list option" where
  "remove_handle h [] = None"
| "remove_handle h (e # vec) = (if he_handle e = h then Some vec else map_option ((#) e) (remove_handle h vec))"

fun remove_from :: "listener_handle \<Rightarrow> 'k list \<Rightarrow> ('k, 'e) handler_table \<Rightarrow> ('k, 'e) handler_table option" where
  "remove_from h [] m = None"
| "remove_from h (k # ks) m =
     (case remove_handle h (or_default m k) of
        Some vec \<Rightarrow> Some (AList.update k vec m)
      | None \<Rightarrow> remove_from h ks m)"

definition unsubscribe ::
  "('t list \<Rightarrow> 't list) \<Rightarrow> (packet_key list \<Rightarrow> packet_key list) \<Rightarrow> listener_handle \<Rightarrow> ('t, 'e) event_bus \<Rightarrow> ('t, 'e) event_bus" where
  "unsubscribe iter_types iter_packets h bus =
     (case remove_from h (iter_types (map fst (bus_handlers bus))) (bus_handlers bus) of
        Some m \<Rightarrow> bus\<lparr>bus_handlers := m\<rparr>
      | None \<Rightarrow>
          (case remove_from h (iter_packets (map fst (bus_packet_handlers bus))) (bus_packet_handlers bus) of
             Some m \<Rightarrow> bus\<lparr>bus_packet_handlers := m, bus_packet_listeners := bus_packet_listeners bus - 1\<rparr>
           | None \<Rightarrow> bus))"

definition call_handler :: "'e handler_entry \<Rightarrow> 'e \<Rightarrow> 'e" where
  "call_handler entry event = (case he_kind entry of SyncHandler f \<Rightarrow> f event | AsyncHandler f \<Rightarrow> f event)"

definition fire :: "'t \<Rightarrow> 'e \<Rightarrow> ('t, 'e) event_bus \<Rightarrow> 'e" where
  "fire event_type event bus =
     (case map_of (bus_handlers bus) event_type of
        Some handlers \<Rightarrow> fold call_handler handlers event
      | None \<Rightarrow> event)"

definition fire_packet_event :: "packet_key \<Rightarrow> 'e \<Rightarrow> ('t, 'e) event_bus \<Rightarrow> 'e" where
  "fire_packet_event key event bus =
     (case map_of (bus_packet_handlers bus) key of
        Some handlers \<Rightarrow> fold call_handler handlers event
      | None \<Rightarrow> event)"

section \<open>Specification\<close>

text \<open>
  The live subscriptions in the order they were made. A subscription gets the next number;
  an event calls those of its kind, by priority and among equals in the order they were made.
\<close>

record ('t, 'e) subscription =
  sub_target :: "'t + packet_key"
  sub_entry :: "'e handler_entry"

datatype ('t, 'e) bus_op =
    Subscribe 't event_priority "'e handler_kind"
  | SubscribePacket packet_key event_priority "'e handler_kind"
  | Unsubscribe listener_handle

type_synonym ('t, 'e) subscriptions = "('t, 'e) subscription list \<times> nat"

definition spec_add :: "'t + packet_key \<Rightarrow> event_priority \<Rightarrow> 'e handler_kind \<Rightarrow> ('t, 'e) subscriptions \<Rightarrow> ('t, 'e) subscriptions" where
  "spec_add target p k = (\<lambda>(subs, n).
     (subs @ [\<lparr>sub_target = target, sub_entry = \<lparr>he_handle = of_nat n, he_priority = p, he_kind = k\<rparr>\<rparr>], Suc n))"

fun spec_step :: "('t, 'e) bus_op \<Rightarrow> ('t, 'e) subscriptions \<Rightarrow> ('t, 'e) subscriptions" where
  "spec_step (Subscribe t p k) s = spec_add (Inl t) p k s"
| "spec_step (SubscribePacket f p k) s = spec_add (Inr f) p k s"
| "spec_step (Unsubscribe h) (subs, n) = (filter (\<lambda>s. he_handle (sub_entry s) \<noteq> h) subs, n)"

fun bus_step ::
  "('t list \<Rightarrow> 't list) \<Rightarrow> (packet_key list \<Rightarrow> packet_key list) \<Rightarrow> ('t, 'e) bus_op \<Rightarrow> ('t, 'e) event_bus \<Rightarrow> ('t, 'e) event_bus" where
  "bus_step it ip (Subscribe t p k) bus = snd (subscribe t p k bus)"
| "bus_step it ip (SubscribePacket f p k) bus = snd (subscribe_packet f p k bus)"
| "bus_step it ip (Unsubscribe h) bus = unsubscribe it ip h bus"

definition listeners :: "('t, 'e) subscription list \<Rightarrow> 't + packet_key \<Rightarrow> 'e handler_entry list" where
  "listeners subs target = sort_key he_priority (map sub_entry (filter (\<lambda>s. sub_target s = target) subs))"

definition bus_refines :: "('t, 'e) event_bus \<Rightarrow> ('t, 'e) subscriptions \<Rightarrow> bool" where
  "bus_refines bus = (\<lambda>(subs, n).
     (\<forall>t. or_default (bus_handlers bus) t = listeners subs (Inl t))
     \<and> (\<forall>k. or_default (bus_packet_handlers bus) k = listeners subs (Inr k))
     \<and> bus_packet_listeners bus = of_nat (length (filter (\<lambda>s. \<not> isl (sub_target s)) subs))
     \<and> bus_next_handle bus = of_nat n
     \<and> distinct (map (\<lambda>s. he_handle (sub_entry s)) subs)
     \<and> length subs < n \<and> (\<forall>s \<in> set subs. unat (he_handle (sub_entry s)) < n))"

section \<open>Refinement\<close>

lemma insert_sorted_alt:
  "insert_sorted e vec = takeWhile (\<lambda>h. he_priority h \<le> he_priority e) vec @ e # dropWhile (\<lambda>h. he_priority h \<le> he_priority e) vec"
  by (simp add: insert_sorted_def takeWhile_eq_take [symmetric] dropWhile_eq_drop [symmetric])

lemma insert_sorted_insort:
  "insort_key he_priority a (insert_sorted e vec) = insert_sorted e (insort_key he_priority a vec)"
  by (induction vec) (auto simp: insert_sorted_alt)

text \<open>Inserting at the partition point keeps the vector the stable sort of the subscriptions.\<close>

lemma insert_sorted_sort: "insert_sorted e (sort_key he_priority es) = sort_key he_priority (es @ [e])"
  by (induction es) (simp_all add: insert_sorted_insort [symmetric], simp add: insert_sorted_alt)

lemma filter_absent: "h \<notin> he_handle ` set vec \<Longrightarrow> filter (\<lambda>e. he_handle e \<noteq> h) vec = vec"
  by (rule filter_True) auto

lemma remove_handle_filter:
  "distinct (map he_handle vec) \<Longrightarrow>
     remove_handle h vec = (if h \<in> he_handle ` set vec then Some (filter (\<lambda>e. he_handle e \<noteq> h) vec) else None)"
proof (induction vec)
  case (Cons e vec)
  show ?case
  proof (cases "he_handle e = h")
    case True
    with Cons.prems have "filter (\<lambda>e. he_handle e \<noteq> h) vec = vec" by (simp add: filter_absent)
    with True show ?thesis by simp
  next
    case False
    with Cons show ?thesis by auto
  qed
qed simp

lemma or_default_update [simp]: "or_default (AList.update k vec m) k' = (if k' = k then vec else or_default m k')"
  by (simp add: or_default_def update_conv')

lemma or_default_key: "or_default m k \<noteq> [] \<Longrightarrow> k \<in> fst ` set m"
  by (force simp: or_default_def dest: map_of_SomeD split: option.splits)

text \<open>
  \<open>unsubscribe\<close> removes the handle from the one vector that has it, whatever the order of
  iteration.
\<close>

lemma remove_from_filter:
  assumes "\<And>k. distinct (map he_handle (or_default m k))"
    and "\<And>k k'. h \<in> he_handle ` set (or_default m k) \<Longrightarrow> h \<in> he_handle ` set (or_default m k') \<Longrightarrow> k = k'"
  shows "(if \<exists>k \<in> set ks. h \<in> he_handle ` set (or_default m k)
          then \<exists>m'. remove_from h ks m = Some m' \<and> (\<forall>k. or_default m' k = filter (\<lambda>e. he_handle e \<noteq> h) (or_default m k))
          else remove_from h ks m = None)"
proof (induction ks)
  case (Cons k ks)
  show ?case
  proof (cases "h \<in> he_handle ` set (or_default m k)")
    case True
    then have "filter (\<lambda>e. he_handle e \<noteq> h) (or_default m k') = or_default m k'" if "k' \<noteq> k" for k'
      using assms(2) [of k k'] that by (auto intro: filter_absent)
    with True show ?thesis by (auto simp: remove_handle_filter assms(1))
  next
    case False
    with Cons show ?thesis by (auto simp: remove_handle_filter assms(1))
  qed
qed simp

lemma listeners_filter:
  "listeners (filter (\<lambda>s. he_handle (sub_entry s) \<noteq> h) subs) t = filter (\<lambda>e. he_handle e \<noteq> h) (listeners subs t)"
  by (simp add: listeners_def filter_sort filter_map o_def conj_commute)

lemma set_listeners: "set (listeners subs t) = sub_entry ` {s \<in> set subs. sub_target s = t}"
  by (auto simp: listeners_def)

lemma listeners_append:
  "listeners (subs @ [s]) t = (if sub_target s = t then insert_sorted (sub_entry s) (listeners subs t) else listeners subs t)"
  by (simp add: listeners_def insert_sorted_sort)

lemma listeners_unique:
  assumes "distinct (map (\<lambda>s. he_handle (sub_entry s)) subs)"
    and "h \<in> he_handle ` set (listeners subs a)" "h \<in> he_handle ` set (listeners subs b)"
  shows "a = b"
proof -
  obtain s s' where "s \<in> set subs" "s' \<in> set subs" "he_handle (sub_entry s) = he_handle (sub_entry s')" "sub_target s = a" "sub_target s' = b"
    using assms(2,3) by (auto simp: set_listeners)
  with assms(1) show ?thesis by (auto simp: distinct_map dest: inj_onD)
qed

lemma distinct_listeners:
  "distinct (map (\<lambda>s. he_handle (sub_entry s)) subs) \<Longrightarrow> distinct (map he_handle (listeners subs t))"
  by (induction subs) (auto simp: listeners_def distinct_insort o_def distinct_map inj_on_def image_iff)

lemma of_nat_handle: "n < 2 ^ 64 \<Longrightarrow> unat (of_nat n :: u64) = n"
  by (simp add: unat_of_nat)

lemma of_nat_zero: "n < 2 ^ 64 \<Longrightarrow> (of_nat n :: u64) = 0 \<longleftrightarrow> n = 0"
  using of_nat_handle [of n] by auto

lemma bus_refines_new: "bus_refines bus_new ([], 1)"
  by (simp add: bus_refines_def bus_new_def or_default_def listeners_def)

lemma bus_refines_add:
  assumes r: "bus_refines bus (subs, n)" and n: "n < 2 ^ 64"
  shows "bus_refines (snd (subscribe t p k bus)) (spec_step (Subscribe t p k) (subs, n))"
    and "bus_refines (snd (subscribe_packet f p k bus)) (spec_step (SubscribePacket f p k) (subs, n))"
proof -
  have "of_nat n \<notin> (\<lambda>s. he_handle (sub_entry s)) ` set subs" using r of_nat_handle [OF n] by (fastforce simp: bus_refines_def)
  moreover have "\<And>s. s \<in> set subs \<Longrightarrow> unat (he_handle (sub_entry s)) < Suc n" using r by (fastforce simp: bus_refines_def)
  ultimately show "bus_refines (snd (subscribe t p k bus)) (spec_step (Subscribe t p k) (subs, n))"
    and "bus_refines (snd (subscribe_packet f p k bus)) (spec_step (SubscribePacket f p k) (subs, n))"
    using r of_nat_handle [OF n]
    by (auto simp: bus_refines_def subscribe_def subscribe_packet_def next_handle_def insert_handler_def
        insert_packet_handler_def spec_add_def listeners_append)
qed

lemma isl_range: "isl x \<longleftrightarrow> x \<in> range Inl" "\<not> isl x \<longleftrightarrow> x \<in> range Inr"
  by (cases x; auto)+

lemma key_of_handle:
  assumes "\<And>k. or_default m k = listeners subs (g k)" "set ks = set (map fst m)"
  shows "(\<exists>k \<in> set ks. h \<in> he_handle ` set (or_default m k)) \<longleftrightarrow> (\<exists>s \<in> set subs. sub_target s \<in> range g \<and> he_handle (sub_entry s) = h)"
proof -
  have "(\<exists>k \<in> set ks. h \<in> he_handle ` set (or_default m k)) \<longleftrightarrow> (\<exists>k. h \<in> he_handle ` set (or_default m k))"
    using or_default_key [of m] assms(2) by (metis empty_iff image_empty list.set(1) list.set_map)
  then show ?thesis by (auto simp: assms(1) set_listeners)
qed

lemma length_filter_remove:
  "distinct (map f xs) \<Longrightarrow> x \<in> set xs \<Longrightarrow> P x \<Longrightarrow> length (filter P xs) = Suc (length (filter P (filter (\<lambda>y. f y \<noteq> f x) xs)))"
proof (induction xs)
  case (Cons y ys)
  show ?case
  proof (cases "y = x")
    case True
    with Cons.prems have "filter (\<lambda>y. f y \<noteq> f x) ys = ys" by (intro filter_True ballI) (auto simp: image_iff eq_commute)
    with True Cons.prems show ?thesis by simp
  next
    case False
    with Cons show ?thesis by auto
  qed
qed simp

lemma bus_refines_remove:
  assumes r: "bus_refines bus (subs, n)" and it: "\<And>ks. set (it ks) = set ks" and ip: "\<And>ks. set (ip ks) = set ks"
  shows "bus_refines (unsubscribe it ip h bus) (spec_step (Unsubscribe h) (subs, n))"
proof -
  let ?subs = "filter (\<lambda>s. he_handle (sub_entry s) \<noteq> h) subs"
  let ?H = "bus_handlers bus" and ?P = "bus_packet_handlers bus"
  have d: "distinct (map (\<lambda>s. he_handle (sub_entry s)) subs)" using r by (simp add: bus_refines_def)
  have H: "or_default ?H t = listeners subs (Inl t)" and P: "or_default ?P k = listeners subs (Inr k)" for t k
    using r by (simp_all add: bus_refines_def)
  have fH: "if \<exists>k \<in> set (it (map fst ?H)). h \<in> he_handle ` set (or_default ?H k)
          then \<exists>m'. remove_from h (it (map fst ?H)) ?H = Some m' \<and> (\<forall>k. or_default m' k = filter (\<lambda>e. he_handle e \<noteq> h) (or_default ?H k))
          else remove_from h (it (map fst ?H)) ?H = None"
    by (rule remove_from_filter) (simp_all only: H distinct_listeners [OF d], drule (1) listeners_unique [OF d], simp)
  have fP: "if \<exists>k \<in> set (ip (map fst ?P)). h \<in> he_handle ` set (or_default ?P k)
          then \<exists>m'. remove_from h (ip (map fst ?P)) ?P = Some m' \<and> (\<forall>k. or_default m' k = filter (\<lambda>e. he_handle e \<noteq> h) (or_default ?P k))
          else remove_from h (ip (map fst ?P)) ?P = None"
    by (rule remove_from_filter) (simp_all only: P distinct_listeners [OF d], drule (1) listeners_unique [OF d], simp)
  have inH: "(\<exists>k \<in> set (it (map fst ?H)). h \<in> he_handle ` set (or_default ?H k)) \<longleftrightarrow>
      (\<exists>s \<in> set subs. isl (sub_target s) \<and> he_handle (sub_entry s) = h)"
    using key_of_handle [OF H it [of "map fst ?H"]] by (simp add: isl_range(1))
  have inP: "(\<exists>k \<in> set (ip (map fst ?P)). h \<in> he_handle ` set (or_default ?P k)) \<longleftrightarrow>
      (\<exists>s \<in> set subs. \<not> isl (sub_target s) \<and> he_handle (sub_entry s) = h)"
    using key_of_handle [OF P ip [of "map fst ?P"]] by (simp only: isl_range(2))
  have rest: "bus_next_handle bus = of_nat n" "length ?subs < n" "distinct (map (\<lambda>s. he_handle (sub_entry s)) ?subs)"
    "\<forall>s \<in> set ?subs. unat (he_handle (sub_entry s)) < n" "bus_packet_listeners bus = of_nat (length (filter (\<lambda>s. \<not> isl (sub_target s)) subs))"
    using r le_less_trans [OF length_filter_le] by (auto simp: bus_refines_def distinct_map_filter)
  show ?thesis
  proof (cases "\<exists>s \<in> set subs. he_handle (sub_entry s) = h")
    case False
    then have "?subs = subs" "\<not> (\<exists>s \<in> set subs. isl (sub_target s) \<and> he_handle (sub_entry s) = h)"
      "\<not> (\<exists>s \<in> set subs. \<not> isl (sub_target s) \<and> he_handle (sub_entry s) = h)" by (auto intro: filter_True)
    with fH fP r show ?thesis unfolding inH inP by (simp add: unsubscribe_def)
  next
    case True
    then obtain s where s: "s \<in> set subs" "he_handle (sub_entry s) = h" by blast
    with d have eq: "s' = s" if "s' \<in> set subs" "he_handle (sub_entry s') = h" for s' using that by (auto simp: distinct_map dest: inj_onD)
    show ?thesis
    proof (cases "isl (sub_target s)")
      case True
      then obtain m where m: "remove_from h (it (map fst ?H)) ?H = Some m" "\<And>k. or_default m k = filter (\<lambda>e. he_handle e \<noteq> h) (or_default ?H k)"
        using fH s unfolding inH by (auto split: if_splits)
      have "filter (\<lambda>s. \<not> isl (sub_target s)) ?subs = filter (\<lambda>s. \<not> isl (sub_target s)) subs"
        using eq True by (auto intro: filter_cong)
      moreover have "h \<notin> he_handle ` set (listeners subs (Inr k))" for k using eq True by (auto simp: set_listeners)
      ultimately show ?thesis using rest H P m
        by (simp add: unsubscribe_def bus_refines_def listeners_filter filter_absent)
    next
      case False
      then have "\<not> (\<exists>s \<in> set subs. isl (sub_target s) \<and> he_handle (sub_entry s) = h)" using eq by blast
      then have none: "remove_from h (it (map fst ?H)) ?H = None" using fH unfolding inH by (simp split: if_splits)
      obtain m where m: "remove_from h (ip (map fst ?P)) ?P = Some m" "\<And>k. or_default m k = filter (\<lambda>e. he_handle e \<noteq> h) (or_default ?P k)"
        using fP s False unfolding inP by (auto split: if_splits)
      have c: "length (filter (\<lambda>s. \<not> isl (sub_target s)) subs) = Suc (length (filter (\<lambda>s. \<not> isl (sub_target s)) ?subs))"
        using length_filter_remove [OF d s(1), of "\<lambda>s. \<not> isl (sub_target s)"] s(2) False by simp
      moreover have "h \<notin> he_handle ` set (listeners subs (Inl k))" for k using eq False by (auto simp: set_listeners)
      ultimately show ?thesis using rest H P m none
        by (simp add: unsubscribe_def bus_refines_def listeners_filter filter_absent)
    qed
  qed
qed

section \<open>Properties\<close>

lemma bus_refines_step:
  assumes "bus_refines bus s" "snd s < 2 ^ 64" "\<And>ks. set (it ks) = set ks" "\<And>ks. set (ip ks) = set ks"
  shows "bus_refines (bus_step it ip op bus) (spec_step op s)"
  using assms by (cases s; cases op) (auto intro: bus_refines_remove [unfolded spec_step.simps] bus_refines_add [unfolded spec_step.simps])

lemma spec_step_count: "snd (fold spec_step ops s) \<le> snd s + length ops"
proof (induction ops arbitrary: s)
  case (Cons op ops)
  have "snd (spec_step op s) \<le> Suc (snd s)" by (cases op; cases s) (auto simp: spec_add_def)
  with Cons [of "spec_step op s"] show ?case by simp
qed simp

lemma bus_refines_run:
  assumes "\<And>ks. set (it ks) = set ks" "\<And>ks. set (ip ks) = set ks"
  shows "bus_refines bus s \<Longrightarrow> snd s + length ops \<le> 2 ^ 64 \<Longrightarrow> bus_refines (fold (bus_step it ip) ops bus) (fold spec_step ops s)"
proof (induction ops arbitrary: bus s)
  case (Cons op ops)
  have "snd (spec_step op s) \<le> Suc (snd s)" by (cases op; cases s) (auto simp: spec_add_def)
  then have "snd (spec_step op s) + length ops \<le> 2 ^ 64" "snd s < 2 ^ 64" using Cons.prems(2) by simp_all
  then show ?case using Cons.IH bus_refines_step [OF Cons.prems(1) _ assms] by simp
qed simp

lemma fire_default: "fire t e bus = fold call_handler (or_default (bus_handlers bus) t) e"
  "fire_packet_event k e bus = fold call_handler (or_default (bus_packet_handlers bus) k) e"
  by (simp_all add: fire_def fire_packet_event_def or_default_def split: option.split)

text \<open>C26. In every history of at most \<open>2 ^ 64 - 1\<close> calls, and whatever the iteration order of
  the hash maps, the bus keeps exactly the subscriptions that were made and not withdrawn: an event, or a packet, calls
  each of its listeners once, by ascending priority and among equal priorities in the order they subscribed, and no other;
  \<open>has_packet_listeners\<close> says whether there is one; every new subscription gets a handle no live one has.\<close>

theorem event_bus_refines:
  assumes "length ops < 2 ^ 64" "\<And>ks. set (iter_types ks) = set ks" "\<And>ks. set (iter_packets ks) = set ks"
    and "bus = fold (bus_step iter_types iter_packets) ops bus_new" "(subs, n) = fold spec_step ops ([], 1)"
  shows "fire t event bus = fold call_handler (listeners subs (Inl t)) event
    \<and> fire_packet_event key event bus = fold call_handler (listeners subs (Inr key)) event
    \<and> (has_packet_listeners key bus \<longleftrightarrow> (\<exists>s \<in> set subs. sub_target s = Inr key))
    \<and> (length ops < 2 ^ 64 - 1 \<longrightarrow> fst (subscribe t p k bus) \<notin> (\<lambda>s. he_handle (sub_entry s)) ` set subs)"
proof -
  have r: "bus_refines bus (subs, n)"
    using bus_refines_run [OF assms(2,3) bus_refines_new, of ops] assms(1) by (simp add: assms(4,5))
  have n: "n \<le> Suc (length ops)" using spec_step_count [of ops "([], 1)"] assms(5) [symmetric] by simp
  have subs: "length subs < n" "\<And>s. s \<in> set subs \<Longrightarrow> unat (he_handle (sub_entry s)) < n" "bus_next_handle bus = of_nat n"
    "bus_packet_listeners bus = of_nat (length (filter (\<lambda>s. \<not> isl (sub_target s)) subs))"
    using r by (simp_all add: bus_refines_def)
  have "length (filter (\<lambda>s. \<not> isl (sub_target s)) subs) < 2 ^ 64"
    using subs(1) n assms(1) length_filter_le [of "\<lambda>s. \<not> isl (sub_target s)" subs] by linarith
  then have "bus_packet_listeners bus = 0 \<longleftrightarrow> filter (\<lambda>s. \<not> isl (sub_target s)) subs = []"
    by (simp only: subs(4) of_nat_zero length_0_conv)
  moreover have "listeners subs (Inr key) = [] \<longleftrightarrow> \<not> (\<exists>s \<in> set subs. sub_target s = Inr key)"
    unfolding set_empty [symmetric] set_listeners by auto
  moreover have "or_default (bus_packet_handlers bus) key = listeners subs (Inr key)" using r by (simp add: bus_refines_def)
  moreover have "has_packet_listeners key bus \<longleftrightarrow> bus_packet_listeners bus \<noteq> 0 \<and> or_default (bus_packet_handlers bus) key \<noteq> []"
    by (simp add: has_packet_listeners_def or_default_def split: option.splits)
  ultimately have "has_packet_listeners key bus \<longleftrightarrow> (\<exists>s \<in> set subs. sub_target s = Inr key)"
    by (auto simp: filter_empty_conv)
  moreover have "fst (subscribe t p k bus) \<notin> (\<lambda>s. he_handle (sub_entry s)) ` set subs" if "length ops < 2 ^ 64 - 1"
  proof
    assume "fst (subscribe t p k bus) \<in> (\<lambda>s. he_handle (sub_entry s)) ` set subs"
    then obtain s where s: "s \<in> set subs" "he_handle (sub_entry s) = of_nat n"
      by (auto simp: subscribe_def next_handle_def insert_handler_def subs(3))
    have "n < 2 ^ 64" using n that by linarith
    from of_nat_handle [OF this] subs(2) [OF s(1)] s(2) show False by simp
  qed
  ultimately show ?thesis using r by (simp add: fire_default bus_refines_def)
qed

definition sample_ops :: "(nat, string) bus_op list" where
  "sample_ops =
     [Subscribe 0 LATE (SyncHandler (\<lambda>e. e @ ''l'')), Subscribe 1 FIRST (SyncHandler rev),
      Subscribe 0 NORMAL (AsyncHandler (\<lambda>e. e @ ''n'')), Subscribe 0 FIRST (SyncHandler (\<lambda>e. e @ ''f'')),
      Unsubscribe 4, Subscribe 0 NORMAL (SyncHandler (\<lambda>e. e @ ''m''))]"

theorem event_bus_refines_witness: "fire 0 ''x'' (fold (bus_step rev rev) sample_ops bus_new) = ''xnml''"
proof -
  let ?s = "fold spec_step sample_ops ([], 1)"
  have "fire 0 ''x'' (fold (bus_step rev rev) sample_ops bus_new) = fold call_handler (listeners (fst ?s) (Inl 0)) ''x''"
    using event_bus_refines [of sample_ops rev rev "fold (bus_step rev rev) sample_ops bus_new" "fst ?s" "snd ?s" 0 "''x''"]
    by (simp add: sample_ops_def)
  also have "\<dots> = ''xnml''"
    by (simp add: sample_ops_def spec_add_def listeners_def call_handler_def LATE_def NORMAL_def FIRST_def)
  finally show ?thesis .
qed

end
