(* ===== verification/Text.thy ===== *)
theory Text
  imports Prelude
begin

text \<open>
  The operations of \<open>str\<close> that the code uses on text typed by people: a string of UTF-8 bytes
  is cut into its characters, and \<open>trim\<close>, \<open>trim_start\<close> and \<open>split_whitespace\<close> work on those.
\<close>

section \<open>Characters\<close>

text \<open>Continuation bytes have the form 10xxxxxx.\<close>

definition continuation :: "char \<Rightarrow> bool" where
  "continuation c \<longleftrightarrow> digit7 c \<and> \<not> digit6 c"

function str_split_chars :: "string \<Rightarrow> string list" where
  "str_split_chars [] = []"
| "str_split_chars (c # s) = (c # takeWhile continuation s) # str_split_chars (dropWhile continuation s)"
  by pat_completeness auto
termination
  by (relation "measure length") (auto simp: le_imp_less_Suc length_dropWhile_le)

text \<open>The code points with the property White\_Space, in UTF-8.\<close>

definition is_whitespace :: "string \<Rightarrow> bool" where
  "is_whitespace ch \<longleftrightarrow> ch \<in> set [
     [CHR 0x09], [CHR 0x0A], [CHR 0x0B], [CHR 0x0C], [CHR 0x0D], [CHR 0x20], [CHR 0xC2, CHR 0x85],
      [CHR 0xC2, CHR 0xA0], [CHR 0xE1, CHR 0x9A, CHR 0x80], [CHR 0xE2, CHR 0x80, CHR 0x80],
      [CHR 0xE2, CHR 0x80, CHR 0x81], [CHR 0xE2, CHR 0x80, CHR 0x82], [CHR 0xE2, CHR 0x80, CHR 0x83],
      [CHR 0xE2, CHR 0x80, CHR 0x84], [CHR 0xE2, CHR 0x80, CHR 0x85], [CHR 0xE2, CHR 0x80, CHR 0x86],
      [CHR 0xE2, CHR 0x80, CHR 0x87], [CHR 0xE2, CHR 0x80, CHR 0x88], [CHR 0xE2, CHR 0x80, CHR 0x89],
      [CHR 0xE2, CHR 0x80, CHR 0x8A], [CHR 0xE2, CHR 0x80, CHR 0xA8], [CHR 0xE2, CHR 0x80, CHR 0xA9],
      [CHR 0xE2, CHR 0x80, CHR 0xAF], [CHR 0xE2, CHR 0x81, CHR 0x9F], [CHR 0xE3, CHR 0x80, CHR 0x80]]"

definition trim_start :: "string \<Rightarrow> string" where
  "trim_start s = concat (dropWhile is_whitespace (str_split_chars s))"

definition trim :: "string \<Rightarrow> string" where
  "trim s = concat (rev (dropWhile is_whitespace (rev (dropWhile is_whitespace (str_split_chars s)))))"

fun split_words :: "string list \<Rightarrow> string list \<Rightarrow> string list" where
  "split_words [] w = (if w = [] then [] else [concat w])"
| "split_words (ch # s) w =
     (if is_whitespace ch then (if w = [] then split_words s [] else concat w # split_words s []) else split_words s (w @ [ch]))"

definition split_whitespace :: "string \<Rightarrow> string list" where
  "split_whitespace s = split_words (str_split_chars s) []"

section \<open>Facts\<close>

lemma concat_str_split_chars [simp]: "concat (str_split_chars s) = s"
  by (induction s rule: str_split_chars.induct) simp_all

lemma is_whitespace_Nil [simp]: "\<not> is_whitespace []"
  by (simp add: is_whitespace_def)

lemma str_split_chars_parts: "ch \<in> set (str_split_chars s) \<Longrightarrow> ch \<noteq> []"
  by (induction s rule: str_split_chars.induct) auto

text \<open>Words are not empty, and \<open>trim\<close> does not change them.\<close>

lemma split_words_not_Nil: "(\<forall>ch \<in> set s \<union> set w. ch \<noteq> []) \<Longrightarrow> x \<in> set (split_words s w) \<Longrightarrow> x \<noteq> []"
  by (induction s w rule: split_words.induct) (auto split: if_splits)

lemma split_whitespace_words: "x \<in> set (split_whitespace s) \<Longrightarrow> x \<noteq> []"
  unfolding split_whitespace_def by (rule split_words_not_Nil) (auto dest: str_split_chars_parts)

lemma split_words_blank: "split_words (dropWhile is_whitespace s) [] = split_words s []"
  by (induction s) auto

end
