(* ===== verification/Commands.thy ===== *)
theory Commands
  imports Text Legacy Sessions Bans "HOL-Library.AList"
begin

text \<open>
  Commands: the command manager of \<open>services/command_manager.rs\<close>, the console's line parser
  (\<open>console/parser.rs\<close>) and the permission service (\<open>permissions/mod.rs\<close>). Lower-casing is a
  parameter; a handler is a value of any type, and \<open>dispatch\<close> returns the call it makes.
\<close>

section \<open>The command manager\<close>

record 'h registered_command =
  rc_handler :: 'h
  rc_aliases :: "string list"
  rc_description :: string
  rc_is_builtin :: bool
  rc_plugin_id :: string

record 'h command_manager =
  cm_commands :: "(string \<times> 'h registered_command) list"
  cm_aliases :: "(string \<times> string) list"

record 'p command_context =
  cc_player_id :: "'p option"
  cc_args :: "string list"
  cc_raw :: string

definition command_manager_new :: "'h command_manager" where
  "command_manager_new = \<lparr>cm_commands = [], cm_aliases = []\<rparr>"

definition canonical_name :: "(string \<Rightarrow> string) \<Rightarrow> 'h command_manager \<Rightarrow> string \<Rightarrow> string" where
  "canonical_name lc cm name =
     (let name_lower = lc name in case map_of (cm_aliases cm) name_lower of Some n \<Rightarrow> n | None \<Rightarrow> name_lower)"

definition dispatch ::
  "(string \<Rightarrow> string) \<Rightarrow> 'p option \<Rightarrow> string \<Rightarrow> 'h command_manager \<Rightarrow> ('h \<times> 'p command_context) option" where
  "dispatch lc player_id input cm =
     (let input = trim input;
          (name, args_str) = (case split_once (CHR '' '') input of Some (n, a) \<Rightarrow> (n, a) | None \<Rightarrow> (input, []));
          canonical = canonical_name lc cm name
      in case map_of (cm_commands cm) canonical of
           None \<Rightarrow> None
         | Some cmd \<Rightarrow>
             let args = (if args_str = [] then [] else split_whitespace args_str)
             in Some (rc_handler cmd, \<lparr>cc_player_id = player_id, cc_args = args, cc_raw = input\<rparr>))"

definition insert_aliases :: "string list \<Rightarrow> string \<Rightarrow> (string \<times> string) list \<Rightarrow> (string \<times> string) list" where
  "insert_aliases as n m = fold (\<lambda>a. AList.update a n) as m"

definition register_builtin ::
  "(string \<Rightarrow> string) \<Rightarrow> string \<Rightarrow> string list \<Rightarrow> string \<Rightarrow> 'h \<Rightarrow> 'h command_manager \<Rightarrow> 'h command_manager" where
  "register_builtin lc name aliases description handler cm =
     (let name_lower = lc name; alias_list = map lc aliases
      in cm\<lparr>cm_aliases := insert_aliases alias_list name_lower (cm_aliases cm),
            cm_commands := AList.update name_lower
              \<lparr>rc_handler = handler, rc_aliases = alias_list, rc_description = description, rc_is_builtin = True,
               rc_plugin_id = []\<rparr> (cm_commands cm)\<rparr>)"

definition unregister :: "(string \<Rightarrow> string) \<Rightarrow> string \<Rightarrow> 'h command_manager \<Rightarrow> 'h command_manager" where
  "unregister lc name cm =
     (let name_lower = lc name;
          alias_list = (case map_of (cm_commands cm) name_lower of Some cmd \<Rightarrow> rc_aliases cmd | None \<Rightarrow> [])
      in cm\<lparr>cm_aliases := fold AList.delete alias_list (cm_aliases cm),
            cm_commands := AList.delete name_lower (cm_commands cm)\<rparr>)"

definition register_with_plugin_id ::
  "(string \<Rightarrow> string) \<Rightarrow> string \<Rightarrow> string list \<Rightarrow> string \<Rightarrow> 'h \<Rightarrow> string \<Rightarrow> 'h command_manager \<Rightarrow> 'h command_manager" where
  "register_with_plugin_id lc name aliases description handler plugin_id cm =
     (let name_lower = lc name
      in if (case map_of (cm_commands cm) name_lower of Some existing \<Rightarrow> rc_is_builtin existing | None \<Rightarrow> False) then cm
         else let cm = unregister lc name cm; alias_list = map lc aliases
              in cm\<lparr>cm_aliases := insert_aliases alias_list name_lower (cm_aliases cm),
                    cm_commands := AList.update name_lower
                      \<lparr>rc_handler = handler, rc_aliases = alias_list, rc_description = description, rc_is_builtin = False,
                       rc_plugin_id = plugin_id\<rparr> (cm_commands cm)\<rparr>)"

definition register_command ::
  "(string \<Rightarrow> string) \<Rightarrow> string \<Rightarrow> string list \<Rightarrow> string \<Rightarrow> 'h \<Rightarrow> 'h command_manager \<Rightarrow> 'h command_manager" where
  "register_command lc name aliases description handler cm = register_with_plugin_id lc name aliases description handler [] cm"

definition list_commands :: "'h command_manager \<Rightarrow> (string \<times> string) list" where
  "list_commands cm = map (\<lambda>(n, c). (n, rc_description c)) (cm_commands cm)"

definition list_plugin_commands :: "'h command_manager \<Rightarrow> (string \<times> string) list" where
  "list_plugin_commands cm = map (\<lambda>(n, c). (n, rc_plugin_id c)) (filter (\<lambda>(_, c). \<not> rc_is_builtin c) (cm_commands cm))"

definition find_plugin_command :: "(string \<Rightarrow> string) \<Rightarrow> string \<Rightarrow> string \<Rightarrow> 'h command_manager \<Rightarrow> 'h option" where
  "find_plugin_command lc plugin_id command_name cm =
     (case map_of (cm_commands cm) (lc command_name) of
        Some cmd \<Rightarrow> if rc_plugin_id cmd = plugin_id then Some (rc_handler cmd) else None
      | None \<Rightarrow> None)"

definition commands_for_plugin :: "string \<Rightarrow> 'h command_manager \<Rightarrow> (string \<times> string) list" where
  "commands_for_plugin plugin_id cm =
     map (\<lambda>(n, c). (n, rc_description c)) (filter (\<lambda>(_, c). rc_plugin_id c = plugin_id) (cm_commands cm))"

definition is_plugin_command :: "(string \<Rightarrow> string) \<Rightarrow> string \<Rightarrow> 'h command_manager \<Rightarrow> bool" where
  "is_plugin_command lc name cm =
     (case map_of (cm_commands cm) (lc name) of Some cmd \<Rightarrow> \<not> rc_is_builtin cmd | None \<Rightarrow> False)"

text \<open>Completion: the handler called with the arguments typed so far and the cursor.\<close>

definition tab_complete_for_player ::
  "(string \<Rightarrow> string) \<Rightarrow> string \<Rightarrow> 'h command_manager \<Rightarrow> ('h \<times> string list \<times> u32) option" where
  "tab_complete_for_player lc input cm =
     (let input = trim_start input;
          (name, rest) = (case split_once (CHR '' '') input of Some (n, r) \<Rightarrow> (n, r) | None \<Rightarrow> (input, []));
          cursor = (if length rest < 2 ^ 32 then of_nat (length rest) else - 1);
          canonical = canonical_name lc cm name
      in case map_of (cm_commands cm) canonical of
           None \<Rightarrow> None
         | Some cmd \<Rightarrow>
             let partial_args =
               (if rest = [] then []
                else if last rest = CHR '' '' then split_whitespace rest @ [[]]
                else split_whitespace rest)
             in Some (rc_handler cmd, partial_args, cursor))"

section \<open>The console's parser\<close>

record parsed_line =
  pl_command :: string
  pl_args :: "string list"

definition parse_line :: "string \<Rightarrow> parsed_line option" where
  "parse_line line =
     (let trimmed = trim line
      in if trimmed = [] then None
         else case split_whitespace trimmed of
             [] \<Rightarrow> None
           | command # args \<Rightarrow> Some \<lparr>pl_command = command, pl_args = args\<rparr>)"

definition format_duration_short :: "duration \<Rightarrow> string" where
  "format_duration_short d =
     (let total_secs = d div 1000000000
      in if total_secs = 0 then ''0s''
         else let days = total_secs div 86400; hours = total_secs mod 86400 div 3600;
                  minutes = total_secs mod 3600 div 60; seconds = total_secs mod 60;
                  parts = (if days > 0 then [show_nat days @ ''d''] else [])
                    @ (if hours > 0 then [show_nat hours @ ''h''] else [])
                    @ (if minutes > 0 then [show_nat minutes @ ''m''] else []);
                  parts = (if seconds > 0 \<and> length parts < 2 then parts @ [show_nat seconds @ ''s''] else parts)
              in concat (case take 2 parts of [] \<Rightarrow> [] | p # ps \<Rightarrow> p # concat (map (\<lambda>q. ['' '', q]) ps)))"

definition parse_duration_arg ::
  "(string \<Rightarrow> string) \<Rightarrow> (string \<Rightarrow> string + duration) \<Rightarrow> string \<Rightarrow> string + duration option" where
  "parse_duration_arg lc parse_duration arg =
     (let lower = lc arg
      in if lower = ''permanent'' \<or> lower = ''perm'' then Ok None
         else case parse_duration arg of
             Ok d \<Rightarrow> Ok (Some d)
           | Err e \<Rightarrow> Err (''Invalid duration '' @ quoted arg @ '': '' @ e))"

definition parse_ban_target ::
  "(string \<Rightarrow> ip_addr option) \<Rightarrow> (string \<Rightarrow> uuid option) \<Rightarrow> string \<Rightarrow> ban_target" where
  "parse_ban_target parse_ip parse_uuid arg =
     (case parse_ip arg of
        Some ip \<Rightarrow> BanIp ip
      | None \<Rightarrow> (case parse_uuid arg of Some u \<Rightarrow> BanUuid u | None \<Rightarrow> BanUsername arg))"

section \<open>Permissions\<close>

datatype permission_level = PlayerLevel | AdminLevel

record subcommand_info =
  sc_all :: "string list"
  sc_admin_only :: "string list"

record permission_service =
  perm_admins :: "uuid list"
  perm_player_commands :: "string list"
  perm_subcommands :: "subcommand_info option"

text \<open>\<open>resolve\<close> asks the name service; \<open>parse_uuid\<close> reads the text form of a UUID.\<close>

definition resolve_admins_into ::
  "(string \<Rightarrow> uuid option) \<Rightarrow> (string \<Rightarrow> string + uuid) \<Rightarrow> string list \<Rightarrow> uuid list \<Rightarrow> uuid list" where
  "resolve_admins_into parse_uuid resolve admins target =
     fold (\<lambda>entry target.
       let trimmed = trim entry
       in if trimmed = [] then target
          else case parse_uuid trimmed of
              Some u \<Rightarrow> List.insert u target
            | None \<Rightarrow> (case resolve trimmed of Ok u \<Rightarrow> List.insert u target | Err _ \<Rightarrow> target)) admins target"

definition permissions_build :: "(string \<Rightarrow> string) \<Rightarrow> string list \<Rightarrow> uuid list \<Rightarrow> permission_service" where
  "permissions_build lc player_commands admins =
     \<lparr>perm_admins = admins, perm_player_commands = remdups (map lc player_commands), perm_subcommands = None\<rparr>"

definition permissions_new ::
  "(string \<Rightarrow> string) \<Rightarrow> (string \<Rightarrow> uuid option) \<Rightarrow> (string \<Rightarrow> string + uuid) \<Rightarrow> string list \<Rightarrow> string list \<Rightarrow> permission_service" where
  "permissions_new lc parse_uuid resolve admins player_commands =
     permissions_build lc player_commands (resolve_admins_into parse_uuid resolve admins [])"

definition register_subcommands :: "string list \<Rightarrow> string list \<Rightarrow> permission_service \<Rightarrow> permission_service" where
  "register_subcommands all admin_only p =
     (case perm_subcommands p of
        None \<Rightarrow> p\<lparr>perm_subcommands := Some \<lparr>sc_all = all, sc_admin_only = admin_only\<rparr>\<rparr>
      | Some _ \<Rightarrow> p)"

definition is_admin :: "uuid \<Rightarrow> permission_service \<Rightarrow> bool" where
  "is_admin u p \<longleftrightarrow> u \<in> set (perm_admins p)"

definition is_command_allowed :: "(string \<Rightarrow> string) \<Rightarrow> string \<Rightarrow> permission_level \<Rightarrow> permission_service \<Rightarrow> bool" where
  "is_command_allowed lc command level p =
     (if level = AdminLevel then True
      else let cmd_lower = lc command
           in if (case perm_subcommands p of Some info \<Rightarrow> cmd_lower \<in> set (sc_admin_only info) | None \<Rightarrow> False) then False
              else cmd_lower \<in> set (perm_player_commands p))"

definition visible_subcommands :: "permission_level \<Rightarrow> permission_service \<Rightarrow> string list" where
  "visible_subcommands level p =
     (if level = AdminLevel then (case perm_subcommands p of Some info \<Rightarrow> sc_all info | None \<Rightarrow> [])
      else filter (\<lambda>cmd. case perm_subcommands p of Some info \<Rightarrow> cmd \<notin> set (sc_admin_only info) | None \<Rightarrow> True) (perm_player_commands p))"

definition permissions_reload ::
  "(string \<Rightarrow> uuid option) \<Rightarrow> (string \<Rightarrow> string + uuid) \<Rightarrow> string list \<Rightarrow> permission_service \<Rightarrow> permission_service" where
  "permissions_reload parse_uuid resolve admins p =
     (let new_uuids = resolve_admins_into parse_uuid resolve admins [];
          added = fold List.insert new_uuids (perm_admins p)
      in p\<lparr>perm_admins := filter (\<lambda>u. u \<in> set new_uuids) added\<rparr>)"

definition add_admin :: "uuid \<Rightarrow> permission_service \<Rightarrow> permission_service" where
  "add_admin u p = p\<lparr>perm_admins := List.insert u (perm_admins p)\<rparr>"

definition remove_admin :: "uuid \<Rightarrow> permission_service \<Rightarrow> bool \<times> permission_service" where
  "remove_admin u p = (u \<in> set (perm_admins p), p\<lparr>perm_admins := removeAll u (perm_admins p)\<rparr>)"

text \<open>The checker of a player shares the set of admins with the service.\<close>

definition permission_level_of :: "uuid \<Rightarrow> permission_service \<Rightarrow> permission_level" where
  "permission_level_of u p = (if u \<in> set (perm_admins p) then AdminLevel else PlayerLevel)"

definition strip_prefix :: "string \<Rightarrow> string \<Rightarrow> string option" where
  "strip_prefix p s = (if take (length p) s = p then Some (drop (length p) s) else None)"

definition has_permission :: "uuid \<Rightarrow> string \<Rightarrow> permission_service \<Rightarrow> bool" where
  "has_permission u permission p =
     (let is_admin = u \<in> set (perm_admins p)
      in if permission = ''infrarust.admin'' then is_admin
         else case strip_prefix ''infrarust.command.'' permission of
             Some cmd \<Rightarrow> is_admin \<or> cmd \<in> set (perm_player_commands p)
           | None \<Rightarrow> is_admin)"

section \<open>Command resolution\<close>

text \<open>The names under which a command may be called, and that no two commands share one.\<close>

definition claims :: "string \<times> 'h registered_command \<Rightarrow> string set" where
  "claims = (\<lambda>(n, c). insert n (set (rc_aliases c)))"

abbreviation cmd :: "'h command_manager \<Rightarrow> string \<Rightarrow> 'h registered_command option" where
  "cmd cm \<equiv> map_of (cm_commands cm)"

definition claims_disjoint :: "'h command_manager \<Rightarrow> bool" where
  "claims_disjoint cm \<longleftrightarrow> (\<forall>n c n' c'. cmd cm n = Some c \<longrightarrow> cmd cm n' = Some c' \<longrightarrow> n \<noteq> n' \<longrightarrow> claims (n, c) \<inter> claims (n', c') = {})"

text \<open>A name is free for a command when no other command answers to it.\<close>

definition free_names :: "(string \<Rightarrow> string) \<Rightarrow> string \<Rightarrow> string list \<Rightarrow> 'h command_manager \<Rightarrow> bool" where
  "free_names lc name aliases cm \<longleftrightarrow>
     (\<forall>n c. cmd cm n = Some c \<longrightarrow> n \<noteq> lc name \<longrightarrow> claims (n, c) \<inter> set (map lc (name # aliases)) = {})"

definition alias_index :: "'h command_manager \<Rightarrow> bool" where
  "alias_index cm \<longleftrightarrow> (\<forall>a n. map_of (cm_aliases cm) a = Some n \<longleftrightarrow> (\<exists>c. cmd cm n = Some c \<and> a \<in> set (rc_aliases c)))"

inductive commands_reach :: "(string \<Rightarrow> string) \<Rightarrow> 'h command_manager \<Rightarrow> bool" for lc where
  start: "commands_reach lc command_manager_new"
| builtin: "commands_reach lc cm \<Longrightarrow> free_names lc name aliases cm \<Longrightarrow> cmd cm (lc name) = None \<Longrightarrow>
    commands_reach lc (register_builtin lc name aliases d h cm)"
| plugin: "commands_reach lc cm \<Longrightarrow> free_names lc name aliases cm \<Longrightarrow>
    commands_reach lc (register_with_plugin_id lc name aliases d h pid cm)"
| remove: "commands_reach lc cm \<Longrightarrow> commands_reach lc (unregister lc name cm)"

lemma map_of_insert_aliases: "map_of (insert_aliases as n m) a = (if a \<in> set as then Some n else map_of m a)"
  unfolding insert_aliases_def by (induction as arbitrary: m) (auto simp: update_conv')

lemma cmd_unregister: "cmd (unregister lc name cm) = (cmd cm)(lc name := None)"
  by (simp add: unregister_def Let_def delete_conv')

lemma disjointD:
  "claims_disjoint cm \<Longrightarrow> cmd cm n = Some c \<Longrightarrow> cmd cm n' = Some c' \<Longrightarrow> x \<in> claims (n, c) \<Longrightarrow> x \<in> claims (n', c') \<Longrightarrow> n' = n"
  unfolding claims_disjoint_def by blast

lemma aliases_claimed: "a \<in> set (rc_aliases c) \<Longrightarrow> a \<in> claims (n, c)" "n \<in> claims (n, c)"
  by (simp_all add: claims_def)

lemma unregister_ok:
  assumes "alias_index cm" "claims_disjoint cm"
  shows "alias_index (unregister lc name cm)" "claims_disjoint (unregister lc name cm)"
proof -
  let ?A = "case cmd cm (lc name) of Some c \<Rightarrow> rc_aliases c | None \<Rightarrow> []"
  have "map_of (cm_aliases (unregister lc name cm)) a = Some n \<longleftrightarrow> (\<exists>c. cmd (unregister lc name cm) n = Some c \<and> a \<in> set (rc_aliases c))" for a n
  proof -
    have "a \<notin> set ?A" if "cmd cm n = Some c" "a \<in> set (rc_aliases c)" "n \<noteq> lc name" for c
      using disjointD [OF assms(2) that(1) _ aliases_claimed(1) [OF that(2)] aliases_claimed(1)] that(3) by (cases "cmd cm (lc name)") auto
    moreover have "a \<in> set ?A" if "cmd cm (lc name) = Some c" "a \<in> set (rc_aliases c)" for c using that by simp
    ultimately show ?thesis
      using assms(1) [unfolded alias_index_def, rule_format, of a n]
      by (auto simp: cmd_unregister) (auto simp: unregister_def Let_def map_of_fold_delete split: if_splits)
  qed
  then show "alias_index (unregister lc name cm)" by (simp add: alias_index_def)
  show "claims_disjoint (unregister lc name cm)" using assms(2) by (auto simp: claims_disjoint_def cmd_unregister)
qed

text \<open>Adding a command whose names are free.\<close>

lemma add_command_ok:
  assumes "alias_index cm" "claims_disjoint cm" "cmd cm n = None" "rc_aliases c = as"
    and free: "\<And>n' c'. cmd cm n' = Some c' \<Longrightarrow> claims (n', c') \<inter> insert n (set as) = {}"
    and cm': "cm' = cm\<lparr>cm_aliases := insert_aliases as n (cm_aliases cm), cm_commands := AList.update n c (cm_commands cm)\<rparr>"
  shows "alias_index cm'" "claims_disjoint cm'"
proof -
  have cmd: "cmd cm' = (cmd cm)(n \<mapsto> c)" by (simp add: cm' update_conv')
  have "a \<notin> set as" if "cmd cm n' = Some c'" "a \<in> set (rc_aliases c')" for n' c' a
    using free [OF that(1)] aliases_claimed(1) [OF that(2), of n'] by blast
  then show "alias_index cm'"
    using assms(1,3,4) by (auto simp: alias_index_def cmd) (auto simp: cm' map_of_insert_aliases split: if_splits)
  show "claims_disjoint cm'"
    using assms(2,4) free by (fastforce simp: claims_disjoint_def cmd claims_def)
qed

lemma commands_reach_ok: "commands_reach lc cm \<Longrightarrow> alias_index cm \<and> claims_disjoint cm"
proof (induction rule: commands_reach.induct)
  case start
  then show ?case by (simp add: command_manager_new_def alias_index_def claims_disjoint_def)
next
  case (builtin cm name aliases d h)
  have f: "claims (n', c') \<inter> insert (lc name) (set (map lc aliases)) = {}" if "cmd cm n' = Some c'" for n' c'
    using builtin.hyps(2,3) that unfolding free_names_def by (metis list.simps(15) list.simps(9) option.distinct(1))
  show ?case
    using add_command_ok [OF _ _ builtin.hyps(3) _ f] builtin.IH
    by (simp add: register_builtin_def Let_def)
next
  case (plugin cm name aliases d h pid)
  let ?u = "unregister lc name cm"
  have f: "claims (n', c') \<inter> insert (lc name) (set (map lc aliases)) = {}" if "cmd ?u n' = Some c'" for n' c'
    using plugin.hyps(2) that unfolding free_names_def cmd_unregister by (auto split: if_splits)
  show ?case
  proof (cases "case cmd cm (lc name) of Some existing \<Rightarrow> rc_is_builtin existing | None \<Rightarrow> False")
    case True
    with plugin.IH show ?thesis by (simp add: register_with_plugin_id_def)
  next
    case False
    have "cmd ?u (lc name) = None" by (simp add: cmd_unregister)
    from add_command_ok [OF unregister_ok [where name = name and lc = lc] this _ f] plugin.IH False show ?thesis
      by (simp add: register_with_plugin_id_def Let_def)
  qed
next
  case (remove cm name)
  then show ?case by (simp add: unregister_ok)
qed

lemma canonical_name_claimed:
  assumes "commands_reach lc cm" "cmd cm n = Some c" "lc name \<in> claims (n, c)"
  shows "canonical_name lc cm name = n"
proof (cases "map_of (cm_aliases cm) (lc name)")
  case None
  then have "lc name \<notin> set (rc_aliases c)"
    using commands_reach_ok [OF assms(1)] assms(2) unfolding alias_index_def by (metis option.distinct(1))
  with None assms(3) show ?thesis by (simp add: canonical_name_def Let_def claims_def)
next
  case (Some n')
  then obtain c' where c': "cmd cm n' = Some c'" "lc name \<in> set (rc_aliases c')"
    using commands_reach_ok [OF assms(1)] unfolding alias_index_def by blast
  with disjointD [OF _ assms(2) c'(1) assms(3) aliases_claimed(1)] commands_reach_ok [OF assms(1)] have "n' = n" by blast
  with Some show ?thesis by (simp add: canonical_name_def Let_def)
qed

lemma canonical_name_unclaimed:
  assumes "commands_reach lc cm" "cmd cm (canonical_name lc cm name) = Some c"
  shows "lc name \<in> claims (canonical_name lc cm name, c)"
proof (cases "map_of (cm_aliases cm) (lc name)")
  case (Some n')
  then obtain c' where "cmd cm n' = Some c'" "lc name \<in> set (rc_aliases c')"
    using commands_reach_ok [OF assms(1)] unfolding alias_index_def by blast
  with Some assms(2) show ?thesis by (auto simp: canonical_name_def Let_def claims_def)
qed (simp add: canonical_name_def Let_def claims_def)

lemma dispatch_alt:
  "dispatch lc pl input cm =
     map_option (\<lambda>c. (rc_handler c, \<lparr>cc_player_id = pl,
         cc_args = split_whitespace (tl (dropWhile (\<lambda>x. x \<noteq> CHR '' '') (trim input))), cc_raw = trim input\<rparr>))
       (cmd cm (canonical_name lc cm (takeWhile (\<lambda>x. x \<noteq> CHR '' '') (trim input))))"
proof (cases "CHR '' '' \<in> set (trim input)")
  case True
  then show ?thesis
    by (simp add: dispatch_def Let_def split_once_def split: option.split) (simp add: split_whitespace_def)
next
  case False
  then have e: "takeWhile (\<lambda>x. x \<noteq> CHR '' '') (trim input) = trim input" "dropWhile (\<lambda>x. x \<noteq> CHR '' '') (trim input) = []"
    by (auto simp: takeWhile_eq_all_conv dropWhile_eq_Nil_conv)
  show ?thesis unfolding e using False by (simp add: dispatch_def Let_def split_once_def split_whitespace_def split: option.split)
qed

section \<open>Properties\<close>


definition sample_commands :: "nat command_manager" where
  "sample_commands = register_with_plugin_id id ''msg'' [''tell''] ''Talk'' 7 ''chat'' (register_builtin id ''help'' [''h''] ''Help'' 1 command_manager_new)"


section \<open>Permissions\<close>

text \<open>What a player is shown is what the player may run.\<close>

lemma visible_allowed:
  "lc c = c \<Longrightarrow> c \<in> set (visible_subcommands PlayerLevel p) \<longleftrightarrow> is_command_allowed lc c PlayerLevel p"
  by (auto simp: visible_subcommands_def is_command_allowed_def split: option.splits)

lemma set_fold_insert: "set (fold List.insert us vs) = set us \<union> set vs"
  by (induction us arbitrary: vs) auto

text \<open>After a reload the admins are those of the new configuration, whatever was added by hand.\<close>

lemma reload_admins: "set (perm_admins (permissions_reload parse_uuid resolve admins p)) = set (resolve_admins_into parse_uuid resolve admins [])"
  by (auto simp: permissions_reload_def Let_def set_fold_insert)

lemma admin_changes:
  "is_admin u (add_admin v p) \<longleftrightarrow> u = v \<or> is_admin u p"
  "is_admin u (snd (remove_admin v p)) \<longleftrightarrow> u \<noteq> v \<and> is_admin u p" "fst (remove_admin v p) \<longleftrightarrow> is_admin v p"
  by (auto simp: is_admin_def add_admin_def remove_admin_def)

text \<open>
  The two ways of asking disagree: the permission of an admin-only command that the
  configuration opens to players is granted by name and refused by \<open>is_command_allowed\<close>.
\<close>

lemma permission_name_ignores_admin_only:
  "\<exists>p u. has_permission u ''infrarust.command.stop'' p \<and> \<not> is_command_allowed id ''stop'' (permission_level_of u p) p"
proof -
  let ?p = "\<lparr>perm_admins = [], perm_player_commands = [''stop''], perm_subcommands = Some \<lparr>sc_all = [''stop''], sc_admin_only = [''stop'']\<rparr>\<rparr>"
  have "has_permission 0 ''infrarust.command.stop'' ?p" "\<not> is_command_allowed id ''stop'' (permission_level_of 0 ?p) ?p"
    by (simp_all add: has_permission_def strip_prefix_def is_command_allowed_def permission_level_of_def)
  then show ?thesis by blast
qed

section \<open>Findings on commands\<close>

text \<open>An alias of a plugin takes over a built-in command, which \<open>register\<close> protects only by name.\<close>

lemma alias_shadows_builtin:
  "dispatch id None ''help'' (register_with_plugin_id id ''evil'' [''help''] [] (2 :: nat) ''p''
     (register_builtin id ''help'' [] [] 1 command_manager_new)) =
   Some (2, \<lparr>cc_player_id = None :: nat option, cc_args = [], cc_raw = ''help''\<rparr>)"
proof -
  have "trim ''help'' = ''help''" by code_simp
  then show ?thesis
    by (simp add: dispatch_def canonical_name_def split_once_def register_with_plugin_id_def register_builtin_def
        command_manager_new_def unregister_def insert_aliases_def Let_def)
qed

end
