(* ===== verification/Components.thy ===== *)
theory Components imports Wire begin

text \<open>
  Text components: \<open>types/component.rs\<close> of the API. A component is written as JSON for versions before 1.20.3 and as
  network NBT from then on, read from JSON, and built from texts with \<open>&\<close> codes.

  Strings are their UTF-8 bytes. All characters with a meaning here are ASCII, which are never part of a longer UTF-8
  sequence, so going through the bytes is going through the characters. The JSON parser is a parameter.
\<close>

section \<open>Components\<close>

datatype click_event = OpenUrl string | SuggestCommand string | RunCommand string | CopyToClipboard string

datatype component = Component
    (cp_text: string) (cp_color: "string option") (cp_bold: "bool option") (cp_italic: "bool option")
    (cp_underlined: "bool option") (cp_strikethrough: "bool option") (cp_obfuscated: "bool option")
    (cp_extra: "component list") (cp_click: "click_event option") (cp_hover: "hover_event option")
  and hover_event = ShowText component

definition component_text :: "string \<Rightarrow> component" where
  "component_text t = Component t None None None None None None [] None None"

fun set_color :: "string \<Rightarrow> component \<Rightarrow> component" where
  "set_color c (Component t col b i u st ob ex cl hv) = Component t (Some c) b i u st ob ex cl hv"

fun set_bold :: "component \<Rightarrow> component" where
  "set_bold (Component t col b i u st ob ex cl hv) = Component t col (Some True) i u st ob ex cl hv"

fun set_italic :: "component \<Rightarrow> component" where
  "set_italic (Component t col b i u st ob ex cl hv) = Component t col b (Some True) u st ob ex cl hv"

fun set_underlined :: "component \<Rightarrow> component" where
  "set_underlined (Component t col b i u st ob ex cl hv) = Component t col b i (Some True) st ob ex cl hv"

fun set_strikethrough :: "component \<Rightarrow> component" where
  "set_strikethrough (Component t col b i u st ob ex cl hv) = Component t col b i u (Some True) ob ex cl hv"

fun set_obfuscated :: "component \<Rightarrow> component" where
  "set_obfuscated (Component t col b i u st ob ex cl hv) = Component t col b i u st (Some True) ex cl hv"

fun set_click :: "click_event \<Rightarrow> component \<Rightarrow> component" where
  "set_click e (Component t col b i u st ob ex cl hv) = Component t col b i u st ob ex (Some e) hv"

fun set_hover :: "hover_event \<Rightarrow> component \<Rightarrow> component" where
  "set_hover e (Component t col b i u st ob ex cl hv) = Component t col b i u st ob ex cl (Some e)"

definition component_error :: "string \<Rightarrow> component" where
  "component_error t = set_color ''red'' (component_text t)"

fun append_child :: "component \<Rightarrow> component \<Rightarrow> component" where
  "append_child child (Component t col b i u st ob ex cl hv) = Component t col b i u st ob (ex @ [child]) cl hv"

definition component_join :: "component list \<Rightarrow> component \<Rightarrow> component" where
  "component_join cs separator =
     (case cs of
        [] \<Rightarrow> component_text []
      | first # rest \<Rightarrow> fold (\<lambda>c result. append_child c (append_child separator result)) rest first)"

fun component_display :: "component \<Rightarrow> string" where
  "component_display (Component t col b i u st ob ex cl hv) = t @ concat (map component_display ex)"

fun click_parts :: "click_event \<Rightarrow> string \<times> string" where
  "click_parts (OpenUrl url) = (''open_url'', url)"
| "click_parts (SuggestCommand c) = (''suggest_command'', c)"
| "click_parts (RunCommand c) = (''run_command'', c)"
| "click_parts (CopyToClipboard t) = (''copy_to_clipboard'', t)"

section \<open>JSON\<close>

text \<open>The quotation mark and the backslash by their codes.\<close>

abbreviation DQ :: char where "DQ \<equiv> CHR 0x22"
abbreviation BS :: char where "BS \<equiv> CHR 0x5C"

definition hex_char :: "nat \<Rightarrow> char" where
  "hex_char n = (if n < 10 then char_of (48 + n) else char_of (87 + n))"

definition escape_char :: "char \<Rightarrow> string" where
  "escape_char c =
     (if c = DQ then [BS, DQ]
      else if c = BS then [BS, BS]
      else if c = CHR 0x0A then [BS, CHR ''n'']
      else if c = CHR 0x0D then [BS, CHR ''r'']
      else if c = CHR 0x09 then [BS, CHR ''t'']
      else if (of_char c :: nat) < 0x20
      then [BS, CHR ''u'', CHR ''0'', CHR ''0'', hex_char (of_char c div 16), hex_char (of_char c mod 16)]
      else [c])"

definition escape_json :: "string \<Rightarrow> string" where
  "escape_json s = concat (map escape_char s)"

definition json_quoted :: "string \<Rightarrow> string" where
  "json_quoted s = DQ # escape_json s @ [DQ]"

definition json_key :: "string \<Rightarrow> string" where
  "json_key k = DQ # k @ [DQ, CHR '':'']"

fun comma_separated :: "string list \<Rightarrow> string" where
  "comma_separated [] = []"
| "comma_separated [x] = x"
| "comma_separated (x # xs) = x @ CHR '','' # comma_separated xs"

definition json_flag :: "string \<Rightarrow> bool option \<Rightarrow> string" where
  "json_flag name b = (if b = Some True then CHR '','' # json_key name @ ''true'' else [])"

fun to_json :: "component \<Rightarrow> string" where
  "to_json (Component t col b i u st ob ex cl hv) =
     CHR ''{'' # json_key ''text'' @ json_quoted t
     @ (case col of Some c \<Rightarrow> CHR '','' # json_key ''color'' @ json_quoted c | None \<Rightarrow> [])
     @ json_flag ''bold'' b @ json_flag ''italic'' i @ json_flag ''underlined'' u @ json_flag ''strikethrough'' st
     @ json_flag ''obfuscated'' ob
     @ (case cl of
          Some e \<Rightarrow> (let (action, val) = click_parts e
                     in CHR '','' # json_key ''clickEvent'' @ CHR ''{'' # json_key ''action'' @ DQ # action @ [DQ, CHR '','']
                        @ json_key ''value'' @ json_quoted val @ ''}'')
        | None \<Rightarrow> [])
     @ (case hv of
          Some (ShowText c) \<Rightarrow> CHR '','' # json_key ''hoverEvent'' @ CHR ''{'' # json_key ''action'' @ DQ # ''show_text'' @ [DQ, CHR '','']
             @ json_key ''contents'' @ to_json c @ ''}''
        | None \<Rightarrow> [])
     @ (if ex = [] then [] else CHR '','' # json_key ''extra'' @ CHR ''['' # comma_separated (map to_json ex) @ '']'')
     @ ''}''"

text \<open>The values of the JSON library; a number is its text.\<close>

datatype json = JNull | JBool bool | JNumber string | JString string | JArray "json list" | JObject "(string \<times> json) list"

fun as_str :: "json \<Rightarrow> string option" where
  "as_str (JString s) = Some s"
| "as_str _ = None"

fun as_bool :: "json \<Rightarrow> bool option" where
  "as_bool (JBool b) = Some b"
| "as_bool _ = None"

fun as_array :: "json \<Rightarrow> json list option" where
  "as_array (JArray vs) = Some vs"
| "as_array _ = None"

fun as_object :: "json \<Rightarrow> (string \<times> json) list option" where
  "as_object (JObject m) = Some m"
| "as_object _ = None"

definition parse_click_event :: "(string \<times> json) list \<Rightarrow> click_event option" where
  "parse_click_event m =
     (case Option.bind (map_of m ''value'') as_str of
        None \<Rightarrow> None
      | Some val \<Rightarrow>
          (case Option.bind (map_of m ''action'') as_str of
             None \<Rightarrow> None
           | Some action \<Rightarrow>
               if action = ''open_url'' then Some (OpenUrl val)
               else if action = ''suggest_command'' then Some (SuggestCommand val)
               else if action = ''run_command'' then Some (RunCommand val)
               else if action = ''copy_to_clipboard'' then Some (CopyToClipboard val)
               else None))"

definition hover_contents :: "(string \<times> json) list \<Rightarrow> json option" where
  "hover_contents m =
     (if Option.bind (map_of m ''action'') as_str = Some ''show_text''
      then (case map_of m ''contents'' of Some v \<Rightarrow> Some v | None \<Rightarrow> map_of m ''value'')
      else None)"

lemma map_of_smaller: "map_of m k = Some v \<Longrightarrow> size v < Suc (size_list (size_prod (\<lambda>_. 0) size) m)"
  by (induction m) (auto split: if_splits)

lemma bind_object_smaller:
  "Option.bind (map_of m k) as_object = Some hm \<Longrightarrow> size_list (size_prod (\<lambda>_. 0) size) hm < Suc (size_list (size_prod (\<lambda>_. 0) size) m)"
  by (cases "map_of m k") (auto dest!: map_of_smaller elim!: as_object.elims)

lemma element_size: "x \<in> set xs \<Longrightarrow> size x \<le> size_list size xs"
  by (rule size_list_estimation') auto

lemma bind_array_smaller:
  "Option.bind (map_of m k) as_array = Some vs \<Longrightarrow> v \<in> set vs \<Longrightarrow> size v < Suc (size_list (size_prod (\<lambda>_. 0) size) m)"
proof -
  assume "Option.bind (map_of m k) as_array = Some vs" "v \<in> set vs"
  then have "map_of m k = Some (JArray vs)" by (cases "map_of m k") (auto elim: as_array.elims)
  from map_of_smaller [OF this] element_size [OF \<open>v \<in> set vs\<close>] show ?thesis by simp
qed

lemma hover_contents_smaller: "hover_contents m = Some v \<Longrightarrow> size v < Suc (size_list (size_prod (\<lambda>_. 0) size) m)"
  by (auto simp: hover_contents_def split: if_splits option.splits dest: map_of_smaller)

function from_json_value :: "json \<Rightarrow> component" where
  "from_json_value (JString s) = component_text s"
| "from_json_value (JBool b) = component_text (if b then ''true'' else ''false'')"
| "from_json_value (JNumber n) = component_text n"
| "from_json_value JNull = component_text []"
| "from_json_value (JArray []) = component_text []"
| "from_json_value (JArray (first # items)) = fold (\<lambda>item root. append_child (from_json_value item) root) items (from_json_value first)"
| "from_json_value (JObject m) = Component
     (case Option.bind (map_of m ''text'') as_str of Some s \<Rightarrow> s | None \<Rightarrow> [])
     (Option.bind (map_of m ''color'') as_str)
     (Option.bind (map_of m ''bold'') as_bool) (Option.bind (map_of m ''italic'') as_bool)
     (Option.bind (map_of m ''underlined'') as_bool) (Option.bind (map_of m ''strikethrough'') as_bool)
     (Option.bind (map_of m ''obfuscated'') as_bool)
     (case Option.bind (map_of m ''extra'') as_array of Some vs \<Rightarrow> map from_json_value vs | None \<Rightarrow> [])
     (Option.bind (Option.bind (map_of m ''clickEvent'') as_object) parse_click_event)
     (case Option.bind (map_of m ''hoverEvent'') as_object of
        None \<Rightarrow> None
      | Some hm \<Rightarrow> (case hover_contents hm of None \<Rightarrow> None | Some v \<Rightarrow> Some (ShowText (from_json_value v))))"
  by pat_completeness auto
termination
proof (relation "measure size")
  fix m x hm v
  assume "Option.bind (map_of m ''hoverEvent'') as_object = Some hm" "hover_contents hm = Some v"
  then show "(v, JObject m) \<in> measure size" using bind_object_smaller hover_contents_smaller by fastforce
qed (auto dest: bind_array_smaller element_size)

datatype component_parse_error = InvalidJson string

definition from_json :: "(string \<Rightarrow> string + json) \<Rightarrow> string \<Rightarrow> component_parse_error + component" where
  "from_json parse s = (case parse s of Inl e \<Rightarrow> Err (InvalidJson e) | Inr v \<Rightarrow> Ok (from_json_value v))"

section \<open>Network NBT\<close>

definition write_nbt_name :: "string \<Rightarrow> bytes" where
  "write_nbt_name name = be_bytes 2 (of_nat (length name) :: u16) @ str_bytes name"

definition write_nbt_string_field :: "string \<Rightarrow> string \<Rightarrow> bytes" where
  "write_nbt_string_field name val = 0x08 # write_nbt_name name @ be_bytes 2 (of_nat (length val) :: u16) @ str_bytes val"

definition write_nbt_byte_field :: "string \<Rightarrow> u8 \<Rightarrow> bytes" where
  "write_nbt_byte_field name val = 0x01 # write_nbt_name name @ [val]"

definition nbt_flag :: "string \<Rightarrow> bool option \<Rightarrow> bytes" where
  "nbt_flag name b = (if b = Some True then write_nbt_byte_field name 1 else [])"

fun write_nbt_compound_content :: "component \<Rightarrow> bytes" where
  "write_nbt_compound_content (Component t col b i u st ob ex cl hv) =
     write_nbt_string_field ''text'' t
     @ (case col of Some c \<Rightarrow> write_nbt_string_field ''color'' c | None \<Rightarrow> [])
     @ nbt_flag ''bold'' b @ nbt_flag ''italic'' i @ nbt_flag ''underlined'' u @ nbt_flag ''strikethrough'' st
     @ nbt_flag ''obfuscated'' ob
     @ (case cl of
          Some e \<Rightarrow> (let (action, val) = click_parts e
                     in 0x0A # write_nbt_name ''clickEvent'' @ write_nbt_string_field ''action'' action
                        @ write_nbt_string_field ''value'' val @ [0x00])
        | None \<Rightarrow> [])
     @ (case hv of
          Some (ShowText c) \<Rightarrow> 0x0A # write_nbt_name ''hoverEvent'' @ write_nbt_string_field ''action'' ''show_text''
             @ 0x0A # write_nbt_name ''contents'' @ write_nbt_compound_content c @ [0x00]
        | None \<Rightarrow> [])
     @ (if ex = [] then []
        else 0x09 # write_nbt_name ''extra'' @ 0x0A # be_bytes 4 (of_nat (length ex) :: i32) @ concat (map write_nbt_compound_content ex))
     @ [0x00]"

definition to_nbt_network :: "component \<Rightarrow> bytes" where
  "to_nbt_network c = 0x0A # write_nbt_compound_content c"

section \<open>Legacy codes\<close>

definition legacy_color_name :: "char \<Rightarrow> string option" where
  "legacy_color_name c = map_of
     [(CHR ''0'', ''black''), (CHR ''1'', ''dark_blue''), (CHR ''2'', ''dark_green''), (CHR ''3'', ''dark_aqua''),
      (CHR ''4'', ''dark_red''), (CHR ''5'', ''dark_purple''), (CHR ''6'', ''gold''), (CHR ''7'', ''gray''),
      (CHR ''8'', ''dark_gray''), (CHR ''9'', ''blue''), (CHR ''a'', ''green''), (CHR ''b'', ''aqua''),
      (CHR ''c'', ''red''), (CHR ''d'', ''light_purple''), (CHR ''e'', ''yellow''), (CHR ''f'', ''white'')] c"

record legacy_fmt =
  lf_color :: "string option"
  lf_bold :: bool
  lf_italic :: bool
  lf_underlined :: bool

definition legacy_fmt_new :: legacy_fmt where
  "legacy_fmt_new = \<lparr>lf_color = None, lf_bold = False, lf_italic = False, lf_underlined = False\<rparr>"

definition legacy_apply :: "legacy_fmt \<Rightarrow> string \<Rightarrow> component" where
  "legacy_apply fmt t =
     (let c = component_text t;
          c = (case lf_color fmt of Some col \<Rightarrow> set_color col c | None \<Rightarrow> c);
          c = (if lf_bold fmt then set_bold c else c);
          c = (if lf_italic fmt then set_italic c else c)
      in if lf_underlined fmt then set_underlined c else c)"

definition is_format_code :: "char \<Rightarrow> bool" where
  "is_format_code code \<longleftrightarrow> code \<in> {CHR ''l'', CHR ''o'', CHR ''n'', CHR ''r''} \<or> legacy_color_name code \<noteq> None"

definition legacy_code :: "char \<Rightarrow> legacy_fmt \<Rightarrow> legacy_fmt" where
  "legacy_code code fmt =
     (if code = CHR ''l'' then fmt\<lparr>lf_bold := True\<rparr>
      else if code = CHR ''o'' then fmt\<lparr>lf_italic := True\<rparr>
      else if code = CHR ''n'' then fmt\<lparr>lf_underlined := True\<rparr>
      else if code = CHR ''r'' then legacy_fmt_new
      else fmt\<lparr>lf_color := legacy_color_name code\<rparr>)"

definition legacy_push :: "legacy_fmt \<Rightarrow> string \<Rightarrow> component list \<Rightarrow> component list" where
  "legacy_push fmt segment parts = (if segment = [] then parts else parts @ [legacy_apply fmt segment])"

fun legacy_loop :: "string \<Rightarrow> component list \<Rightarrow> string \<Rightarrow> legacy_fmt \<Rightarrow> component list" where
  "legacy_loop [] parts segment fmt = legacy_push fmt segment parts"
| "legacy_loop (ch # chars) parts segment fmt =
     (if ch = CHR ''&''
      then (case chars of
              code # chars' \<Rightarrow>
                if is_format_code code then legacy_loop chars' (legacy_push fmt segment parts) [] (legacy_code code fmt)
                else legacy_loop chars parts (segment @ [CHR ''&'']) fmt
            | [] \<Rightarrow> legacy_loop chars parts (segment @ [CHR ''&'']) fmt)
      else legacy_loop chars parts (segment @ [ch]) fmt)"

definition from_legacy :: "string \<Rightarrow> component" where
  "from_legacy t =
     (case legacy_loop t [] [] legacy_fmt_new of
        [] \<Rightarrow> component_text []
      | root # parts \<Rightarrow> fold append_child parts root)"

section \<open>Placeholders\<close>

text \<open>\<open>str::replace\<close> of \<open>{key}\<close>: the matches from the left, not overlapping.\<close>

function replace_placeholder :: "string \<Rightarrow> string \<Rightarrow> string \<Rightarrow> string" where
  "replace_placeholder key val [] = []"
| "replace_placeholder key val (c # s) =
     (if take (length key + 2) (c # s) = CHR ''{'' # key @ ''}'' then val @ replace_placeholder key val (drop (length key + 1) s)
      else c # replace_placeholder key val s)"
  by pat_completeness auto
termination by (relation "measure (\<lambda>(_, _, s). length s)") auto

definition format_placeholders :: "string \<Rightarrow> (string \<times> string) list \<Rightarrow> string" where
  "format_placeholders template vars = fold (\<lambda>(key, val). replace_placeholder key val) vars template"

definition from_legacy_format :: "string \<Rightarrow> (string \<times> string) list \<Rightarrow> component" where
  "from_legacy_format template vars = from_legacy (format_placeholders template vars)"

section \<open>JSON read back\<close>

text \<open>
  A reader for the part of the JSON grammar in which components are written: no white space and no numbers, and of the
  escapes by number only those of ASCII characters. Whatever it reads is JSON with that meaning.
\<close>

definition hex_value :: "char \<Rightarrow> nat option" where
  "hex_value c = (let n = of_char c in if 48 \<le> n \<and> n \<le> 57 then Some (n - 48) else if 97 \<le> n \<and> n \<le> 102 then Some (n - 87) else None)"

definition simple_escape :: "char \<Rightarrow> char option" where
  "simple_escape c = map_of [(DQ, DQ), (BS, BS), (CHR ''/'', CHR ''/''), (CHR ''b'', CHR 0x08), (CHR ''f'', CHR 0x0C),
     (CHR ''n'', CHR 0x0A), (CHR ''r'', CHR 0x0D), (CHR ''t'', CHR 0x09)] c"

fun unicode_escape :: "string \<Rightarrow> (char \<times> string) option" where
  "unicode_escape (a # b # c # d # s) =
     (case (hex_value c, hex_value d) of
        (Some x, Some y) \<Rightarrow> if a = CHR ''0'' \<and> b = CHR ''0'' \<and> x < 8 then Some (char_of (16 * x + y), s) else None
      | _ \<Rightarrow> None)"
| "unicode_escape _ = None"

lemma unicode_escape_shorter: "unicode_escape s = Some (c, r) \<Longrightarrow> length r < length s"
  by (cases s rule: unicode_escape.cases) (auto split: option.splits if_splits)

function read_json_string :: "string \<Rightarrow> (string \<times> string) option" where
  "read_json_string [] = None"
| "read_json_string (c # s) =
     (if c = DQ then Some ([], s)
      else if c = BS then
        (case s of
           [] \<Rightarrow> None
         | e # s' \<Rightarrow>
             (case simple_escape e of
                Some d \<Rightarrow> map_option (\<lambda>(t, r). (d # t, r)) (read_json_string s')
              | None \<Rightarrow>
                  if e = CHR ''u''
                  then (case unicode_escape s' of
                          Some (d, s'') \<Rightarrow> map_option (\<lambda>(t, r). (d # t, r)) (read_json_string s'')
                        | None \<Rightarrow> None)
                  else None))
      else if (of_char c :: nat) < 0x20 then None
      else map_option (\<lambda>(t, r). (c # t, r)) (read_json_string s))"
  by pat_completeness auto
termination
  by (relation "measure length") (auto dest: unicode_escape_shorter)

fun read_json :: "nat \<Rightarrow> string \<Rightarrow> (json \<times> string) option"
  and read_members :: "nat \<Rightarrow> string \<Rightarrow> ((string \<times> json) list \<times> string) option"
  and read_elements :: "nat \<Rightarrow> string \<Rightarrow> (json list \<times> string) option" where
  "read_json 0 s = None"
| "read_json (Suc n) s =
     (case s of
        [] \<Rightarrow> None
      | c # r \<Rightarrow>
          if c = DQ then map_option (\<lambda>(t, r). (JString t, r)) (read_json_string r)
          else if c = CHR ''{'' then
            (if take 1 r = ''}'' then Some (JObject [], drop 1 r) else map_option (\<lambda>(ms, r). (JObject ms, r)) (read_members n r))
          else if c = CHR ''['' then
            (if take 1 r = '']'' then Some (JArray [], drop 1 r) else map_option (\<lambda>(vs, r). (JArray vs, r)) (read_elements n r))
          else if take 4 s = ''true'' then Some (JBool True, drop 4 s)
          else if take 5 s = ''false'' then Some (JBool False, drop 5 s)
          else if take 4 s = ''null'' then Some (JNull, drop 4 s)
          else None)"
| "read_members 0 s = None"
| "read_members (Suc n) s =
     (case s of
        [] \<Rightarrow> None
      | c # r \<Rightarrow>
          if c \<noteq> DQ then None
          else (case read_json_string r of
                  Some (k, c1 # r1) \<Rightarrow>
                    if c1 \<noteq> CHR '':'' then None
                    else (case read_json n r1 of
                            Some (v, c2 # r2) \<Rightarrow>
                              if c2 = CHR '','' then map_option (\<lambda>(ms, r). ((k, v) # ms, r)) (read_members n r2)
                              else if c2 = CHR ''}'' then Some ([(k, v)], r2)
                              else None
                          | _ \<Rightarrow> None)
                | _ \<Rightarrow> None))"
| "read_elements 0 s = None"
| "read_elements (Suc n) s =
     (case read_json n s of
        Some (v, c # r) \<Rightarrow>
          if c = CHR '','' then map_option (\<lambda>(vs, r). (v # vs, r)) (read_elements n r)
          else if c = CHR '']'' then Some ([v], r)
          else None
      | _ \<Rightarrow> None)"

definition json_of :: "string \<Rightarrow> json option" where
  "json_of s = (case read_json (length s) s of Some (v, []) \<Rightarrow> Some v | _ \<Rightarrow> None)"

text \<open>Printing of values without numbers.\<close>

fun print_json :: "json \<Rightarrow> string" where
  "print_json JNull = ''null''"
| "print_json (JBool b) = (if b then ''true'' else ''false'')"
| "print_json (JNumber n) = n"
| "print_json (JString s) = json_quoted s"
| "print_json (JArray vs) = CHR ''['' # comma_separated (map print_json vs) @ '']''"
| "print_json (JObject ms) = CHR ''{'' # comma_separated (map (\<lambda>(k, v). json_quoted k @ CHR '':'' # print_json v) ms) @ ''}''"

fun no_numbers :: "json \<Rightarrow> bool" where
  "no_numbers (JNumber n) = False"
| "no_numbers (JArray vs) = list_all no_numbers vs"
| "no_numbers (JObject ms) = list_all (\<lambda>(k, v). no_numbers v) ms"
| "no_numbers _ = True"

lemma hex_value_char: "n < 16 \<Longrightarrow> hex_value (hex_char n) = Some n"
  by (auto simp: hex_value_def hex_char_def Let_def)

lemma read_escaped_char:
  "read_json_string (escape_char c @ r) = map_option (\<lambda>(t, r). (c # t, r)) (read_json_string r)"
proof -
  have n: "(of_char c :: nat) < 256" by simp
  have "hex_value (hex_char ((of_char c :: nat) div 16)) = Some (of_char c div 16)" "hex_value (hex_char ((of_char c :: nat) mod 16)) = Some (of_char c mod 16)"
    using n by (simp_all add: hex_value_char less_mult_imp_div_less)
  then show ?thesis
    by (auto simp: escape_char_def simple_escape_def split: if_splits)
qed

lemma read_escaped: "read_json_string (escape_json s @ DQ # r) = Some (s, r)"
  by (induction s) (simp_all add: escape_json_def read_escaped_char)

lemma comma_separated_Cons: "xs \<noteq> [] \<Longrightarrow> comma_separated (x # xs) = x @ CHR '','' # comma_separated xs"
  by (cases xs) simp_all

lemma print_json_start: "no_numbers v \<Longrightarrow> \<exists>c s. print_json v = c # s \<and> c \<noteq> CHR '']''"
  by (cases v) (auto simp: json_quoted_def)

lemma read_elements_print:
  assumes "\<And>v n r. v \<in> set vs \<Longrightarrow> length (print_json v) \<le> n \<Longrightarrow> read_json n (print_json v @ r) = Some (v, r)"
    and "vs \<noteq> []" and "length (comma_separated (map print_json vs)) < n"
  shows "read_elements n (comma_separated (map print_json vs) @ CHR '']'' # r) = Some (vs, r)"
  using assms
proof (induction vs arbitrary: n)
  case (Cons v vs)
  obtain m where n: "n = Suc m" using Cons.prems(3) by (cases n) auto
  show ?case
  proof (cases "vs = []")
    case True
    then show ?thesis using Cons.prems(1) [of v m "CHR '']'' # r"] Cons.prems(3) by (simp add: n)
  next
    case False
    then have e: "comma_separated (map print_json (v # vs)) = print_json v @ CHR '','' # comma_separated (map print_json vs)"
      by (simp add: comma_separated_Cons)
    have "read_json m (print_json v @ CHR '','' # comma_separated (map print_json vs) @ CHR '']'' # r) =
        Some (v, CHR '','' # comma_separated (map print_json vs) @ CHR '']'' # r)"
      using Cons.prems(1) [of v m] Cons.prems(3) unfolding e by (simp add: n)
    moreover have "read_elements m (comma_separated (map print_json vs) @ CHR '']'' # r) = Some (vs, r)"
      using Cons.IH [of m] Cons.prems(1,3) False unfolding e by (simp add: n)
    ultimately show ?thesis unfolding e by (simp add: n)
  qed
qed simp

lemma read_members_print:
  assumes "\<And>k v n r. (k, v) \<in> set ms \<Longrightarrow> length (print_json v) \<le> n \<Longrightarrow> read_json n (print_json v @ r) = Some (v, r)"
    and "ms \<noteq> []" and "length (comma_separated (map (\<lambda>(k, v). json_quoted k @ CHR '':'' # print_json v) ms)) < n"
  shows "read_members n (comma_separated (map (\<lambda>(k, v). json_quoted k @ CHR '':'' # print_json v) ms) @ CHR ''}'' # r) = Some (ms, r)"
  using assms
proof (induction ms arbitrary: n)
  case (Cons kv ms)
  let ?p = "\<lambda>(k, v). json_quoted k @ CHR '':'' # print_json v"
  obtain k v where kv: "kv = (k, v)" by (cases kv)
  obtain m where n: "n = Suc m" using Cons.prems(3) by (cases n) auto
  show ?case
  proof (cases "ms = []")
    case True
    then show ?thesis using Cons.prems(1) [of k v m "CHR ''}'' # r"] Cons.prems(3)
      by (simp add: n kv json_quoted_def read_escaped)
  next
    case False
    then have e: "comma_separated (map ?p (kv # ms)) = json_quoted k @ CHR '':'' # print_json v @ CHR '','' # comma_separated (map ?p ms)"
      by (simp add: comma_separated_Cons kv)
    have "read_json m (print_json v @ CHR '','' # comma_separated (map ?p ms) @ CHR ''}'' # r) =
        Some (v, CHR '','' # comma_separated (map ?p ms) @ CHR ''}'' # r)"
      using Cons.prems(1) [of k v m] Cons.prems(3) unfolding e by (simp add: n kv)
    moreover have "read_members m (comma_separated (map ?p ms) @ CHR ''}'' # r) = Some (ms, r)"
    proof (rule Cons.IH [OF _ False])
      show "read_json j (print_json v' @ r') = Some (v', r')" if "(k', v') \<in> set ms" "length (print_json v') \<le> j" for k' v' j r'
        using Cons.prems(1) [of k' v'] that by simp
      show "length (comma_separated (map ?p ms)) < m" using Cons.prems(3) unfolding e by (simp add: n)
    qed
    ultimately show ?thesis unfolding e by (simp add: n kv json_quoted_def read_escaped)
  qed
qed simp

lemma read_print_json: "no_numbers v \<Longrightarrow> length (print_json v) \<le> n \<Longrightarrow> read_json n (print_json v @ r) = Some (v, r)"
proof (induction v arbitrary: n r)
  case (JArray vs)
  obtain m where n: "n = Suc m" using JArray.prems(2) by (cases n) auto
  have "read_json k (print_json v @ r') = Some (v, r')" if "v \<in> set vs" "length (print_json v) \<le> k" for v k r'
    using JArray.IH [OF that(1)] JArray.prems(1) that by (simp add: list_all_iff)
  note e = read_elements_print [of vs, OF this]
  show ?case
  proof (cases vs)
    case (Cons v vs')
    then obtain c t where "print_json v = c # t" "c \<noteq> CHR '']''" using JArray.prems(1) print_json_start [of v] by auto
    then have "take 1 (comma_separated (map print_json vs) @ CHR '']'' # r) \<noteq> '']''" using Cons by (cases vs') simp_all
    then show ?thesis using e [where n = m and r = r] Cons JArray.prems(2) by (simp add: n)
  qed (simp add: n)
next
  case (JObject ms)
  let ?p = "\<lambda>(k, v). json_quoted k @ CHR '':'' # print_json v"
  obtain m where n: "n = Suc m" using JObject.prems(2) by (cases n) auto
  have "read_json j (print_json v @ r') = Some (v, r')" if "(k, v) \<in> set ms" "length (print_json v) \<le> j" for k v j r'
    using JObject.IH [OF that(1), of v] JObject.prems(1) that by (fastforce simp: list_all_iff)
  note e = read_members_print [of ms, OF this]
  show ?case
  proof (cases ms)
    case (Cons kv ms')
    then have "take 1 (comma_separated (map ?p ms) @ CHR ''}'' # r) \<noteq> ''}''"
      by (cases kv; cases ms') (simp_all add: json_quoted_def)
    then show ?thesis using e [where n = m and r = r] Cons JObject.prems(2) by (simp add: n)
  qed (simp add: n)
next
  case JNull
  then show ?case by (cases n) simp_all
next
  case (JBool b)
  then show ?case by (cases n; cases b) simp_all
next
  case (JString t)
  then show ?case by (cases n) (simp_all add: json_quoted_def read_escaped)
qed simp

section \<open>The value of a component\<close>

definition opt_member :: "string \<Rightarrow> 'v option \<Rightarrow> (string \<times> 'v) list" where
  "opt_member k v = (case v of Some v \<Rightarrow> [(k, v)] | None \<Rightarrow> [])"

definition flag_value :: "bool option \<Rightarrow> json option" where
  "flag_value b = (if b = Some True then Some (JBool True) else None)"

definition click_value :: "click_event \<Rightarrow> json" where
  "click_value e = JObject [(''action'', JString (fst (click_parts e))), (''value'', JString (snd (click_parts e)))]"

fun component_value :: "component \<Rightarrow> json" where
  "component_value (Component t col b i u st ob ex cl hv) = JObject
     ((''text'', JString t)
      # opt_member ''color'' (map_option JString col)
      @ opt_member ''bold'' (flag_value b) @ opt_member ''italic'' (flag_value i) @ opt_member ''underlined'' (flag_value u)
      @ opt_member ''strikethrough'' (flag_value st) @ opt_member ''obfuscated'' (flag_value ob)
      @ opt_member ''clickEvent'' (map_option click_value cl)
      @ opt_member ''hoverEvent'' (case hv of
           Some (ShowText c) \<Rightarrow> Some (JObject [(''action'', JString ''show_text''), (''contents'', component_value c)])
         | None \<Rightarrow> None)
      @ opt_member ''extra'' (if ex = [] then None else Some (JArray (map component_value ex))))"

text \<open>A flag that is set to false is written like one that is not set.\<close>

fun canonical_component :: "component \<Rightarrow> component" where
  "canonical_component (Component t col b i u st ob ex cl hv) =
     (let flag = (\<lambda>b. if b = Some True then Some True else None)
      in Component t col (flag b) (flag i) (flag u) (flag st) (flag ob) (map canonical_component ex) cl
           (case hv of Some (ShowText c) \<Rightarrow> Some (ShowText (canonical_component c)) | None \<Rightarrow> None))"

lemma comma_separated_alt: "comma_separated (x # xs) = x @ concat (map (\<lambda>y. CHR '','' # y) xs)"
  by (induction xs arbitrary: x) simp_all

lemma escape_letters: "list_all (\<lambda>c. escape_char c = [c]) k \<Longrightarrow> escape_json k = k"
  by (induction k) (simp_all add: escape_json_def)

lemma json_keys [simp]:
  "escape_json ''text'' = ''text''" "escape_json ''color'' = ''color''" "escape_json ''bold'' = ''bold''"
  "escape_json ''italic'' = ''italic''" "escape_json ''underlined'' = ''underlined''" "escape_json ''strikethrough'' = ''strikethrough''"
  "escape_json ''obfuscated'' = ''obfuscated''" "escape_json ''clickEvent'' = ''clickEvent''" "escape_json ''action'' = ''action''"
  "escape_json ''value'' = ''value''" "escape_json ''hoverEvent'' = ''hoverEvent''" "escape_json ''show_text'' = ''show_text''"
  "escape_json ''contents'' = ''contents''" "escape_json ''extra'' = ''extra''"
  by (simp_all add: escape_letters escape_char_def)

lemma click_parts_plain [simp]: "escape_json (fst (click_parts e)) = fst (click_parts e)"
  by (cases e) (simp_all add: escape_letters escape_char_def)

abbreviation print_member :: "string \<times> json \<Rightarrow> string" where
  "print_member \<equiv> \<lambda>(k, v). json_quoted k @ CHR '':'' # print_json v"

lemma print_opt_member:
  "concat (map (\<lambda>kv. CHR '','' # print_member kv) (opt_member k v)) =
     (case v of Some v \<Rightarrow> CHR '','' # json_quoted k @ CHR '':'' # print_json v | None \<Rightarrow> [])"
  by (simp add: opt_member_def split: option.split)

lemma print_flag:
  "escape_json k = k \<Longrightarrow> (case flag_value b of Some v \<Rightarrow> CHR '','' # json_quoted k @ CHR '':'' # print_json v | None \<Rightarrow> []) = json_flag k b"
  by (simp add: flag_value_def json_flag_def json_quoted_def json_key_def)

lemma print_click:
  "print_json (click_value e) = CHR ''{'' # json_key ''action'' @ DQ # fst (click_parts e) @ [DQ, CHR '',''] @ json_key ''value''
     @ json_quoted (snd (click_parts e)) @ ''}''"
  by (simp add: click_value_def json_quoted_def json_key_def)

lemma print_component_value: "print_json (component_value c) = to_json c"
proof (induction c rule: to_json.induct)
  case (1 t col b i u st ob ex cl hv)
  have e: "map (print_json \<circ> component_value) ex = map to_json ex" by (cases "ex = []") (simp_all add: 1(2))
  have color: "(case map_option JString col of Some v \<Rightarrow> CHR '','' # json_quoted ''color'' @ CHR '':'' # print_json v | None \<Rightarrow> [])
      = (case col of Some c \<Rightarrow> CHR '','' # json_key ''color'' @ json_quoted c | None \<Rightarrow> [])"
    by (cases col) (simp_all add: json_quoted_def [of "''color''"] json_key_def)
  have click: "(case map_option click_value cl of Some v \<Rightarrow> CHR '','' # json_quoted ''clickEvent'' @ CHR '':'' # print_json v | None \<Rightarrow> [])
      = (case cl of
          Some e \<Rightarrow> (let (action, val) = click_parts e
                     in CHR '','' # json_key ''clickEvent'' @ CHR ''{'' # json_key ''action'' @ DQ # action @ [DQ, CHR '','']
                        @ json_key ''value'' @ json_quoted val @ ''}'')
        | None \<Rightarrow> [])"
    by (cases cl) (simp_all add: print_click json_quoted_def [of "''clickEvent''"] json_key_def [of "''clickEvent''"] case_prod_beta)
  have hover: "(case (case hv of
           Some (ShowText c) \<Rightarrow> Some (JObject [(''action'', JString ''show_text''), (''contents'', component_value c)])
         | None \<Rightarrow> None) of Some v \<Rightarrow> CHR '','' # json_quoted ''hoverEvent'' @ CHR '':'' # print_json v | None \<Rightarrow> [])
      = (case hv of
          Some (ShowText c) \<Rightarrow> CHR '','' # json_key ''hoverEvent'' @ CHR ''{'' # json_key ''action'' @ DQ # ''show_text'' @ [DQ, CHR '','']
             @ json_key ''contents'' @ to_json c @ ''}''
        | None \<Rightarrow> [])"
    using 1(1) by (cases hv) (simp_all add: json_quoted_def json_key_def split: hover_event.split)
  have extra: "(case (if ex = [] then None else Some (JArray (map component_value ex))) of
        Some v \<Rightarrow> CHR '','' # json_quoted ''extra'' @ CHR '':'' # print_json v | None \<Rightarrow> [])
      = (if ex = [] then [] else CHR '','' # json_key ''extra'' @ CHR ''['' # comma_separated (map to_json ex) @ '']'')"
    by (simp add: json_quoted_def json_key_def e)
  have t: "print_member (''text'', JString t) = json_key ''text'' @ json_quoted t"
    by (simp add: json_quoted_def [of "''text''"] json_key_def)
  show ?case
    unfolding component_value.simps to_json.simps print_json.simps list.map comma_separated_alt map_append concat_append
      list.map_comp comp_def print_opt_member print_flag [OF json_keys(3)] print_flag [OF json_keys(4)] print_flag [OF json_keys(5)]
      print_flag [OF json_keys(6)] print_flag [OF json_keys(7)] color click hover extra t append.simps append_assoc
    by (rule refl)
qed

lemma no_numbers_component: "no_numbers (component_value c)"
proof (induction c rule: to_json.induct)
  case (1 t col b i u st ob ex cl hv)
  have m: "list_all (\<lambda>(k, v). no_numbers v) (opt_member k v)" if "\<And>w. v = Some w \<Longrightarrow> no_numbers w" for k v
    using that by (simp add: opt_member_def split: option.split)
  have "no_numbers w" if "(if ex = [] then None else Some (JArray (map component_value ex))) = Some w" for w
    using that 1(2) by (auto simp: list_all_iff split: if_splits)
  moreover have "no_numbers w" if "(case hv of Some (ShowText c) \<Rightarrow> Some (JObject [(''action'', JString ''show_text''), (''contents'', component_value c)])
      | None \<Rightarrow> None) = Some w" for w
    using that 1(1) by (auto split: option.splits hover_event.splits)
  ultimately show ?case
    unfolding component_value.simps no_numbers.simps list.pred_inject list_all_append case_prod_conv
    by (intro conjI m) (auto simp: flag_value_def click_value_def split: if_splits)
qed

lemma json_of_component: "json_of (to_json c) = Some (component_value c)"
  using read_print_json [OF no_numbers_component, of c "length (to_json c)" "[]"]
  by (simp add: json_of_def print_component_value)

lemma parse_click_parts: "parse_click_event [(''action'', JString (fst (click_parts e))), (''value'', JString (snd (click_parts e)))] = Some e"
  by (cases e) (simp_all add: parse_click_event_def)

lemma lookup_opt_member [simp]:
  "map_of (opt_member k v @ ms) k' = (if k' = k \<and> v \<noteq> None then v else map_of ms k')"
  "map_of (opt_member k v) k' = (if k' = k then v else None)"
  by (auto simp: opt_member_def split: option.split)

lemma from_component_value: "from_json_value (component_value c) = canonical_component c"
proof (induction c rule: to_json.induct)
  case (1 t col b i u st ob ex cl hv)
  let ?hover = "case hv of Some (ShowText c) \<Rightarrow> Some (JObject [(''action'', JString ''show_text''), (''contents'', component_value c)])
      | None \<Rightarrow> None"
  define m where "m = (''text'', JString t)
      # opt_member ''color'' (map_option JString col)
      @ opt_member ''bold'' (flag_value b) @ opt_member ''italic'' (flag_value i) @ opt_member ''underlined'' (flag_value u)
      @ opt_member ''strikethrough'' (flag_value st) @ opt_member ''obfuscated'' (flag_value ob)
      @ opt_member ''clickEvent'' (map_option click_value cl) @ opt_member ''hoverEvent'' ?hover
      @ opt_member ''extra'' (if ex = [] then None else Some (JArray (map component_value ex)))"
  have l: "map_of m ''text'' = Some (JString t)" "map_of m ''color'' = map_option JString col" "map_of m ''bold'' = flag_value b"
    "map_of m ''italic'' = flag_value i" "map_of m ''underlined'' = flag_value u" "map_of m ''strikethrough'' = flag_value st"
    "map_of m ''obfuscated'' = flag_value ob" "map_of m ''clickEvent'' = map_option click_value cl" "map_of m ''hoverEvent'' = ?hover"
    "map_of m ''extra'' = (if ex = [] then None else Some (JArray (map component_value ex)))"
    unfolding m_def by (simp_all del: map_of_append)
  have flag: "Option.bind (flag_value x) as_bool = (if x = Some True then Some True else None)" for x
    by (simp add: flag_value_def)
  have color: "Option.bind (map_option JString col) as_str = col" by (cases col) simp_all
  have click: "Option.bind (Option.bind (map_option click_value cl) as_object) parse_click_event = cl"
    by (cases cl) (simp_all add: click_value_def parse_click_parts)
  have extra: "(case Option.bind (if ex = [] then None else Some (JArray (map component_value ex))) as_array of
      Some vs \<Rightarrow> map from_json_value vs | None \<Rightarrow> []) = map canonical_component ex"
    by (cases "ex = []") (simp_all add: 1(2))
  have hover: "(case Option.bind ?hover as_object of None \<Rightarrow> None
      | Some hm \<Rightarrow> (case hover_contents hm of None \<Rightarrow> None | Some v \<Rightarrow> Some (ShowText (from_json_value v))))
      = (case hv of Some (ShowText c) \<Rightarrow> Some (ShowText (canonical_component c)) | None \<Rightarrow> None)"
    using 1(1) by (cases hv) (simp_all add: hover_contents_def split: hover_event.split)
  have "component_value (Component t col b i u st ob ex cl hv) = JObject m" by (simp add: m_def)
  then show ?case by (simp only: from_json_value.simps l flag color click extra hover) (simp add: Let_def)
qed

fun json_depth :: "json \<Rightarrow> nat" where
  "json_depth (JArray vs) = Suc (fold (\<lambda>v. max (json_depth v)) vs 0)"
| "json_depth (JObject ms) = Suc (fold (\<lambda>(k, v). max (json_depth v)) ms 0)"
| "json_depth _ = 0"


definition sample_component :: component where
  "sample_component = Component ''tabx'' (Some ''red'') (Some True) (Some False) None None None
     [component_text [DQ, BS, CHR 0x01]] (Some (RunCommand ''/lobby'')) (Some (ShowText (set_italic (component_text ''tip''))))"

definition sample_parse :: "string \<Rightarrow> string + json" where
  "sample_parse s = (case json_of s of Some v \<Rightarrow> Ok v | None \<Rightarrow> Err [])"


section \<open>NBT read back\<close>

text \<open>The part of NBT in which components are written, with the payloads of its tags and a reader.\<close>

datatype nbt = NByte u8 | NString string | NList "nbt list" | NCompound "(string \<times> nbt) list"

fun nbt_tag :: "nbt \<Rightarrow> u8" where
  "nbt_tag (NByte b) = 0x01"
| "nbt_tag (NString s) = 0x08"
| "nbt_tag (NList vs) = 0x09"
| "nbt_tag (NCompound ms) = 0x0A"

fun nbt_payload :: "nbt \<Rightarrow> bytes" where
  "nbt_payload (NByte b) = [b]"
| "nbt_payload (NString s) = be_bytes 2 (of_nat (length s) :: u16) @ str_bytes s"
| "nbt_payload (NList vs) = (case vs of [] \<Rightarrow> 0 | v # _ \<Rightarrow> nbt_tag v) # be_bytes 4 (of_nat (length vs) :: i32) @ concat (map nbt_payload vs)"
| "nbt_payload (NCompound ms) = concat (map (\<lambda>(k, v). nbt_tag v # write_nbt_name k @ nbt_payload v) ms) @ [0]"

definition read_nbt_string :: "bytes \<Rightarrow> (string \<times> bytes) option" where
  "read_nbt_string bs =
     (if length bs < 2 then None
      else let n = unat (from_be_bytes (take 2 bs) :: u16); r = drop 2 bs
           in if length r < n then None else Some (bytes_str (take n r), drop n r))"

fun read_payload :: "nat \<Rightarrow> u8 \<Rightarrow> bytes \<Rightarrow> (nbt \<times> bytes) option"
  and read_fields :: "nat \<Rightarrow> bytes \<Rightarrow> ((string \<times> nbt) list \<times> bytes) option"
  and read_list :: "nat \<Rightarrow> u8 \<Rightarrow> nat \<Rightarrow> bytes \<Rightarrow> (nbt list \<times> bytes) option" where
  "read_payload 0 tag bs = None"
| "read_payload (Suc n) tag bs =
     (if tag = 0x01 then (case bs of [] \<Rightarrow> None | b # r \<Rightarrow> Some (NByte b, r))
      else if tag = 0x08 then map_option (\<lambda>(s, r). (NString s, r)) (read_nbt_string bs)
      else if tag = 0x09 then
        (case bs of
           [] \<Rightarrow> None
         | t # r \<Rightarrow>
             if length r < 4 then None
             else map_option (\<lambda>(vs, r). (NList vs, r)) (read_list n t (nat (sint (from_be_bytes (take 4 r) :: i32))) (drop 4 r)))
      else if tag = 0x0A then map_option (\<lambda>(ms, r). (NCompound ms, r)) (read_fields n bs)
      else None)"
| "read_fields 0 bs = None"
| "read_fields (Suc n) bs =
     (case bs of
        [] \<Rightarrow> None
      | t # r \<Rightarrow>
          if t = 0 then Some ([], r)
          else (case read_nbt_string r of
                  None \<Rightarrow> None
                | Some (k, r) \<Rightarrow>
                    (case read_payload n t r of
                       None \<Rightarrow> None
                     | Some (v, r) \<Rightarrow> map_option (\<lambda>(ms, r). ((k, v) # ms, r)) (read_fields n r))))"
| "read_list 0 t c bs = None"
| "read_list (Suc n) t c bs =
     (if c = 0 then Some ([], bs)
      else (case read_payload n t bs of
              None \<Rightarrow> None
            | Some (v, r) \<Rightarrow> map_option (\<lambda>(vs, r). (v # vs, r)) (read_list n t (c - 1) r)))"

definition read_nbt_network :: "bytes \<Rightarrow> (nbt \<times> bytes) option" where
  "read_nbt_network bs = (case bs of t # r \<Rightarrow> if t = 0x0A then read_payload (Suc (length r)) t r else None | [] \<Rightarrow> None)"

text \<open>Values whose lengths fit their fields.\<close>

fun nbt_fits :: "nbt \<Rightarrow> bool" where
  "nbt_fits (NByte b) = True"
| "nbt_fits (NString s) = (length s < 2 ^ 16)"
| "nbt_fits (NList vs) = (length vs < 2 ^ 31 \<and> list_all (\<lambda>v. nbt_tag v = nbt_tag (hd vs)) vs \<and> list_all nbt_fits vs)"
| "nbt_fits (NCompound ms) = list_all (\<lambda>(k, v). length k < 2 ^ 16 \<and> nbt_fits v) ms"

lemma read_nbt_string_write:
  assumes "length s < 2 ^ 16"
  shows "read_nbt_string (be_bytes 2 (of_nat (length s) :: u16) @ str_bytes s @ r) = Some (s, r)"
proof -
  have "unat (of_nat (length s) :: u16) = length s" using assms by (simp add: unat_of_nat take_bit_nat_eq_self)
  then show ?thesis by (simp add: read_nbt_string_def from_be_be_bytes)
qed

lemma nbt_payload_pos: "0 < length (nbt_payload v)"
  by (cases v) simp_all

lemma read_list_write:
  assumes "\<And>v n r. v \<in> set vs \<Longrightarrow> length (nbt_payload v) < n \<Longrightarrow> read_payload n (nbt_tag v) (nbt_payload v @ r) = Some (v, r)"
    and "list_all (\<lambda>v. nbt_tag v = t) vs" and "length (concat (map nbt_payload vs)) + 2 \<le> n"
  shows "read_list n t (length vs) (concat (map nbt_payload vs) @ r) = Some (vs, r)"
  using assms
proof (induction vs arbitrary: n)
  case (Cons v vs)
  obtain m where n: "n = Suc m" using Cons.prems(3) by (cases n) auto
  have "read_payload m t (nbt_payload v @ concat (map nbt_payload vs) @ r) = Some (v, concat (map nbt_payload vs) @ r)"
    using Cons.prems(1) [of v m] Cons.prems(2,3) by (simp add: n)
  moreover have "length (concat (map nbt_payload vs)) + 2 \<le> m"
    using Cons.prems(3) nbt_payload_pos [of v] by (simp add: n del: length_greater_0_conv)
  then have "read_list m t (length vs) (concat (map nbt_payload vs) @ r) = Some (vs, r)"
    using Cons.IH [of m] Cons.prems(1,2) by simp
  ultimately show ?case by (simp add: n)
next
  case Nil
  then show ?case by (cases n) simp_all
qed

lemma read_fields_write:
  assumes "\<And>k v n r. (k, v) \<in> set ms \<Longrightarrow> length (nbt_payload v) < n \<Longrightarrow> read_payload n (nbt_tag v) (nbt_payload v @ r) = Some (v, r)"
    and "list_all (\<lambda>(k, v). length k < 2 ^ 16) ms" and "length (nbt_payload (NCompound ms)) \<le> n"
  shows "read_fields n (nbt_payload (NCompound ms) @ r) = Some (ms, r)"
  using assms
proof (induction ms arbitrary: n)
  case (Cons kv ms)
  obtain k v where kv: "kv = (k, v)" by (cases kv)
  obtain m where n: "n = Suc m" using Cons.prems(3) by (cases n) (auto simp: kv)
  have "read_payload m (nbt_tag v) (nbt_payload v @ nbt_payload (NCompound ms) @ r) = Some (v, nbt_payload (NCompound ms) @ r)"
    using Cons.prems(1) [of k v m] Cons.prems(3) by (simp add: n kv write_nbt_name_def)
  moreover have "read_fields m (nbt_payload (NCompound ms) @ r) = Some (ms, r)"
  proof (rule Cons.IH)
    show "read_payload j (nbt_tag v') (nbt_payload v' @ r') = Some (v', r')" if "(k', v') \<in> set ms" "length (nbt_payload v') < j" for k' v' j r'
      using Cons.prems(1) [of k' v'] that by simp
  qed (use Cons.prems(2,3) in \<open>simp_all add: n kv\<close>)
  moreover have "nbt_tag v \<noteq> 0" by (cases v) simp_all
  ultimately show ?case using Cons.prems(2) read_nbt_string_write [of k "nbt_payload v @ nbt_payload (NCompound ms) @ r"]
    by (simp add: n kv write_nbt_name_def)
next
  case Nil
  then show ?case by (cases n) simp_all
qed

lemma read_nbt_write: "nbt_fits v \<Longrightarrow> length (nbt_payload v) < n \<Longrightarrow> read_payload n (nbt_tag v) (nbt_payload v @ r) = Some (v, r)"
proof (induction v arbitrary: n r)
  case (NByte b)
  then show ?case by (cases n) simp_all
next
  case (NString s)
  then show ?case using read_nbt_string_write [of s r] by (cases n) simp_all
next
  case (NList vs)
  obtain m where n: "n = Suc m" using NList.prems(2) by (cases n) auto
  have c: "nat (sint (of_nat (length vs) :: i32)) = length vs"
    using NList.prems(1) by (simp add: signed_of_nat signed_take_bit_int_eq_self)
  have "read_payload j (nbt_tag v) (nbt_payload v @ r') = Some (v, r')" if "v \<in> set vs" "length (nbt_payload v) < j" for v j r'
    using NList.IH [OF that(1)] NList.prems(1) that by (simp add: list_all_iff)
  from read_list_write [of vs, OF this, where t = "case vs of [] \<Rightarrow> 0 | v # _ \<Rightarrow> nbt_tag v" and n = m and r = r] NList.prems
  have "read_list m (case vs of [] \<Rightarrow> 0 | v # _ \<Rightarrow> nbt_tag v) (length vs) (concat (map nbt_payload vs) @ r) = Some (vs, r)"
    by (cases vs) (simp_all add: n)
  then show ?case by (simp add: n c from_be_be_bytes)
next
  case (NCompound ms)
  obtain m where n: "n = Suc m" using NCompound.prems(2) by (cases n) auto
  have "read_payload j (nbt_tag v) (nbt_payload v @ r') = Some (v, r')" if "(k, v) \<in> set ms" "length (nbt_payload v) < j" for k v j r'
    using NCompound.IH [OF that(1), of v] NCompound.prems(1) that by (fastforce simp: list_all_iff)
  then have "read_fields m (nbt_payload (NCompound ms) @ r) = Some (ms, r)"
  proof (rule read_fields_write)
    show "list_all (\<lambda>(k, v). length k < 2 ^ 16) ms" using NCompound.prems(1) by (auto simp: list_all_iff)
    show "length (nbt_payload (NCompound ms)) \<le> m" using NCompound.prems(2) by (simp add: n)
  qed
  then show ?case by (simp add: n)
qed

definition nbt_flag_value :: "bool option \<Rightarrow> nbt option" where
  "nbt_flag_value b = (if b = Some True then Some (NByte 1) else None)"

definition nbt_click_value :: "click_event \<Rightarrow> nbt" where
  "nbt_click_value e = NCompound [(''action'', NString (fst (click_parts e))), (''value'', NString (snd (click_parts e)))]"

fun component_nbt :: "component \<Rightarrow> nbt" where
  "component_nbt (Component t col b i u st ob ex cl hv) = NCompound
     ((''text'', NString t)
      # opt_member ''color'' (map_option NString col)
      @ opt_member ''bold'' (nbt_flag_value b) @ opt_member ''italic'' (nbt_flag_value i) @ opt_member ''underlined'' (nbt_flag_value u)
      @ opt_member ''strikethrough'' (nbt_flag_value st) @ opt_member ''obfuscated'' (nbt_flag_value ob)
      @ opt_member ''clickEvent'' (map_option nbt_click_value cl)
      @ opt_member ''hoverEvent'' (case hv of
           Some (ShowText c) \<Rightarrow> Some (NCompound [(''action'', NString ''show_text''), (''contents'', component_nbt c)])
         | None \<Rightarrow> None)
      @ opt_member ''extra'' (if ex = [] then None else Some (NList (map component_nbt ex))))"

lemma component_nbt_tag [simp]: "nbt_tag (component_nbt c) = 0x0A"
  by (cases c) simp

abbreviation nbt_field :: "string \<times> nbt \<Rightarrow> bytes" where
  "nbt_field \<equiv> \<lambda>(k, v). nbt_tag v # write_nbt_name k @ nbt_payload v"

lemma nbt_opt_member:
  "concat (map nbt_field (opt_member k v)) = (case v of Some v \<Rightarrow> nbt_tag v # write_nbt_name k @ nbt_payload v | None \<Rightarrow> [])"
  by (simp add: opt_member_def split: option.split)

lemma nbt_flag_field: "(case nbt_flag_value b of Some v \<Rightarrow> nbt_tag v # write_nbt_name k @ nbt_payload v | None \<Rightarrow> []) = nbt_flag k b"
  by (simp add: nbt_flag_value_def nbt_flag_def write_nbt_byte_field_def)

lemma nbt_string_field: "nbt_field (k, NString s) = write_nbt_string_field k s"
  by (simp add: write_nbt_string_field_def)

lemma write_component_nbt: "write_nbt_compound_content c = nbt_payload (component_nbt c)"
proof (induction c rule: write_nbt_compound_content.induct)
  case (1 t col b i u st ob ex cl hv)
  have e: "nbt_payload (component_nbt c) = write_nbt_compound_content c" if "c \<in> set ex" for c
    using 1(2) that by (cases "ex = []") simp_all
  have color: "(case map_option NString col of Some v \<Rightarrow> nbt_tag v # write_nbt_name ''color'' @ nbt_payload v | None \<Rightarrow> [])
      = (case col of Some c \<Rightarrow> write_nbt_string_field ''color'' c | None \<Rightarrow> [])"
    by (cases col) (simp_all add: write_nbt_string_field_def)
  have click: "(case map_option nbt_click_value cl of Some v \<Rightarrow> nbt_tag v # write_nbt_name ''clickEvent'' @ nbt_payload v | None \<Rightarrow> [])
      = (case cl of
          Some e \<Rightarrow> (let (action, val) = click_parts e
                     in 0x0A # write_nbt_name ''clickEvent'' @ write_nbt_string_field ''action'' action
                        @ write_nbt_string_field ''value'' val @ [0x00])
        | None \<Rightarrow> [])"
    by (cases cl) (simp_all add: nbt_click_value_def write_nbt_string_field_def case_prod_beta)
  have hover: "(case (case hv of
           Some (ShowText c) \<Rightarrow> Some (NCompound [(''action'', NString ''show_text''), (''contents'', component_nbt c)])
         | None \<Rightarrow> None) of Some v \<Rightarrow> nbt_tag v # write_nbt_name ''hoverEvent'' @ nbt_payload v | None \<Rightarrow> [])
      = (case hv of
          Some (ShowText c) \<Rightarrow> 0x0A # write_nbt_name ''hoverEvent'' @ write_nbt_string_field ''action'' ''show_text''
             @ 0x0A # write_nbt_name ''contents'' @ write_nbt_compound_content c @ [0x00]
        | None \<Rightarrow> [])"
    using 1(1) by (cases hv) (simp_all add: write_nbt_string_field_def split: hover_event.split)
  have extra: "(case (if ex = [] then None else Some (NList (map component_nbt ex))) of
        Some v \<Rightarrow> nbt_tag v # write_nbt_name ''extra'' @ nbt_payload v | None \<Rightarrow> [])
      = (if ex = [] then []
         else 0x09 # write_nbt_name ''extra'' @ 0x0A # be_bytes 4 (of_nat (length ex) :: i32) @ concat (map write_nbt_compound_content ex))"
    using e by (cases ex) (simp_all cong: map_cong)
  show ?case
    unfolding component_nbt.simps write_nbt_compound_content.simps nbt_payload.simps list.map map_append concat_append concat.simps
      nbt_opt_member nbt_flag_field nbt_string_field color click hover extra append_assoc
    by (rule refl)
qed

text \<open>Components whose texts have at most 65535 bytes.\<close>

fun component_fits :: "component \<Rightarrow> bool" where
  "component_fits (Component t col b i u st ob ex cl hv) =
     (length t < 2 ^ 16 \<and> (case col of Some c \<Rightarrow> length c < 2 ^ 16 | None \<Rightarrow> True)
      \<and> (case cl of Some e \<Rightarrow> length (snd (click_parts e)) < 2 ^ 16 | None \<Rightarrow> True)
      \<and> (case hv of Some (ShowText c) \<Rightarrow> component_fits c | None \<Rightarrow> True)
      \<and> length ex < 2 ^ 31 \<and> list_all component_fits ex)"

lemma component_nbt_fits: "component_fits c \<Longrightarrow> nbt_fits (component_nbt c)"
proof (induction c rule: write_nbt_compound_content.induct)
  case (1 t col b i u st ob ex cl hv)
  let ?ok = "\<lambda>(k, v). length k < 2 ^ 16 \<and> nbt_fits v"
  have m: "list_all ?ok (opt_member k v)" if "length k < 2 ^ 16" "\<And>w. v = Some w \<Longrightarrow> nbt_fits w" for k v
    using that by (simp add: opt_member_def split: option.split)
  have a: "length (fst (click_parts e)) < 2 ^ 16" for e by (cases e) simp_all
  have "nbt_fits w" if "(if ex = [] then None else Some (NList (map component_nbt ex))) = Some w" for w
    using that 1(2,3) by (cases ex) (auto simp: list_all_iff)
  moreover have "nbt_fits w" if "(case hv of Some (ShowText c) \<Rightarrow> Some (NCompound [(''action'', NString ''show_text''), (''contents'', component_nbt c)])
      | None \<Rightarrow> None) = Some w" for w
    using that 1(1,3) by (auto split: option.splits hover_event.splits)
  moreover have "nbt_fits w" if "map_option NString col = Some w" for w using that 1(3) by auto
  moreover have "nbt_fits w" if "map_option nbt_click_value cl = Some w" for w using that 1(3) a by (auto simp: nbt_click_value_def)
  moreover have "nbt_fits w" if "nbt_flag_value x = Some w" for x w using that by (auto simp: nbt_flag_value_def split: if_splits)
  ultimately show ?case
    using 1(3) unfolding component_nbt.simps nbt_fits.simps list.pred_inject list_all_append
    by (intro conjI m) simp_all
qed

text \<open>C22. As long as its texts have at most 65535 bytes, what \<open>to_nbt_network\<close> writes for a component is
  one complete network NBT compound with the fields of the component and nothing behind it.\<close>

theorem component_nbt_wellformed:
  assumes "component_fits c"
  shows "read_nbt_network (to_nbt_network c) = Some (component_nbt c, [])"
  using read_nbt_write [OF component_nbt_fits [OF assms], of "Suc (length (nbt_payload (component_nbt c)))" "[]"]
  by (simp add: read_nbt_network_def to_nbt_network_def write_component_nbt)

theorem component_nbt_wellformed_witness:
  "component_fits sample_component
   \<and> read_nbt_network (to_nbt_network sample_component) = Some (component_nbt sample_component, [])"
proof -
  have "component_fits sample_component" by (simp add: sample_component_def component_text_def)
  with component_nbt_wellformed [OF this] show ?thesis by simp
qed

text \<open>The length of a longer text wraps around, and the rest of the text is left where fields are expected.\<close>

lemma nbt_length_wraps:
  assumes "length val = 2 ^ 16"
  shows "write_nbt_string_field name val = 0x08 # write_nbt_name name @ [0, 0] @ str_bytes val"
proof -
  have z: "(of_nat (length val) :: u16) = 0" by (simp add: assms)
  have "be_bytes 2 (0 :: u16) = [0, 0]" by code_simp
  then show ?thesis by (simp add: write_nbt_string_field_def z)
qed

section \<open>What a text with codes shows\<close>

text \<open>The characters of a text with \<open>&\<close> codes, each with the formatting in force where it stands.\<close>

fun legacy_chars :: "string \<Rightarrow> legacy_fmt \<Rightarrow> (char \<times> legacy_fmt) list" where
  "legacy_chars [] fmt = []"
| "legacy_chars (ch # chars) fmt =
     (if ch = CHR ''&'' \<and> chars \<noteq> [] \<and> is_format_code (hd chars) then legacy_chars (tl chars) (legacy_code (hd chars) fmt)
      else (ch, fmt) # legacy_chars chars fmt)"

text \<open>What a client shows: a component takes over what it does not set itself from its parent.\<close>

fun component_style :: "legacy_fmt \<Rightarrow> component \<Rightarrow> legacy_fmt" where
  "component_style parent (Component t col b i u st ob ex cl hv) =
     \<lparr>lf_color = (case col of None \<Rightarrow> lf_color parent | Some c \<Rightarrow> Some c),
      lf_bold = (case b of None \<Rightarrow> lf_bold parent | Some x \<Rightarrow> x),
      lf_italic = (case i of None \<Rightarrow> lf_italic parent | Some x \<Rightarrow> x),
      lf_underlined = (case u of None \<Rightarrow> lf_underlined parent | Some x \<Rightarrow> x)\<rparr>"

function component_shown :: "legacy_fmt \<Rightarrow> component \<Rightarrow> (char \<times> legacy_fmt) list" where
  "component_shown parent c = map (\<lambda>ch. (ch, component_style parent c)) (cp_text c) @ concat (map (component_shown (component_style parent c)) (cp_extra c))"
  by auto
termination
proof (relation "measure (size \<circ> snd)")
  show "((component_style parent c, x), (parent, c)) \<in> measure (size \<circ> snd)" if "x \<in> set (cp_extra c)" for parent c x
    using that by (cases c) (auto dest: size_list_estimation' [where f = size, OF _ order_refl])
qed simp

declare component_shown.simps [simp del]

definition overlay_style :: "legacy_fmt \<Rightarrow> legacy_fmt \<Rightarrow> legacy_fmt" where
  "overlay_style parent f =
     \<lparr>lf_color = (case lf_color f of None \<Rightarrow> lf_color parent | Some c \<Rightarrow> Some c), lf_bold = (lf_bold f \<or> lf_bold parent),
      lf_italic = (lf_italic f \<or> lf_italic parent), lf_underlined = (lf_underlined f \<or> lf_underlined parent)\<rparr>"

lemma overlay_style_new [simp]: "overlay_style legacy_fmt_new f = f" "overlay_style f legacy_fmt_new = f" "overlay_style f f = f"
  by (cases f; simp add: overlay_style_def legacy_fmt_new_def split: option.split)+

lemma legacy_apply_fields:
  "cp_text (legacy_apply f s) = s" "cp_extra (legacy_apply f s) = []" "component_style g (legacy_apply f s) = overlay_style g f"
  by (simp_all add: legacy_apply_def component_text_def overlay_style_def Let_def split: option.split)

definition own_chars :: "component \<Rightarrow> (char \<times> legacy_fmt) list" where
  "own_chars c = map (\<lambda>ch. (ch, component_style legacy_fmt_new c)) (cp_text c)"

lemma own_legacy_push:
  "concat (map own_chars (legacy_push f s parts)) = concat (map own_chars parts) @ map (\<lambda>ch. (ch, f)) s"
  by (simp add: legacy_push_def own_chars_def legacy_apply_fields)

lemma legacy_loop_chars:
  "concat (map own_chars (legacy_loop t parts s f)) = concat (map own_chars parts) @ map (\<lambda>ch. (ch, f)) s @ legacy_chars t f"
proof (induction t parts s f rule: legacy_loop.induct)
  case (2 ch chars parts s f)
  then show ?case by (cases chars) (simp_all add: own_legacy_push)
qed (simp add: own_legacy_push)

definition legacy_run :: "component \<Rightarrow> bool" where
  "legacy_run c \<longleftrightarrow> (\<exists>f s. s \<noteq> [] \<and> c = legacy_apply f s)"

lemma run_push: "list_all legacy_run parts \<Longrightarrow> list_all legacy_run (legacy_push f s parts)"
  by (auto simp: legacy_push_def legacy_run_def)

lemma legacy_loop_runs: "list_all legacy_run parts \<Longrightarrow> list_all legacy_run (legacy_loop t parts s f)"
proof (induction t parts s f rule: legacy_loop.induct)
  case (2 ch chars parts s f)
  then show ?case by (cases chars) (simp_all add: run_push)
qed (simp add: run_push)

lemma append_children:
  "cp_text (fold append_child cs c) = cp_text c" "cp_extra (fold append_child cs c) = cp_extra c @ cs"
  "component_style g (fold append_child cs c) = component_style g c"
proof -
  have one: "cp_text (append_child d c) = cp_text c" "cp_extra (append_child d c) = cp_extra c @ [d]"
    "component_style g (append_child d c) = component_style g c" for c d by (cases c; simp)+
  show "cp_text (fold append_child cs c) = cp_text c" "cp_extra (fold append_child cs c) = cp_extra c @ cs"
    "component_style g (fold append_child cs c) = component_style g c"
    by (induction cs arbitrary: c) (simp_all add: one)
qed

lemma shown_run: "legacy_run c \<Longrightarrow> component_shown g c = map (\<lambda>(ch, f). (ch, overlay_style g f)) (own_chars c)"
  using component_shown.simps [of g c] by (auto simp: legacy_run_def own_chars_def legacy_apply_fields)

lemma display_fields: "component_display c = cp_text c @ concat (map component_display (cp_extra c))"
  by (cases c) simp

lemma display_run: "legacy_run c \<Longrightarrow> component_display c = map fst (own_chars c)"
  using display_fields [of c] by (auto simp: legacy_run_def own_chars_def legacy_apply_fields comp_def)

text \<open>The formatting of the first character of a text.\<close>

definition first_format :: "string \<Rightarrow> legacy_fmt" where
  "first_format t = (case legacy_chars t legacy_fmt_new of [] \<Rightarrow> legacy_fmt_new | (_, f) # _ \<Rightarrow> f)"


text \<open>So a text that starts unformatted is shown as written, and a code that resets the formatting of the first run does not.\<close>

lemma reset_after_bold_stays_bold:
  "legacy_chars ''&lA&rB'' legacy_fmt_new = [(CHR ''A'', legacy_fmt_new\<lparr>lf_bold := True\<rparr>), (CHR ''B'', legacy_fmt_new)]
   \<and> component_shown legacy_fmt_new (from_legacy ''&lA&rB'')
     = [(CHR ''A'', legacy_fmt_new\<lparr>lf_bold := True\<rparr>), (CHR ''B'', legacy_fmt_new\<lparr>lf_bold := True\<rparr>)]"
  by code_simp

section \<open>Templates\<close>

text \<open>A template is a sequence of literal pieces and keys in braces.\<close>

datatype piece = Lit string | Key string

fun print_piece :: "piece \<Rightarrow> string" where
  "print_piece (Lit s) = s"
| "print_piece (Key k) = CHR ''{'' # k @ ''}''"

abbreviation print_pieces :: "piece list \<Rightarrow> string" where
  "print_pieces ps \<equiv> concat (map print_piece ps)"

definition no_braces :: "string \<Rightarrow> bool" where
  "no_braces s \<longleftrightarrow> CHR ''{'' \<notin> set s \<and> CHR ''}'' \<notin> set s"

fun plain_piece :: "piece \<Rightarrow> bool" where
  "plain_piece (Lit s) = no_braces s"
| "plain_piece (Key k) = no_braces k"

fun fill :: "(string \<times> string) list \<Rightarrow> piece \<Rightarrow> piece" where
  "fill vars (Lit s) = Lit s"
| "fill vars (Key k) = (case map_of vars k of Some v \<Rightarrow> Lit v | None \<Rightarrow> Key k)"

lemma replace_skips: "CHR ''{'' \<notin> set s \<Longrightarrow> replace_placeholder k v (s @ r) = s @ replace_placeholder k v r"
  by (induction s) auto

lemma closing_brace_unique: "no_braces k \<Longrightarrow> no_braces k' \<Longrightarrow> k @ CHR ''}'' # x = k' @ CHR ''}'' # y \<Longrightarrow> k = k'"
  by (induction k arbitrary: k') (auto simp: no_braces_def Cons_eq_append_conv append_eq_Cons_conv)

lemma replace_key:
  assumes "no_braces k" "no_braces k'"
  shows "replace_placeholder k v (CHR ''{'' # k' @ CHR ''}'' # r)
    = (if k' = k then v else CHR ''{'' # k' @ ''}'') @ replace_placeholder k v r"
proof (cases "k' = k")
  case False
  have "take (length k + 1) (k' @ CHR ''}'' # r) \<noteq> k @ ''}''"
  proof
    assume "take (length k + 1) (k' @ CHR ''}'' # r) = k @ ''}''"
    from append_take_drop_id [of "length k + 1" "k' @ CHR ''}'' # r", unfolded this] closing_brace_unique [OF assms] False
    show False by auto
  qed
  then show ?thesis using False replace_skips [of "k' @ ''}''" k v r] assms(2) by (simp add: no_braces_def)
qed simp

lemma replace_piece:
  "no_braces k \<Longrightarrow> plain_piece p \<Longrightarrow> replace_placeholder k v (print_piece p @ r) = print_piece (fill [(k, v)] p) @ replace_placeholder k v r"
  using replace_skips [of _ k v r] replace_key [of k _ v r] by (cases p) (simp_all add: no_braces_def)

lemma replace_pieces:
  "no_braces k \<Longrightarrow> list_all plain_piece ps \<Longrightarrow> replace_placeholder k v (print_pieces ps) = print_pieces (map (fill [(k, v)]) ps)"
  by (induction ps) (simp_all add: replace_piece)

lemma fill_Cons: "fill vars (fill [(k, v)] p) = fill ((k, v) # vars) p"
  by (cases p) simp_all

lemma fill_plain: "no_braces v \<Longrightarrow> plain_piece p \<Longrightarrow> plain_piece (fill [(k, v)] p)"
  by (cases p) simp_all

text \<open>Filling a template whose values have no braces replaces every key by the first value given for it and leaves the
  other keys as they are.\<close>

lemma format_placeholders_fills:
  "list_all (\<lambda>(k, v). no_braces k \<and> no_braces v) vars \<Longrightarrow> list_all plain_piece ps \<Longrightarrow>
   format_placeholders (print_pieces ps) vars = print_pieces (map (fill vars) ps)"
proof (induction vars arbitrary: ps)
  case Nil
  have "fill [] p = p" for p by (cases p) simp_all
  then show ?case by (simp add: format_placeholders_def)
next
  case (Cons kv vars)
  obtain k v where kv: "kv = (k, v)" by (cases kv)
  have "list_all plain_piece (map (fill [(k, v)]) ps)" using Cons.prems fill_plain by (auto simp: kv list_all_iff)
  from Cons.IH [OF _ this] Cons.prems show ?case
    by (simp add: format_placeholders_def kv replace_pieces comp_def fill_Cons)
qed

text \<open>A value with a placeholder in it is filled again by a later variable.\<close>

lemma value_filled_again: "format_placeholders ''{a}'' [(''a'', ''{b}''), (''b'', ''x'')] = ''x''"
  by code_simp

section \<open>Joined components\<close>

lemma component_display_append: "component_display (append_child d c) = component_display c @ component_display d"
  by (cases c) simp

lemma component_display_join:
  "component_display (component_join (c # cs) separator)
   = component_display c @ concat (map (\<lambda>d. component_display separator @ component_display d) cs)"
proof -
  have "component_display (fold (\<lambda>c result. append_child c (append_child separator result)) cs c)
      = component_display c @ concat (map (\<lambda>d. component_display separator @ component_display d) cs)"
    by (induction cs arbitrary: c) (simp_all add: component_display_append)
  then show ?thesis by (simp add: component_join_def)
qed

end
