(* ===== verification/ProxyLoop.thy ===== *)
theory ProxyLoop
  imports PacketRegistry Packets Rewrite Sessions EventBus Commands Components
begin

text \<open>
  The relay between a client and its backend server: the codec filter chains, the play packets the
  proxy reads and builds, \<open>player/packets.rs\<close>, \<open>session/chat_utils.rs\<close>, the registry cache and the loop of
  \<open>session/proxy_loop.rs\<close>.

  A connection is the list of the frames written to it, each with the compression threshold in force when it was
  written; which write fails, and how, is a parameter. Filters and handlers of commands
  are parameters, as are the tree of the commands packet and the decoders of packets the loop does not
  look into.
\<close>

section \<open>Play packets\<close>

text \<open>Texts that are JSON strings before 1.20.3 and NBT from then on.\<close>

definition decode_reason :: "bytes \<Rightarrow> protocol_version \<Rightarrow> protocol_error + bytes" where
  "decode_reason r v =
     (if v < V1_20_3 then rbind (read_string r) (\<lambda>(s, r). Ok (str_bytes s))
      else rbind (read_remaining r) (\<lambda>(bs, r). Ok bs))"

definition encode_reason :: "string \<Rightarrow> bytes \<Rightarrow> protocol_version \<Rightarrow> protocol_error + bytes" where
  "encode_reason message reason v =
     (if v < V1_20_3
      then (case from_utf8 reason of None \<Rightarrow> Err (Invalid message) | Some json \<Rightarrow> write_string json)
      else Ok reason)"

definition c_disconnect_encode :: "bytes \<Rightarrow> protocol_version \<Rightarrow> protocol_error + bytes" where
  "c_disconnect_encode reason v = encode_reason ''CDisconnect reason is not valid UTF-8 for JSON version'' reason v"

definition c_disconnect_as_json :: "bytes \<Rightarrow> string option" where
  "c_disconnect_as_json reason = from_utf8 reason"

definition c_set_title_encode :: "bytes \<Rightarrow> protocol_version \<Rightarrow> protocol_error + bytes" where
  "c_set_title_encode text v = encode_reason ''CSetTitle text is not valid UTF-8 for JSON version'' text v"

definition c_set_subtitle_encode :: "bytes \<Rightarrow> protocol_version \<Rightarrow> protocol_error + bytes" where
  "c_set_subtitle_encode text v = encode_reason ''CSetSubtitle text is not valid UTF-8 for JSON version'' text v"

definition c_set_title_times_encode :: "i32 \<Rightarrow> i32 \<Rightarrow> i32 \<Rightarrow> protocol_error + bytes" where
  "c_set_title_times_encode fade_in stay fade_out = write_seq [write_be 4 fade_in, write_be 4 stay, write_be 4 fade_out]"

datatype c_title_legacy = LegacyTitle string | LegacySubtitle string | LegacyTimes i32 i32 i32

definition title_action_id :: "c_title_legacy \<Rightarrow> protocol_version \<Rightarrow> i32" where
  "title_action_id p v =
     (case p of LegacyTitle _ \<Rightarrow> 0 | LegacySubtitle _ \<Rightarrow> 1 | LegacyTimes _ _ _ \<Rightarrow> if v < V1_12 then 2 else 3)"

definition c_title_legacy_encode :: "c_title_legacy \<Rightarrow> protocol_version \<Rightarrow> protocol_error + bytes" where
  "c_title_legacy_encode p v = write_seq (write_var_int (title_action_id p v) #
     (case p of
        LegacyTitle json \<Rightarrow> [write_string json]
      | LegacySubtitle json \<Rightarrow> [write_string json]
      | LegacyTimes a b c \<Rightarrow> [write_be 4 a, write_be 4 b, write_be 4 c]))"

definition c_system_chat_encode :: "bytes \<Rightarrow> bool \<Rightarrow> protocol_version \<Rightarrow> protocol_error + bytes" where
  "c_system_chat_encode content overlay v =
     rbind (encode_reason ''CSystemChatMessage content is not valid UTF-8 for JSON version'' content v) (\<lambda>bs.
       rmap (\<lambda>o'. bs @ o') (write_bool overlay))"

definition c_chat_legacy_encode :: "string \<Rightarrow> u8 \<Rightarrow> protocol_version \<Rightarrow> protocol_error + bytes" where
  "c_chat_legacy_encode content position v = write_seq
     (write_string content # (if v \<ge> V1_8 then [write_u8 position] else []) @ (if v \<ge> V1_16 then [write_uuid 0] else []))"

text \<open>\<open>SChatMessage\<close> and \<open>SChatCommand\<close>: a string and the rest of the packet.\<close>

definition s_chat_decode :: "bytes \<Rightarrow> protocol_error + string \<times> bytes" where
  "s_chat_decode r = dbind (read_string r) (\<lambda>message r. dbind (read_remaining r) (\<lambda>remaining r. Ok (message, remaining)))"

definition s_tab_complete_decode :: "bytes \<Rightarrow> protocol_error + i32 \<times> string" where
  "s_tab_complete_decode r = dbind (read_varint_from_reader r) (\<lambda>tid r. dbind (read_string r) (\<lambda>s r. Ok (tid, s)))"

definition c_tab_complete_encode :: "i32 \<Rightarrow> i32 \<Rightarrow> i32 \<Rightarrow> (string \<times> string option) list \<Rightarrow> protocol_error + bytes" where
  "c_tab_complete_encode tid start len matches = write_seq
     ([write_var_int tid, write_var_int start, write_var_int len, write_var_int (of_nat (length matches))]
      @ concat (map (\<lambda>(m, tooltip). write_string m #
           (case tooltip of Some t \<Rightarrow> [write_u8 1, write_string t] | None \<Rightarrow> [write_u8 0])) matches))"

section \<open>Packets the proxy builds\<close>

text \<open>\<open>player/packets.rs\<close>.\<close>

record title_data =
  td_title :: component
  td_subtitle :: component
  td_fade_in :: i32
  td_stay :: i32
  td_fade_out :: i32

definition protocol_error_display :: "(io_error_kind \<Rightarrow> string) \<Rightarrow> protocol_error \<Rightarrow> string" where
  "protocol_error_display io_text e =
     (case e of
        Incomplete context \<Rightarrow> ''incomplete: '' @ context
      | Invalid context \<Rightarrow> ''invalid: '' @ context
      | TooLarge m actual \<Rightarrow> ''too large: '' @ show_nat actual @ '' bytes exceeds maximum of '' @ show_nat m
      | Io k \<Rightarrow> io_text k)"

type_synonym packet_builder = "(io_error_kind \<Rightarrow> string) \<times> packet_type packet_registry"

definition encode_packet ::
  "packet_builder \<Rightarrow> packet_type \<Rightarrow> string \<Rightarrow> (protocol_version \<Rightarrow> protocol_error + bytes) \<Rightarrow> protocol_version \<Rightarrow>
   core_error + packet_frame" where
  "encode_packet reg t name enc v =
     (case get_packet_id t Play Clientbound v (snd reg) of
        None \<Rightarrow> Err (OtherError (''no packet ID for '' @ name @ '' in Play/Clientbound/ProtocolVersion('' @ show_int v @ '')''))
      | Some pid \<Rightarrow>
          (case enc v of
             Inl e \<Rightarrow> Err (OtherError (protocol_error_display (fst reg) e))
           | Inr payload \<Rightarrow> Ok \<lparr>frame_id = pid, frame_payload = payload\<rparr>))"

definition text_bytes :: "component \<Rightarrow> protocol_version \<Rightarrow> bytes" where
  "text_bytes c v = (if v < V1_20_3 then str_bytes (to_json c) else to_nbt_network c)"

definition build_system_chat_message :: "packet_builder \<Rightarrow> component \<Rightarrow> protocol_version \<Rightarrow> core_error + packet_frame" where
  "build_system_chat_message reg c v =
     (if v < V1_19 then encode_packet reg CChatMessageLegacy ''CChatMessageLegacy'' (c_chat_legacy_encode (to_json c) 1) v
      else encode_packet reg CSystemChatMessage ''CSystemChatMessage'' (c_system_chat_encode (text_bytes c v) False) v)"

definition build_action_bar :: "packet_builder \<Rightarrow> component \<Rightarrow> protocol_version \<Rightarrow> core_error + packet_frame" where
  "build_action_bar reg c v =
     (if v < V1_19
      then encode_packet reg CChatMessageLegacy ''CChatMessageLegacy'' (c_chat_legacy_encode (to_json c) (if v \<ge> V1_8 then 2 else 1)) v
      else encode_packet reg CSystemChatMessage ''CSystemChatMessage'' (c_system_chat_encode (text_bytes c v) True) v)"

definition build_disconnect :: "packet_builder \<Rightarrow> component \<Rightarrow> protocol_version \<Rightarrow> core_error + packet_frame" where
  "build_disconnect reg reason v = encode_packet reg CDisconnect ''CDisconnect'' (c_disconnect_encode (text_bytes reason v)) v"

definition build_title_packets :: "packet_builder \<Rightarrow> title_data \<Rightarrow> protocol_version \<Rightarrow> core_error + packet_frame list" where
  "build_title_packets reg t v =
     (if v < V1_8 then Ok []
      else if v < V1_17 then
        (let legacy = (\<lambda>p. encode_packet reg CTitleLegacy ''CTitleLegacy'' (c_title_legacy_encode p) v)
         in rbind (legacy (LegacyTimes (td_fade_in t) (td_stay t) (td_fade_out t))) (\<lambda>f1.
            rbind (legacy (LegacySubtitle (to_json (td_subtitle t)))) (\<lambda>f2.
            rbind (legacy (LegacyTitle (to_json (td_title t)))) (\<lambda>f3. Ok [f1, f2, f3]))))
      else
        rbind (encode_packet reg CSetTitleTimes ''CSetTitleTimes''
                 (\<lambda>_. c_set_title_times_encode (td_fade_in t) (td_stay t) (td_fade_out t)) v) (\<lambda>f1.
        rbind (encode_packet reg CSetSubtitle ''CSetSubtitle'' (c_set_subtitle_encode (text_bytes (td_subtitle t) v)) v) (\<lambda>f2.
        rbind (encode_packet reg CSetTitle ''CSetTitle'' (c_set_title_encode (text_bytes (td_title t) v)) v) (\<lambda>f3.
          Ok [f1, f2, f3]))))"

section \<open>Codec filter chains\<close>

datatype codec_verdict = VerdictPass | VerdictDrop | VerdictReplace | VerdictError string

record frame_output =
  frames_before :: "packet_frame list"
  frames_after :: "packet_frame list"

record codec_context =
  ctx_client_version :: protocol_version
  ctx_state :: connection_state
  ctx_client_side :: bool

text \<open>The behaviour of the filter instances, by the state an instance has.\<close>

record 'f filter_instances =
  cf_filter :: "codec_context \<Rightarrow> 'f \<Rightarrow> packet_frame \<Rightarrow> frame_output \<Rightarrow> 'f \<times> packet_frame \<times> frame_output \<times> codec_verdict"
  cf_on_state_change :: "connection_state \<Rightarrow> 'f \<Rightarrow> 'f"
  cf_on_compression_change :: "i32 \<Rightarrow> 'f \<Rightarrow> 'f"

record 'f codec_chain =
  ch_instances :: "'f list"
  ch_context :: codec_context

datatype filter_result = ResultPass | ResultDropped | ResultReplaced frame_output | ResultPassWithInjections frame_output

fun process_instances ::
  "'f filter_instances \<Rightarrow> codec_context \<Rightarrow> 'f list \<Rightarrow> packet_frame \<Rightarrow> frame_output \<Rightarrow> 'f list \<times> packet_frame \<times> filter_result" where
  "process_instances F ctx [] p out =
     ([], p, if frames_before out \<noteq> [] \<or> frames_after out \<noteq> [] then ResultPassWithInjections out else ResultPass)"
| "process_instances F ctx (i # is) p out =
     (let (i', p', out', verdict) = cf_filter F ctx i p out
      in case verdict of
           VerdictDrop \<Rightarrow> (i' # is, p', ResultDropped)
         | VerdictReplace \<Rightarrow> (i' # is, p', ResultReplaced out')
         | _ \<Rightarrow> (let (is', p'', res) = process_instances F ctx is p' out' in (i' # is', p'', res)))"

definition chain_process :: "'f filter_instances \<Rightarrow> packet_frame \<Rightarrow> 'f codec_chain \<Rightarrow> filter_result \<times> packet_frame \<times> 'f codec_chain" where
  "chain_process F p ch =
     (if ch_instances ch = [] then (ResultPass, p, ch)
      else let (is, p', res) = process_instances F (ch_context ch) (ch_instances ch) p \<lparr>frames_before = [], frames_after = []\<rparr>
           in (res, p', ch\<lparr>ch_instances := is\<rparr>))"

definition notify_state_change :: "'f filter_instances \<Rightarrow> connection_state \<Rightarrow> 'f codec_chain \<Rightarrow> 'f codec_chain" where
  "notify_state_change F st ch =
     ch\<lparr>ch_context := (ch_context ch)\<lparr>ctx_state := st\<rparr>, ch_instances := map (cf_on_state_change F st) (ch_instances ch)\<rparr>"

definition notify_compression_change :: "'f filter_instances \<Rightarrow> i32 \<Rightarrow> 'f codec_chain \<Rightarrow> 'f codec_chain" where
  "notify_compression_change F t ch = ch\<lparr>ch_instances := map (cf_on_compression_change F t) (ch_instances ch)\<rparr>"

definition build_codec_chains :: "(bool \<Rightarrow> 'f list) \<Rightarrow> protocol_version \<Rightarrow> 'f codec_chain \<times> 'f codec_chain" where
  "build_codec_chains create v =
     (\<lparr>ch_instances = create True, ch_context = \<lparr>ctx_client_version = v, ctx_state = Handshake, ctx_client_side = True\<rparr>\<rparr>,
      \<lparr>ch_instances = create False, ch_context = \<lparr>ctx_client_version = v, ctx_state = Handshake, ctx_client_side = False\<rparr>\<rparr>)"

section \<open>The session\<close>

record bridge =
  br_state :: connection_state
  br_threshold :: "i32 option"
  br_sent :: "(i32 option \<times> packet_frame) list"
  br_fails :: "nat \<Rightarrow> packet_frame \<Rightarrow> core_error option"

definition bridge_write :: "packet_frame \<Rightarrow> bridge \<Rightarrow> (core_error + unit) \<times> bridge" where
  "bridge_write f b =
     (case br_fails b (length (br_sent b)) f of
        Some e \<Rightarrow> (Err e, b)
      | None \<Rightarrow> (Ok (), b\<lparr>br_sent := br_sent b @ [(br_threshold b, f)]\<rparr>))"

definition bridge_set_compression :: "i32 \<Rightarrow> bridge \<Rightarrow> bridge" where
  "bridge_set_compression t b = b\<lparr>br_threshold := Some t\<rparr>"

text \<open>\<open>limbo/registry_cache.rs\<close>: what was captured of the configuration phase of each version.\<close>

record captured_frames =
  cap_registry :: "packet_frame list"
  cap_known_packs :: "packet_frame option"
  cap_finalized :: bool

type_synonym registry_cache = "protocol_version \<rightharpoonup> captured_frames"

definition cache_entry :: "protocol_version \<Rightarrow> registry_cache \<Rightarrow> captured_frames" where
  "cache_entry v c = (case c v of Some e \<Rightarrow> e | None \<Rightarrow> \<lparr>cap_registry = [], cap_known_packs = None, cap_finalized = False\<rparr>)"

definition collect_registry_frame :: "protocol_version \<Rightarrow> packet_frame \<Rightarrow> registry_cache \<Rightarrow> registry_cache" where
  "collect_registry_frame v f c =
     (let e = cache_entry v c in c(v \<mapsto> if cap_finalized e then e else e\<lparr>cap_registry := cap_registry e @ [f]\<rparr>))"

definition collect_known_packs_frame :: "protocol_version \<Rightarrow> packet_frame \<Rightarrow> registry_cache \<Rightarrow> registry_cache" where
  "collect_known_packs_frame v f c =
     (let e = cache_entry v c in c(v \<mapsto> if cap_finalized e then e else e\<lparr>cap_known_packs := Some f\<rparr>))"

definition cache_finalize :: "protocol_version \<Rightarrow> registry_cache \<Rightarrow> registry_cache" where
  "cache_finalize v c = (case c v of Some e \<Rightarrow> c(v \<mapsto> e\<lparr>cap_finalized := True\<rparr>) | None \<Rightarrow> c)"

record 'f session =
  ss_client :: bridge
  ss_backend :: bridge
  ss_client_chain :: "'f codec_chain"
  ss_server_chain :: "'f codec_chain"
  ss_cache :: registry_cache

text \<open>The events of the session and what their listeners answer.\<close>

datatype event_kind = ChatMessageKind

datatype chat_result = ChatAllow | ChatDeny | ChatModify string
datatype raw_result = RawPass | RawModify packet_frame | RawDrop
datatype session_event = ChatMessageEvent string chat_result | RawPacketEvent packet_frame raw_result

record ('f, 'c, 'h, 'pid) session_env =
  se_version :: protocol_version
  se_registry :: "packet_type packet_registry"
  se_filters :: "'f filter_instances"
  se_bus :: "(event_kind, session_event) event_bus"
  se_commands :: "'h command_manager"
  se_lower :: "string \<Rightarrow> string"
  se_player :: 'pid
  se_complete :: "'h \<Rightarrow> string list \<Rightarrow> u32 \<Rightarrow> string list"
  se_uuid :: uuid_text
  se_others :: "packet_type \<Rightarrow> bytes \<Rightarrow> protocol_version \<Rightarrow> protocol_error + unit"
  se_decode_commands :: "bytes \<Rightarrow> protocol_version \<Rightarrow> protocol_error + 'c"
  se_inject :: "'c \<Rightarrow> 'c"
  se_encode_commands :: "'c \<Rightarrow> protocol_version \<Rightarrow> protocol_error + bytes"
  se_announce :: bool
  se_lossy :: "bytes \<Rightarrow> string"
  se_io_text :: "io_error_kind \<Rightarrow> string"
  se_config_text :: "config_error \<Rightarrow> string"

section \<open>Writing\<close>

definition to_client :: "packet_frame \<Rightarrow> 'f session \<Rightarrow> (core_error + unit) \<times> 'f session" where
  "to_client f s = (let (r, b) = bridge_write f (ss_client s) in (r, s\<lparr>ss_client := b\<rparr>))"

definition to_backend :: "packet_frame \<Rightarrow> 'f session \<Rightarrow> (core_error + unit) \<times> 'f session" where
  "to_backend f s = (let (r, b) = bridge_write f (ss_backend s) in (r, s\<lparr>ss_backend := b\<rparr>))"

definition sbind :: "(core_error + 'a) \<times> 's \<Rightarrow> ('a \<Rightarrow> 's \<Rightarrow> (core_error + 'b) \<times> 's) \<Rightarrow> (core_error + 'b) \<times> 's" where
  "sbind m k = (case m of (Inl e, s) \<Rightarrow> (Err e, s) | (Inr a, s) \<Rightarrow> k a s)"

fun send_all :: "(packet_frame \<Rightarrow> 's \<Rightarrow> (core_error + unit) \<times> 's) \<Rightarrow> packet_frame list \<Rightarrow> 's \<Rightarrow> (core_error + unit) \<times> 's" where
  "send_all w [] s = (Ok (), s)"
| "send_all w (f # fs) s = sbind (w f s) (\<lambda>_. send_all w fs)"

text \<open>\<open>apply_codec_filter\<close>: the frame to go on with, or nothing when the filters consumed it.\<close>

definition after_filter ::
  "(packet_frame \<Rightarrow> 's \<Rightarrow> (core_error + unit) \<times> 's) \<Rightarrow> filter_result \<Rightarrow> packet_frame \<Rightarrow> 's \<Rightarrow> (core_error + packet_frame option) \<times> 's" where
  "after_filter w res p s =
     (case res of
        ResultPass \<Rightarrow> (Ok (Some p), s)
      | ResultDropped \<Rightarrow> (Ok None, s)
      | ResultReplaced out \<Rightarrow> sbind (send_all w (frames_before out) s) (\<lambda>_ s. sbind (send_all w (frames_after out) s) (\<lambda>_ s. (Ok None, s)))
      | ResultPassWithInjections out \<Rightarrow>
          sbind (send_all w (frames_before out) s) (\<lambda>_ s.
          sbind (w p s) (\<lambda>_ s.
          sbind (send_all w (frames_after out) s) (\<lambda>_ s. (Ok None, s)))))"

definition apply_client_filter :: "'f filter_instances \<Rightarrow> packet_frame \<Rightarrow> 'f session \<Rightarrow> (core_error + packet_frame option) \<times> 'f session" where
  "apply_client_filter F p s =
     (let (res, p, ch) = chain_process F p (ss_client_chain s) in after_filter to_backend res p (s\<lparr>ss_client_chain := ch\<rparr>))"

definition apply_server_filter :: "'f filter_instances \<Rightarrow> packet_frame \<Rightarrow> 'f session \<Rightarrow> (core_error + packet_frame option) \<times> 'f session" where
  "apply_server_filter F p s =
     (let (res, p, ch) = chain_process F p (ss_server_chain s) in after_filter to_client res p (s\<lparr>ss_server_chain := ch\<rparr>))"

section \<open>Decoding for the loop\<close>

text \<open>A decoded packet: its type, with the content of the types the loop looks into.\<close>

datatype 'c erased_packet =
    ErasedSetCompression i32 | ErasedLoginDisconnect string | ErasedDisconnect bytes | ErasedCommands 'c
  | ErasedTabComplete i32 string | ErasedOther packet_type

definition decode_erased ::
  "('f, 'c, 'h, 'pid) session_env \<Rightarrow> packet_type \<Rightarrow> bytes \<Rightarrow> protocol_version \<Rightarrow> protocol_error + 'c erased_packet" where
  "decode_erased env t r v =
     (case t of
        CSetCompression \<Rightarrow> rbind (c_set_compression_decode r) (\<lambda>(p, _). Ok (ErasedSetCompression (sc_threshold p)))
      | CLoginDisconnect \<Rightarrow> rbind (c_login_disconnect_decode r) (\<lambda>(p, _). Ok (ErasedLoginDisconnect (ld_reason p)))
      | CDisconnect \<Rightarrow> rbind (decode_reason r v) (\<lambda>reason. Ok (ErasedDisconnect reason))
      | CCommands \<Rightarrow> rbind (se_decode_commands env r v) (\<lambda>c. Ok (ErasedCommands c))
      | STabCompleteRequest \<Rightarrow> rbind (s_tab_complete_decode r) (\<lambda>(tid, s). Ok (ErasedTabComplete tid s))
      | CLoginSuccess \<Rightarrow> rbind (c_login_success_decode (se_uuid env) v r) (\<lambda>_. Ok (ErasedOther t))
      | SLoginAcknowledged \<Rightarrow> Ok (ErasedOther t)
      | CFinishConfig \<Rightarrow> Ok (ErasedOther t)
      | SAcknowledgeFinishConfig \<Rightarrow> Ok (ErasedOther t)
      | _ \<Rightarrow> rbind (se_others env t r v) (\<lambda>_. Ok (ErasedOther t)))"

definition session_decode ::
  "('f, 'c, 'h, 'pid) session_env \<Rightarrow> packet_frame \<Rightarrow> connection_state \<Rightarrow> direction \<Rightarrow> protocol_error + 'c erased_packet decoded_packet" where
  "session_decode env f st d = decode_frame (decode_erased env) f st d (se_version env) (se_registry env)"

datatype chat_action = ChatCommand string | ChatText string

definition detect_chat_or_command :: "('f, 'c, 'h, 'pid) session_env \<Rightarrow> packet_frame \<Rightarrow> chat_action option" where
  "detect_chat_or_command env f =
     (case (if get_packet_id SChatCommand Play Serverbound (se_version env) (se_registry env) = Some (frame_id f)
            then s_chat_decode (frame_payload f) else Err (Invalid [])) of
        Inr (command, _) \<Rightarrow> Some (ChatCommand command)
      | Inl _ \<Rightarrow>
          if get_packet_id SChatMessage Play Serverbound (se_version env) (se_registry env) = Some (frame_id f)
          then (case s_chat_decode (frame_payload f) of
                  Inr (message, _) \<Rightarrow>
                    Some (case message of c # rest \<Rightarrow> if c = CHR ''/'' then ChatCommand rest else ChatText message | [] \<Rightarrow> ChatText message)
                | Inl _ \<Rightarrow> None)
          else None)"

section \<open>Tab completion\<close>

definition trim_slashes :: "string \<Rightarrow> string" where
  "trim_slashes s = dropWhile (\<lambda>c. c = CHR ''/'') s"

definition starts_with :: "string \<Rightarrow> string \<Rightarrow> bool" where
  "starts_with p s \<longleftrightarrow> take (length p) s = p"

definition should_intercept :: "('f, 'c, 'h, 'pid) session_env \<Rightarrow> string \<Rightarrow> bool" where
  "should_intercept env s \<longleftrightarrow>
     starts_with ''/infrarust '' s \<or> starts_with ''/ir '' s \<or>
     (case split_whitespace (trim_slashes s) of
        [] \<Rightarrow> False
      | name # _ \<Rightarrow> name \<noteq> [] \<and> is_plugin_command (se_lower env) name (se_commands env))"

text \<open>The position after the last space, and 1 when there is no space.\<close>

definition last_space :: "string \<Rightarrow> nat" where
  "last_space s = (if CHR '' '' \<in> set s then length s - length (takeWhile (\<lambda>c. c \<noteq> CHR '' '') (rev s)) else 1)"

definition tab_response :: "('f, 'c, 'h, 'pid) session_env \<Rightarrow> packet_frame \<Rightarrow> packet_frame option" where
  "tab_response env f =
     (if get_packet_id STabCompleteRequest Play Serverbound (se_version env) (se_registry env) \<noteq> Some (frame_id f) then None
      else case session_decode env f Play Serverbound of
             Inr (Typed _ (ErasedTabComplete tid raw)) \<Rightarrow>
               (let s = trim_start raw
                in if \<not> should_intercept env s then None
                   else let suggestions = (case tab_complete_for_player (se_lower env) (trim_slashes s) (se_commands env) of
                              None \<Rightarrow> [] | Some (h, args, cursor) \<Rightarrow> se_complete env h args cursor)
                        in case get_packet_id CTabCompleteResponse Play Clientbound (se_version env) (se_registry env) of
                             None \<Rightarrow> None
                           | Some pid \<Rightarrow>
                               (case c_tab_complete_encode tid (of_nat (last_space s)) (of_nat (length s - last_space s))
                                       (map (\<lambda>m. (m, None)) suggestions) of
                                  Inl _ \<Rightarrow> None
                                | Inr payload \<Rightarrow> Some \<lparr>frame_id = pid, frame_payload = payload\<rparr>))
           | _ \<Rightarrow> None)"

section \<open>The two directions\<close>

text \<open>The raw packet event: the frame its listeners leave, or nothing when they drop it.\<close>

definition raw_event :: "('f, 'c, 'h, 'pid) session_env \<Rightarrow> packet_direction \<Rightarrow> packet_frame \<Rightarrow> packet_frame option" where
  "raw_event env d f =
     (let key = \<lparr>pk_packet_id = frame_id f, pk_state = Play, pk_direction = d\<rparr>
      in if \<not> has_packet_listeners key (se_bus env) then Some f
         else case fire_packet_event key (RawPacketEvent f RawPass) (se_bus env) of
                RawPacketEvent _ (RawModify p) \<Rightarrow> Some p
              | RawPacketEvent _ RawDrop \<Rightarrow> None
              | _ \<Rightarrow> Some f)"

definition chat_consumed :: "('f, 'c, 'h, 'pid) session_env \<Rightarrow> packet_frame \<Rightarrow> bool" where
  "chat_consumed env f =
     (case detect_chat_or_command env f of
        None \<Rightarrow> False
      | Some (ChatCommand input) \<Rightarrow> dispatch (se_lower env) (Some (se_player env)) input (se_commands env) \<noteq> None
      | Some (ChatText t) \<Rightarrow>
          (case fire ChatMessageKind (ChatMessageEvent t ChatAllow) (se_bus env) of
             ChatMessageEvent _ ChatDeny \<Rightarrow> True
           | _ \<Rightarrow> False))"

definition set_states :: "connection_state \<Rightarrow> 'f session \<Rightarrow> 'f session" where
  "set_states st s = s\<lparr>ss_client := (ss_client s)\<lparr>br_state := st\<rparr>, ss_backend := (ss_backend s)\<lparr>br_state := st\<rparr>\<rparr>"

definition handle_client_to_backend ::
  "('f, 'c, 'h, 'pid) session_env \<Rightarrow> packet_frame \<Rightarrow> 'f session \<Rightarrow> (core_error + unit) \<times> 'f session" where
  "handle_client_to_backend env f s =
     (if br_state (ss_client s) = Play then
        sbind (apply_client_filter (se_filters env) f s) (\<lambda>passed s.
          case passed of
            None \<Rightarrow> (Ok (), s)
          | Some f \<Rightarrow>
              if get_packet_id SChatSessionUpdate Play Serverbound (se_version env) (se_registry env) = Some (frame_id f) then (Ok (), s)
              else case tab_response env f of
                     Some reply \<Rightarrow> to_client reply s
                   | None \<Rightarrow>
                       if chat_consumed env f then (Ok (), s)
                       else case raw_event env PacketServerbound f of
                              None \<Rightarrow> (Ok (), s)
                            | Some f \<Rightarrow> to_backend f s)
      else
        sbind (to_backend f s) (\<lambda>_ s.
          case session_decode env f (br_state (ss_client s)) Serverbound of
            Inr (Typed _ (ErasedOther SLoginAcknowledged)) \<Rightarrow>
              (let s = set_states Config s
               in (Ok (), s\<lparr>ss_client_chain := notify_state_change (se_filters env) Config (ss_client_chain s)\<rparr>))
          | Inr (Typed _ (ErasedOther SAcknowledgeFinishConfig)) \<Rightarrow>
              (let s = set_states Play s
               in (Ok (), s\<lparr>ss_client_chain := notify_state_change (se_filters env) Play (ss_client_chain s)\<rparr>))
          | _ \<Rightarrow> (Ok (), s)))"

datatype backend_action = BackendContinue | BackendDisconnected "string option"

definition commands_frame :: "('f, 'c, 'h, 'pid) session_env \<Rightarrow> i32 \<Rightarrow> 'c \<Rightarrow> packet_frame \<Rightarrow> packet_frame" where
  "commands_frame env pid c f =
     (if se_announce env
      then (case se_encode_commands env (se_inject env c) (se_version env) of
              Inl _ \<Rightarrow> f
            | Inr payload \<Rightarrow> \<lparr>frame_id = pid, frame_payload = payload\<rparr>)
      else f)"

definition handle_backend_to_client ::
  "('f, 'c, 'h, 'pid) session_env \<Rightarrow> packet_frame \<Rightarrow> 'f session \<Rightarrow> (core_error + backend_action) \<times> 'f session" where
  "handle_backend_to_client env f s =
     (let st = br_state (ss_backend s); v = se_version env; continue = (\<lambda>_ s. (Ok BackendContinue, s))
      in if st = Play then
           sbind (apply_server_filter (se_filters env) f s) (\<lambda>passed s.
             case passed of
               None \<Rightarrow> (Ok BackendContinue, s)
             | Some f \<Rightarrow>
                 (case raw_event env PacketClientbound f of
                    None \<Rightarrow> (Ok BackendContinue, s)
                  | Some f \<Rightarrow>
                      (case session_decode env f st Clientbound of
                         Inr (Typed _ (ErasedDisconnect reason)) \<Rightarrow>
                           sbind (to_client f s) (\<lambda>_ s. (Ok (BackendDisconnected (Some
                             (case c_disconnect_as_json reason of Some json \<Rightarrow> json | None \<Rightarrow> se_lossy env reason))), s))
                       | Inr (Typed pid (ErasedCommands c)) \<Rightarrow> sbind (to_client (commands_frame env pid c f) s) continue
                       | _ \<Rightarrow> sbind (to_client f s) continue)))
         else
           (case session_decode env f st Clientbound of
              Inr (Typed _ (ErasedSetCompression t)) \<Rightarrow>
                sbind (to_client f (s\<lparr>ss_backend := bridge_set_compression t (ss_backend s), ss_client := bridge_set_compression t (ss_client s)\<rparr>)) (\<lambda>_ s.
                  (Ok BackendContinue, s\<lparr>ss_server_chain := notify_compression_change (se_filters env) t (ss_server_chain s)\<rparr>))
            | Inr (Typed _ (ErasedOther CLoginSuccess)) \<Rightarrow>
                sbind (to_client f s) (\<lambda>_ s.
                  if v < V1_20_2
                  then let s = set_states Play s
                       in (Ok BackendContinue, s\<lparr>ss_server_chain := notify_state_change (se_filters env) Play (ss_server_chain s)\<rparr>)
                  else (Ok BackendContinue, s))
            | Inr (Typed _ (ErasedLoginDisconnect reason)) \<Rightarrow> sbind (to_client f s) (\<lambda>_ s. (Ok (BackendDisconnected (Some reason)), s))
            | Inr (Typed _ (ErasedDisconnect _)) \<Rightarrow> sbind (to_client f s) (\<lambda>_ s. (Ok (BackendDisconnected (Some ''backend disconnect'')), s))
            | Inr (Typed _ (ErasedOther CFinishConfig)) \<Rightarrow> sbind (to_client f (s\<lparr>ss_cache := cache_finalize v (ss_cache s)\<rparr>)) continue
            | Inr (Typed _ _) \<Rightarrow>
                (let s = (if st \<noteq> Config then s
                          else if get_packet_id CKnownPacks Config Clientbound v (se_registry env) = Some (frame_id f)
                          then s\<lparr>ss_cache := collect_known_packs_frame v f (ss_cache s)\<rparr>
                          else s\<lparr>ss_cache := collect_registry_frame v f (ss_cache s)\<rparr>)
                 in sbind (to_client f s) continue)
            | Inr (Opaque _ _) \<Rightarrow>
                (let s = (if st = Config then s\<lparr>ss_cache := collect_registry_frame v f (ss_cache s)\<rparr> else s)
                 in sbind (to_client f s) continue)
            | Inl _ \<Rightarrow> sbind (to_client f s) continue))"

section \<open>The loop\<close>

datatype command_result = CommandContinue | CommandKick | CommandSwitch string

definition handle_player_command ::
  "('f, 'c, 'h, 'pid) session_env \<Rightarrow> (component, title_data) player_command \<Rightarrow> 'f session \<Rightarrow> (core_error + command_result) \<times> 'f session" where
  "handle_player_command env c s =
     (let v = se_version env; reg = (se_io_text env, se_registry env);
          send = (\<lambda>built s. case built of Inl e \<Rightarrow> (Err e, s) | Inr f \<Rightarrow> sbind (to_client f s) (\<lambda>_ s. (Ok CommandContinue, s)))
      in case c of
           SendMessage m \<Rightarrow> send (build_system_chat_message reg m v) s
         | SendActionBar m \<Rightarrow> send (build_action_bar reg m v) s
         | SendTitle t \<Rightarrow>
             (case build_title_packets reg t v of
                Inl e \<Rightarrow> (Err e, s)
              | Inr fs \<Rightarrow> sbind (send_all to_client fs s) (\<lambda>_ s. (Ok CommandContinue, s)))
         | SendPacket pid data \<Rightarrow> send (Ok \<lparr>frame_id = pid, frame_payload = data\<rparr>) s
         | Kick reason \<Rightarrow>
             (case build_disconnect reg reason v of
                Inl e \<Rightarrow> (Err e, s)
              | Inr f \<Rightarrow> sbind (to_client f s) (\<lambda>_ s. (Ok CommandKick, s)))
         | SwitchServer target \<Rightarrow> (Ok (CommandSwitch target), s))"

datatype proxy_outcome =
    ClientDisconnected | BackendGone "string option" | Shutdown | LoopError core_error | SwitchRequested string

text \<open>What the \<open>select!\<close> of the loop receives, in the order in which it takes it.\<close>

datatype session_input =
    FromClient "core_error + packet_frame option" | FromBackend "core_error + packet_frame option" | FromPlayer "(component, title_data) player_command" | ShutdownSignal

text \<open>The texts of the errors, in UTF-8 (the dash and the quotation marks by their codes).\<close>

definition core_error_display :: "(io_error_kind \<Rightarrow> string) \<Rightarrow> (config_error \<Rightarrow> string) \<Rightarrow> core_error \<Rightarrow> string" where
  "core_error_display io_text config_text e =
     (case e of
        TransportError m \<Rightarrow> ''transport error: '' @ m
      | ProtocolError p \<Rightarrow> ''protocol error: '' @ protocol_error_display io_text p
      | ConfigError c \<Rightarrow> ''config error: '' @ config_text c
      | Rejected m \<Rightarrow> ''pipeline rejected: '' @ m
      | UnknownDomain m \<Rightarrow> ''no server found for domain: '' @ m
      | ConnectionClosed \<Rightarrow> ''connection closed''
      | Timeout m \<Rightarrow> ''connection timeout: '' @ m
      | BackendUnreachable m \<Rightarrow> ''backend unreachable: '' @ m
      | IoError k \<Rightarrow> ''io error: '' @ io_text k
      | ForwardingError m \<Rightarrow> ''forwarding error: '' @ m
      | AuthError m \<Rightarrow> ''auth error: '' @ m
      | MissingExtension m \<Rightarrow>
          ''missing pipeline extension: '' @ m @ '' '' @ [CHR 0xE2, CHR 0x80, CHR 0x94] @ '' check middleware ordering''
      | InvalidProviderId m \<Rightarrow> ''invalid provider id (expected '' @ [CHR 0x60] @ ''type@id'' @ [CHR 0x60] @ ''): '' @ m
      | DockerConnection m \<Rightarrow> ''docker connection error: '' @ m
      | TelemetryInit m \<Rightarrow> ''telemetry initialization error: '' @ m
      | OtherError m \<Rightarrow> m)"

fun loop_step ::
  "('f, 'c, 'h, 'pid) session_env \<Rightarrow> session_input \<Rightarrow> 'f session \<Rightarrow> proxy_outcome option \<times> 'f session" where
  "loop_step env (FromClient (Inr (Some f))) s =
     (case handle_client_to_backend env f s of
        (Inr _, s) \<Rightarrow> (None, s)
      | (Inl e, s) \<Rightarrow> (Some (if is_expected_disconnect e then BackendGone (Some (core_error_display (se_io_text env) (se_config_text env) e)) else LoopError e), s))"
| "loop_step env (FromClient (Inr None)) s = (Some ClientDisconnected, s)"
| "loop_step env (FromClient (Inl e)) s = (Some (LoopError e), s)"
| "loop_step env (FromBackend (Inr (Some f))) s =
     (case handle_backend_to_client env f s of
        (Inr BackendContinue, s) \<Rightarrow> (None, s)
      | (Inr (BackendDisconnected reason), s) \<Rightarrow> (Some (BackendGone reason), s)
      | (Inl e, s) \<Rightarrow> (Some (LoopError e), s))"
| "loop_step env (FromBackend (Inr None)) s = (Some (BackendGone None), s)"
| "loop_step env (FromBackend (Inl e)) s = (Some (LoopError e), s)"
| "loop_step env (FromPlayer c) s =
     (case handle_player_command env c s of
        (Inr CommandContinue, s) \<Rightarrow> (None, s)
      | (Inr CommandKick, s) \<Rightarrow> (Some ClientDisconnected, s)
      | (Inr (CommandSwitch target), s) \<Rightarrow> (Some (SwitchRequested target), s)
      | (Inl _, s) \<Rightarrow> (None, s))"
| "loop_step env ShutdownSignal s = (Some Shutdown, s)"

fun proxy_loop ::
  "('f, 'c, 'h, 'pid) session_env \<Rightarrow> session_input list \<Rightarrow> 'f session \<Rightarrow> proxy_outcome option \<times> 'f session" where
  "proxy_loop env [] s = (None, s)"
| "proxy_loop env (i # is) s =
     (case loop_step env i s of
        (None, s) \<Rightarrow> proxy_loop env is s
      | (Some out, s) \<Rightarrow> (Some out, s))"

section \<open>Facts\<close>

lemma bridge_write_keeps [simp]:
  "br_state (snd (bridge_write f b)) = br_state b" "br_threshold (snd (bridge_write f b)) = br_threshold b"
  by (simp_all add: bridge_write_def split: option.splits)

lemma write_keeps [simp]:
  "br_state (ss_client (snd (to_client f s))) = br_state (ss_client s)" "ss_backend (snd (to_client f s)) = ss_backend s"
  "br_threshold (ss_client (snd (to_client f s))) = br_threshold (ss_client s)" "ss_cache (snd (to_client f s)) = ss_cache s"
  "br_state (ss_backend (snd (to_backend f s))) = br_state (ss_backend s)" "ss_client (snd (to_backend f s)) = ss_client s"
  "br_threshold (ss_backend (snd (to_backend f s))) = br_threshold (ss_backend s)" "ss_cache (snd (to_backend f s)) = ss_cache s"
  by (simp_all add: to_client_def to_backend_def case_prod_beta)

lemma sbind_simps [simp]:
  "sbind (Err e, s) k = (Err e, s)" "sbind (Ok a, s) k = k a s"
  by (simp_all add: sbind_def)

lemma snd_sbind:
  "snd (sbind m k) = (case fst m of Inl e \<Rightarrow> snd m | Inr a \<Rightarrow> snd (k a (snd m)))"
  by (cases m; cases "fst m") simp_all

text \<open>
  What holds between the session before and after an input: relations that every write, every change of a filter chain,
  of the cache and of the compression keeps, and every change of the protocol state at its packet.
\<close>

locale session_relation =
  fixes env :: "('f, 'c, 'h, 'pid) session_env" and R :: "'f session \<Rightarrow> 'f session \<Rightarrow> bool"
  assumes same: "R s s"
    and compose: "R s s' \<Longrightarrow> R s' s'' \<Longrightarrow> R s s''"
    and client_write: "R s (snd (to_client f s))"
    and backend_write: "R s (snd (to_backend f s))"
    and client_chain: "R s (s\<lparr>ss_client_chain := c\<rparr>)"
    and server_chain: "R s (s\<lparr>ss_server_chain := c\<rparr>)"
    and registry_frame: "R s (s\<lparr>ss_cache := collect_registry_frame (se_version env) f (ss_cache s)\<rparr>)"
    and known_packs: "R s (s\<lparr>ss_cache := collect_known_packs_frame (se_version env) f (ss_cache s)\<rparr>)"
    and finalize: "R s (s\<lparr>ss_cache := cache_finalize (se_version env) (ss_cache s)\<rparr>)"
    and compression: "R s (s\<lparr>ss_backend := bridge_set_compression t (ss_backend s), ss_client := bridge_set_compression t (ss_client s)\<rparr>)"
    and acknowledged: "session_decode env f (br_state (ss_client s)) Serverbound = Ok (Typed i (ErasedOther SLoginAcknowledged)) \<Longrightarrow>
      R s (set_states Config s)"
    and configured: "session_decode env f (br_state (ss_client s)) Serverbound = Ok (Typed i (ErasedOther SAcknowledgeFinishConfig)) \<Longrightarrow>
      R s (set_states Play s)"
    and logged_in: "session_decode env f (br_state (ss_backend s)) Clientbound = Ok (Typed i (ErasedOther CLoginSuccess)) \<Longrightarrow>
      se_version env < V1_20_2 \<Longrightarrow> R s (set_states Play s)"
begin

lemma bind: "R s (snd m) \<Longrightarrow> (\<And>a. fst m = Ok a \<Longrightarrow> R s (snd (k a (snd m)))) \<Longrightarrow> R s (snd (sbind m k))"
  by (cases "fst m") (simp_all add: snd_sbind)

lemma then_client: "R s s' \<Longrightarrow> R s (snd (to_client f s'))"
  by (rule compose [OF _ client_write])

lemma then_backend: "R s s' \<Longrightarrow> R s (snd (to_backend f s'))"
  by (rule compose [OF _ backend_write])

lemma send_all_client: "R s s' \<Longrightarrow> R s (snd (send_all to_client fs s'))"
  by (induction fs arbitrary: s') (auto intro!: bind then_client)

lemma send_all_backend: "R s s' \<Longrightarrow> R s (snd (send_all to_backend fs s'))"
  by (induction fs arbitrary: s') (auto intro!: bind then_backend)

lemma after_filter_client: "R s s' \<Longrightarrow> R s (snd (after_filter to_client res p s'))"
  unfolding after_filter_def by (cases res) (auto intro!: bind send_all_client then_client)

lemma after_filter_backend: "R s s' \<Longrightarrow> R s (snd (after_filter to_backend res p s'))"
  unfolding after_filter_def by (cases res) (auto intro!: bind send_all_backend then_backend)

lemma client_filter: "R s (snd (apply_client_filter F p s))"
  unfolding apply_client_filter_def by (auto simp: case_prod_beta Let_def intro!: after_filter_backend client_chain)

lemma server_filter: "R s (snd (apply_server_filter F p s))"
  unfolding apply_server_filter_def by (auto simp: case_prod_beta Let_def intro!: after_filter_client server_chain)

lemma client_to_backend: "R s (snd (handle_client_to_backend env f s))"
proof (cases "br_state (ss_client s) = Play")
  case True
  then show ?thesis
    unfolding handle_client_to_backend_def
    by (auto intro!: bind client_filter then_client then_backend split: option.splits)
next
  case False
  let ?s = "snd (to_backend f s)"
  have w: "R s ?s" by (rule backend_write)
  have "R s (snd (case session_decode env f (br_state (ss_client ?s)) Serverbound of
            Inr (Typed _ (ErasedOther SLoginAcknowledged)) \<Rightarrow>
              (let s = set_states Config ?s
               in (Ok (), s\<lparr>ss_client_chain := notify_state_change (se_filters env) Config (ss_client_chain s)\<rparr>))
          | Inr (Typed _ (ErasedOther SAcknowledgeFinishConfig)) \<Rightarrow>
              (let s = set_states Play ?s
               in (Ok (), s\<lparr>ss_client_chain := notify_state_change (se_filters env) Play (ss_client_chain s)\<rparr>))
          | _ \<Rightarrow> (Ok () :: core_error + unit, ?s)))"
    by (auto simp: w Let_def split: sum.splits decoded_packet.splits erased_packet.splits packet_type.splits
        intro!: compose [OF _ client_chain] compose [OF w acknowledged] compose [OF w configured])
  with False w show ?thesis
    unfolding handle_client_to_backend_def by (auto intro!: bind)
qed

lemma forward: "R s s' \<Longrightarrow> R s (snd (sbind (to_client f s') (\<lambda>_ s. (Ok a, s))))"
  by (rule bind) (auto intro: then_client)

lemma backend_to_client: "R s (snd (handle_backend_to_client env f s))"
proof (cases "br_state (ss_backend s) = Play")
  case True
  then show ?thesis
    unfolding handle_backend_to_client_def Let_def
    by (auto intro!: bind [OF server_filter] forward intro: server_filter
        split: option.splits sum.splits decoded_packet.splits erased_packet.splits)
next
  case False
  note cached = forward [OF registry_frame] forward [OF known_packs] forward [OF finalize] forward [OF same]
  have login: "R s (snd (sbind (to_client f s) (\<lambda>_ s. if se_version env < V1_20_2
        then (Ok BackendContinue, set_states Play s\<lparr>ss_server_chain := notify_state_change (se_filters env) Play (ss_server_chain (set_states Play s))\<rparr>)
        else (Ok BackendContinue, s))))"
    if "session_decode env f (br_state (ss_backend s)) Clientbound = Ok (Typed i (ErasedOther CLoginSuccess))" for i
    using that by (auto intro!: bind client_write compose [OF _ server_chain] compose [OF client_write logged_in])
  have compress: "R s (snd (sbind (to_client f (s\<lparr>ss_backend := bridge_set_compression t (ss_backend s), ss_client := bridge_set_compression t (ss_client s)\<rparr>))
      (\<lambda>_ s. (Ok BackendContinue, s\<lparr>ss_server_chain := notify_compression_change (se_filters env) t (ss_server_chain s)\<rparr>))))" for t
    by (auto intro!: bind then_client compose [OF _ server_chain] compression)
  from False show ?thesis
    unfolding handle_backend_to_client_def Let_def
    by (cases "session_decode env f (br_state (ss_backend s)) Clientbound")
      (auto intro!: cached login compress split: decoded_packet.split erased_packet.split packet_type.split)
qed

lemma player_command: "R s (snd (handle_player_command env c s))"
  unfolding handle_player_command_def Let_def
  by (cases c) (auto simp: same intro!: bind forward [OF same] send_all_client client_write split: sum.splits)

lemma step: "R s (snd (loop_step env i s))"
proof -
  have "R s s'" if "handle_client_to_backend env f s = (r, s')" for f r s' using client_to_backend [of s f] that by simp
  moreover have "R s s'" if "handle_backend_to_client env f s = (r, s')" for f r s' using backend_to_client [of s f] that by simp
  moreover have "R s s'" if "handle_player_command env c s = (r, s')" for c r s' using player_command [of s c] that by simp
  ultimately show ?thesis
    by (cases "(env, i, s)" rule: loop_step.cases)
      (auto simp: same split: prod.splits sum.splits backend_action.splits command_result.splits)
qed

lemma run: "R s (snd (proxy_loop env is s))"
proof (induction "is" arbitrary: s)
  case (Cons i "is")
  have "R s (snd (loop_step env i s))" by (rule step)
  then show ?case using Cons by (auto split: prod.splits option.splits intro: compose)
qed (simp add: same)

end

section \<open>Phases of a session\<close>

definition next_phase :: "protocol_version \<Rightarrow> connection_state \<Rightarrow> connection_state \<Rightarrow> bool" where
  "next_phase v a b \<longleftrightarrow>
     (if v < V1_20_2 then a = Login \<and> b = Play else a = Login \<and> b = Config \<or> a = Config \<and> b = Play)"

definition in_step :: "'f session \<Rightarrow> bool" where
  "in_step s \<longleftrightarrow> br_state (ss_client s) = br_state (ss_backend s) \<and> br_threshold (ss_client s) = br_threshold (ss_backend s)"

lemma active_from: "(pid, e) \<in> set (active ms v) \<Longrightarrow> \<exists>m \<in> set ms. mp_id m = pid \<and> mp_from m \<le> v"
  by (induction ms) (auto split: if_splits)

lemma registered:
  assumes "get_packet_id t st d v build_default_registry = Some pid"
  shows "\<exists>r \<in> set default_registrations. pr_packet r = t \<and> pr_state r = st \<and> pr_direction r = d \<and> (\<exists>m \<in> set (pr_mappings r). mp_from m \<le> v)"
proof -
  from assms obtain e where "(t, pid, e) \<in> set (table default_registrations st d v)" using registry_lookup(1) by blast
  then show ?thesis by (fastforce simp: table_def split: if_splits dest: active_from)
qed

fun packet_type_of :: "'c erased_packet \<Rightarrow> packet_type" where
  "packet_type_of (ErasedSetCompression t) = CSetCompression"
| "packet_type_of (ErasedLoginDisconnect reason) = CLoginDisconnect"
| "packet_type_of (ErasedDisconnect reason) = CDisconnect"
| "packet_type_of (ErasedCommands c) = CCommands"
| "packet_type_of (ErasedTabComplete tid s) = STabCompleteRequest"
| "packet_type_of (ErasedOther t) = t"

lemma decode_erased_type: "decode_erased env t r v = Ok p \<Longrightarrow> packet_type_of p = t"
  by (auto simp: decode_erased_def rbind_eq_Ok split: packet_type.splits prod.splits)

lemma decoded_type:
  assumes "session_decode env f st d = Ok (Typed i p)" "se_registry env = build_default_registry"
  shows "get_packet_id (packet_type_of p) st d (se_version env) build_default_registry = Some (frame_id f)"
proof -
  obtain t where "decoder_of st d (se_version env) build_default_registry (frame_id f) = Some t"
    and "decode_erased env t (frame_payload f) (se_version env) = Ok p"
    using assms by (auto simp: session_decode_def decode_frame_alt rbind_eq_Ok split: option.splits)
  then show ?thesis using registry_lookup(2) decode_erased_type by blast
qed

lemma phase_registrations:
  "list_all (\<lambda>r. (pr_packet r = SLoginAcknowledged \<longrightarrow> pr_state r = Login \<and> list_all (\<lambda>m. V1_20_2 \<le> mp_from m) (pr_mappings r)) \<and>
     (pr_packet r = SAcknowledgeFinishConfig \<longrightarrow> pr_state r = Config \<and> list_all (\<lambda>m. V1_20_2 \<le> mp_from m) (pr_mappings r)) \<and>
     (pr_packet r \<in> {CLoginSuccess, CLoginDisconnect, CSetCompression} \<longrightarrow> pr_state r = Login) \<and>
     (pr_packet r = CDisconnect \<longrightarrow> pr_state r = Play)) default_registrations"
  by (simp add: default_registrations_def table_groups)

lemma phase_packets:
  "get_packet_id SLoginAcknowledged st d v build_default_registry = Some pid \<Longrightarrow> st = Login \<and> V1_20_2 \<le> v"
  "get_packet_id SAcknowledgeFinishConfig st d v build_default_registry = Some pid \<Longrightarrow> st = Config \<and> V1_20_2 \<le> v"
  "get_packet_id CLoginSuccess st d v build_default_registry = Some pid \<Longrightarrow> st = Login"
  "get_packet_id CLoginDisconnect st d v build_default_registry = Some pid \<Longrightarrow> st = Login"
  "get_packet_id CSetCompression st d v build_default_registry = Some pid \<Longrightarrow> st = Login"
  "get_packet_id CDisconnect st d v build_default_registry = Some pid \<Longrightarrow> st = Play"
  using phase_registrations by (force simp: list_all_iff dest!: registered)+

lemma set_states_simps [simp]:
  "br_state (ss_client (set_states st s)) = st" "br_state (ss_backend (set_states st s)) = st"
  "br_threshold (ss_client (set_states st s)) = br_threshold (ss_client s)"
  "br_threshold (ss_backend (set_states st s)) = br_threshold (ss_backend s)" "ss_cache (set_states st s) = ss_cache s"
  by (simp_all add: set_states_def)

definition phases :: "('f, 'c, 'h, 'pid) session_env \<Rightarrow> 'f session \<Rightarrow> 'f session \<Rightarrow> bool" where
  "phases env s s' \<longleftrightarrow> (se_registry env = build_default_registry \<and> in_step s \<longrightarrow>
     in_step s' \<and> (next_phase (se_version env))\<^sup>*\<^sup>* (br_state (ss_client s)) (br_state (ss_client s')))"

interpretation session_phases: session_relation env "phases env" for env
proof unfold_locales
  show "phases env s s''" if "phases env s s'" "phases env s' s''" for s s' s''
    using that by (auto simp: phases_def)
  show "phases env s (set_states Config s)"
    if "session_decode env f (br_state (ss_client s)) Serverbound = Ok (Typed i (ErasedOther SLoginAcknowledged))" for f i s
    using decoded_type [OF that] phase_packets(1) by (fastforce simp: phases_def in_step_def next_phase_def)
  show "phases env s (set_states Play s)"
    if "session_decode env f (br_state (ss_client s)) Serverbound = Ok (Typed i (ErasedOther SAcknowledgeFinishConfig))" for f i s
    using decoded_type [OF that] phase_packets(2) by (fastforce simp: phases_def in_step_def next_phase_def)
  show "phases env s (set_states Play s)"
    if "session_decode env f (br_state (ss_backend s)) Clientbound = Ok (Typed i (ErasedOther CLoginSuccess))" "se_version env < V1_20_2" for f i s
    using decoded_type [OF that(1)] phase_packets(3) that(2) by (fastforce simp: phases_def in_step_def next_phase_def)
qed (auto simp: phases_def in_step_def bridge_set_compression_def)

definition captured_kept :: "'f session \<Rightarrow> 'f session \<Rightarrow> bool" where
  "captured_kept s s' \<longleftrightarrow> (\<forall>v e. ss_cache s v = Some e \<and> cap_finalized e \<longrightarrow> ss_cache s' v = Some e)"

interpretation captures: session_relation env captured_kept for env
  by unfold_locales
    (auto simp: captured_kept_def collect_registry_frame_def collect_known_packs_frame_def cache_finalize_def cache_entry_def Let_def
      split: option.splits)

section \<open>Relaying in the play state\<close>

text \<open>
  A session that relays: both sides in the play state, no filters, and writes that do not fail. A frame is transparent when
  it is not of a packet type the loop looks into and no listener is registered for it.
\<close>

definition relaying :: "'f session \<Rightarrow> bool" where
  "relaying s \<longleftrightarrow> br_state (ss_client s) = Play \<and> br_state (ss_backend s) = Play
     \<and> ch_instances (ss_client_chain s) = [] \<and> ch_instances (ss_server_chain s) = []
     \<and> br_fails (ss_client s) = (\<lambda>_ _. None) \<and> br_fails (ss_backend s) = (\<lambda>_ _. None)"

definition unheard :: "('f, 'c, 'h, 'pid) session_env \<Rightarrow> packet_direction \<Rightarrow> packet_frame \<Rightarrow> bool" where
  "unheard env d f \<longleftrightarrow> \<not> has_packet_listeners \<lparr>pk_packet_id = frame_id f, pk_state = Play, pk_direction = d\<rparr> (se_bus env)"

definition play_types :: "direction \<Rightarrow> packet_type list" where
  "play_types d = (case d of Serverbound \<Rightarrow> [SChatSessionUpdate, STabCompleteRequest, SChatCommand, SChatMessage] | Clientbound \<Rightarrow> [CDisconnect, CCommands])"

definition plain :: "('f, 'c, 'h, 'pid) session_env \<Rightarrow> direction \<Rightarrow> packet_frame \<Rightarrow> bool" where
  "plain env d f \<longleftrightarrow> list_all (\<lambda>t. get_packet_id t Play d (se_version env) (se_registry env) \<noteq> Some (frame_id f)) (play_types d)"

fun transparent :: "('f, 'c, 'h, 'pid) session_env \<Rightarrow> session_input \<Rightarrow> bool" where
  "transparent env (FromClient (Inr (Some f))) = (plain env Serverbound f \<and> unheard env PacketServerbound f)"
| "transparent env (FromBackend (Inr (Some f))) = (plain env Clientbound f \<and> unheard env PacketClientbound f)"
| "transparent env (FromPlayer (SendPacket pid data)) = True"
| "transparent env _ = False"

fun for_backend :: "session_input \<Rightarrow> packet_frame list" where
  "for_backend (FromClient (Inr (Some f))) = [f]"
| "for_backend _ = []"

fun for_client :: "session_input \<Rightarrow> packet_frame list" where
  "for_client (FromBackend (Inr (Some f))) = [f]"
| "for_client (FromPlayer (SendPacket pid data)) = [\<lparr>frame_id = pid, frame_payload = data\<rparr>]"
| "for_client _ = []"

definition sent :: "packet_frame list \<Rightarrow> bridge \<Rightarrow> bridge" where
  "sent fs b = b\<lparr>br_sent := br_sent b @ map (Pair (br_threshold b)) fs\<rparr>"

definition delivered :: "packet_frame list \<Rightarrow> packet_frame list \<Rightarrow> 'f session \<Rightarrow> 'f session" where
  "delivered cs bs s = s\<lparr>ss_client := sent cs (ss_client s), ss_backend := sent bs (ss_backend s)\<rparr>"

lemma delivered_twice: "delivered cs' bs' (delivered cs bs s) = delivered (cs @ cs') (bs @ bs') s"
  by (simp add: delivered_def sent_def)

lemma delivered_relaying [simp]: "relaying (delivered cs bs s) = relaying s"
  by (simp add: relaying_def delivered_def sent_def)

lemma relaying_writes:
  assumes "relaying s"
  shows "to_client f s = (Ok (), delivered [f] [] s)" "to_backend f s = (Ok (), delivered [] [f] s)"
  using assms by (simp_all add: relaying_def to_client_def to_backend_def bridge_write_def delivered_def sent_def)

lemma relaying_filters:
  assumes "relaying s"
  shows "apply_client_filter F f s = (Ok (Some f), s)" "apply_server_filter F f s = (Ok (Some f), s)"
  using assms by (simp_all add: relaying_def apply_client_filter_def apply_server_filter_def chain_process_def after_filter_def)

lemma plain_upstream:
  assumes "relaying s" "plain env Serverbound f" "unheard env PacketServerbound f"
  shows "handle_client_to_backend env f s = (Ok (), delivered [] [f] s)"
proof -
  have "tab_response env f = None" "detect_chat_or_command env f = None"
    using assms(2) by (simp_all add: plain_def play_types_def tab_response_def detect_chat_or_command_def)
  moreover from this(2) have "\<not> chat_consumed env f" by (simp add: chat_consumed_def)
  moreover have "raw_event env PacketServerbound f = Some f" using assms(3) by (simp add: raw_event_def unheard_def)
  moreover have "br_state (ss_client s) = Play" using assms(1) by (simp add: relaying_def)
  ultimately show ?thesis using assms
    by (simp add: handle_client_to_backend_def relaying_filters relaying_writes plain_def play_types_def)
qed

lemma plain_not_decoded:
  assumes "plain env Clientbound f" "se_registry env = build_default_registry" "session_decode env f Play Clientbound = Ok (Typed i p)"
  shows "packet_type_of p \<noteq> CDisconnect \<and> packet_type_of p \<noteq> CCommands"
  using decoded_type [OF assms(3,2)] assms(1,2) by (auto simp: plain_def play_types_def)

lemma plain_downstream:
  assumes "relaying s" "plain env Clientbound f" "unheard env PacketClientbound f" "se_registry env = build_default_registry"
  shows "handle_backend_to_client env f s = (Ok BackendContinue, delivered [f] [] s)"
proof -
  have "raw_event env PacketClientbound f = Some f" using assms(3) by (simp add: raw_event_def unheard_def)
  moreover have "br_state (ss_backend s) = Play" using assms(1) by (simp add: relaying_def)
  ultimately show ?thesis using assms plain_not_decoded [OF assms(2,4)]
    by (force simp: handle_backend_to_client_def Let_def relaying_filters relaying_writes
        split: sum.split decoded_packet.split erased_packet.split)
qed

lemma transparent_step:
  assumes "relaying s" "transparent env i" "se_registry env = build_default_registry"
  shows "loop_step env i s = (None, delivered (for_client i) (for_backend i) s)"
  using assms
  by (cases "(env, i)" rule: transparent.cases)
    (simp_all add: plain_upstream plain_downstream handle_player_command_def relaying_writes)

text \<open>C16. In the play state, without filters and while no write fails, the loop is transparent to every
  frame that it does not look into and no listener waits for: whatever the interleaving of the two directions and of the
  packets plugins send, it goes on, the backend gets exactly the frames of the client and the client exactly the frames of
  the backend and of the plugins, unchanged, in order, each in the compression in force.\<close>

theorem relay_transparent:
  assumes "relaying s" and "list_all (transparent env) is" and "se_registry env = build_default_registry"
  shows "proxy_loop env is s = (None, delivered (concat (map for_client is)) (concat (map for_backend is)) s)"
  using assms(1,2)
proof (induction "is" arbitrary: s)
  case Nil
  then show ?case by (simp add: delivered_def sent_def)
next
  case (Cons i "is")
  then show ?case by (simp add: transparent_step assms(3) delivered_twice)
qed


section \<open>What is captured of a configuration\<close>

definition known_packs_frame :: "('f, 'c, 'h, 'pid) session_env \<Rightarrow> packet_frame \<Rightarrow> bool" where
  "known_packs_frame env f \<longleftrightarrow> get_packet_id CKnownPacks Config Clientbound (se_version env) (se_registry env) = Some (frame_id f)"

text \<open>The frames of a configuration that are neither its end nor broken.\<close>

definition config_frame :: "('f, 'c, 'h, 'pid) session_env \<Rightarrow> packet_frame \<Rightarrow> bool" where
  "config_frame env f \<longleftrightarrow> get_packet_id CFinishConfig Config Clientbound (se_version env) (se_registry env) \<noteq> Some (frame_id f)
     \<and> (\<exists>p. session_decode env f Config Clientbound = Ok p)"

definition configuring :: "'f session \<Rightarrow> bool" where
  "configuring s \<longleftrightarrow> br_state (ss_backend s) = Config \<and> br_fails (ss_client s) = (\<lambda>_ _. None)"

definition capture :: "('f, 'c, 'h, 'pid) session_env \<Rightarrow> packet_frame \<Rightarrow> registry_cache \<Rightarrow> registry_cache" where
  "capture env f = (if known_packs_frame env f then collect_known_packs_frame (se_version env) f else collect_registry_frame (se_version env) f)"

lemma config_step:
  assumes "configuring s" "config_frame env f" "se_registry env = build_default_registry"
  shows "handle_backend_to_client env f s = (Ok BackendContinue, delivered [f] [] (s\<lparr>ss_cache := capture env f (ss_cache s)\<rparr>))"
proof -
  have w: "to_client f s' = (Ok (), delivered [f] [] s')" if "br_fails (ss_client s') = (\<lambda>_ _. None)" for s' :: "'a session"
    using that by (simp add: to_client_def bridge_write_def delivered_def sent_def)
  have st: "br_state (ss_backend s) = Config" "br_fails (ss_client s) = (\<lambda>_ _. None)" using assms(1) by (simp_all add: configuring_def)
  obtain q where q: "session_decode env f Config Clientbound = Ok q" using assms(2) by (auto simp: config_frame_def)
  show ?thesis
  proof (cases q)
    case (Typed i p)
    have g: "get_packet_id (packet_type_of p) Config Clientbound (se_version env) build_default_registry = Some (frame_id f)"
      using decoded_type q assms(3) unfolding Typed by blast
    then have "packet_type_of p \<noteq> CFinishConfig" using assms(2,3) by (auto simp: config_frame_def)
    moreover have "packet_type_of p \<notin> {CLoginSuccess, CLoginDisconnect, CSetCompression, CDisconnect}"
      using phase_packets(3-6) [of Config Clientbound "se_version env" "frame_id f"] g by auto
    ultimately show ?thesis using q st assms(3) unfolding Typed
      by (cases p) (auto simp: handle_backend_to_client_def Let_def w capture_def known_packs_frame_def split: packet_type.split)
  next
    case (Opaque i bs)
    have "\<not> known_packs_frame env f"
    proof
      assume "known_packs_frame env f"
      then have "decoder_of Config Clientbound (se_version env) build_default_registry (frame_id f) = Some CKnownPacks"
        using assms(3) registry_lookup(2) by (simp add: known_packs_frame_def intercepted_def default_registrations_def table_groups)
      with q Opaque assms(3) show False by (auto simp: session_decode_def decode_frame_alt rbind_eq_Ok)
    qed
    then show ?thesis using q st unfolding Opaque by (simp add: handle_backend_to_client_def w capture_def)
  qed
qed

abbreviation from_backend :: "packet_frame \<Rightarrow> session_input" where
  "from_backend f \<equiv> FromBackend (Ok (Some f))"

lemma config_run:
  assumes "configuring s" "list_all (config_frame env) fs" "se_registry env = build_default_registry"
  shows "proxy_loop env (map from_backend fs @ is) s = proxy_loop env is (delivered fs [] (s\<lparr>ss_cache := fold (capture env) fs (ss_cache s)\<rparr>))"
  using assms(1,2)
proof (induction fs arbitrary: s)
  case Nil
  then show ?case by (simp add: delivered_def sent_def)
next
  case (Cons f fs)
  have "configuring (delivered [f] [] (s\<lparr>ss_cache := capture env f (ss_cache s)\<rparr>))"
    using Cons.prems(1) by (simp add: configuring_def delivered_def sent_def)
  with Cons show ?case by (simp add: config_step assms(3)) (simp add: delivered_def sent_def)
qed

lemma fold_capture:
  assumes "\<not> cap_finalized (cache_entry (se_version env) c)"
  shows "cache_entry (se_version env) (fold (capture env) fs c) =
      (let e = cache_entry (se_version env) c; known = filter (known_packs_frame env) fs
       in e\<lparr>cap_registry := cap_registry e @ filter (\<lambda>f. \<not> known_packs_frame env f) fs,
            cap_known_packs := if known = [] then cap_known_packs e else Some (last known)\<rparr>)
    \<and> (fs \<noteq> [] \<longrightarrow> se_version env \<in> dom (fold (capture env) fs c))"
  using assms
proof (induction fs arbitrary: c)
  case (Cons f fs)
  have "cache_entry (se_version env) (capture env f c) = (let e = cache_entry (se_version env) c in
      if known_packs_frame env f then e\<lparr>cap_known_packs := Some f\<rparr> else e\<lparr>cap_registry := cap_registry e @ [f]\<rparr>)"
    "se_version env \<in> dom (capture env f c)"
    using Cons.prems by (simp_all add: capture_def collect_registry_frame_def collect_known_packs_frame_def cache_entry_def Let_def)
  with Cons.IH [of "capture env f c"] Cons.prems show ?case by (cases fs) (simp_all add: Let_def)
qed simp

lemma finish_step:
  assumes "configuring s" "get_packet_id CFinishConfig Config Clientbound (se_version env) build_default_registry = Some (frame_id f)"
    "se_registry env = build_default_registry"
  shows "handle_backend_to_client env f s =
    (Ok BackendContinue, delivered [f] [] (s\<lparr>ss_cache := cache_finalize (se_version env) (ss_cache s)\<rparr>))"
proof -
  have "CFinishConfig \<in> set intercepted" by (simp add: intercepted_def default_registrations_def table_groups)
  with assms(2) have "decoder_of Config Clientbound (se_version env) build_default_registry (frame_id f) = Some CFinishConfig"
    using registry_lookup(2) by blast
  then have "session_decode env f Config Clientbound = Ok (Typed (frame_id f) (ErasedOther CFinishConfig))"
    using assms(3) by (simp add: session_decode_def decode_frame_alt decode_erased_def)
  then show ?thesis using assms(1)
    by (simp add: handle_backend_to_client_def configuring_def to_client_def bridge_write_def delivered_def sent_def)
qed


section \<open>Behaviours worth knowing\<close>

text \<open>The packet that announces the compression reaches the client already in the compressed format.\<close>

lemma set_compression_compressed:
  assumes "session_decode env f Login Clientbound = Ok (Typed i (ErasedSetCompression t))" "br_state (ss_backend s) = Login"
    "br_fails (ss_client s) = (\<lambda>_ _. None)"
  shows "br_sent (ss_client (snd (handle_backend_to_client env f s))) = br_sent (ss_client s) @ [(Some t, f)]"
  using assms by (simp add: handle_backend_to_client_def to_client_def bridge_write_def bridge_set_compression_def Let_def)

text \<open>A disconnect during the configuration is not recognised: the loop goes on and the packet is captured with the registry data.\<close>

lemma config_disconnect_captured:
  assumes "configuring s" "se_registry env = build_default_registry" "ss_cache s (se_version env) = None"
    "get_packet_id CConfigDisconnect Config Clientbound (se_version env) build_default_registry = Some (frame_id f)"
    "session_decode env f Config Clientbound = Ok p"
  shows "\<exists>s'. loop_step env (from_backend f) s = (None, s') \<and>
    ss_cache s' (se_version env) = Some \<lparr>cap_registry = [f], cap_known_packs = None, cap_finalized = False\<rparr>"
proof -
  have other: "get_packet_id t Config Clientbound (se_version env) build_default_registry \<noteq> Some (frame_id f)"
    if "t \<noteq> CConfigDisconnect" "t \<noteq> CChatMessageLegacy" for t
    using shared_id [of t "frame_id f" _ Config Clientbound "se_version env" CConfigDisconnect] registry_lookup(1) assms(4) that
    by (metis packet_type.distinct)
  have "config_frame env f" "\<not> known_packs_frame env f"
    using assms(2,5) other [of CFinishConfig] other [of CKnownPacks] by (auto simp: config_frame_def known_packs_frame_def)
  then show ?thesis using config_step [OF assms(1) _ assms(2), of f] assms(3)
    by (simp add: capture_def collect_registry_frame_def cache_entry_def delivered_def)
qed

text \<open>A completion that cannot be written to a client that has gone is taken for a disconnect of the backend.\<close>

lemma completion_failure_blames_backend:
  assumes "br_state (ss_client s) = Play" "ch_instances (ss_client_chain s) = []" "tab_response env f = Some reply"
    "get_packet_id SChatSessionUpdate Play Serverbound (se_version env) (se_registry env) \<noteq> Some (frame_id f)"
    "br_fails (ss_client s) = (\<lambda>_ _. Some (IoError BrokenPipe))"
  shows "fst (loop_step env (FromClient (Ok (Some f))) s) = Some (BackendGone (Some (''io error: '' @ se_io_text env BrokenPipe)))"
  using assms
  by (simp add: handle_client_to_backend_def apply_client_filter_def chain_process_def after_filter_def to_client_def bridge_write_def
      is_expected_disconnect_def core_error_display_def)

text \<open>When the backend disconnects the client, the disconnect is the last packet the client has got.\<close>

lemma disconnect_forwarded:
  assumes "handle_backend_to_client env f s = (Ok (BackendDisconnected reason), s')"
  shows "\<exists>b t f' i p. br_sent (ss_client s') = b @ [(t, f')] \<and> session_decode env f' (br_state (ss_backend s)) Clientbound = Ok (Typed i p)
    \<and> packet_type_of p \<in> {CDisconnect, CLoginDisconnect}"
proof -
  have w: "\<exists>b t. br_sent (ss_client s1) = b @ [(t, g)]" if "to_client g s0 = (Ok u, s1)" for g u s0 and s1 :: "'a session"
    using that by (auto simp: to_client_def bridge_write_def split: option.splits)
  have b: "\<exists>a s1. m = (Ok a, s1) \<and> k a s1 = (Ok r, s2)" if "sbind m k = (Ok r, s2)" for m :: "(core_error + 'x) \<times> 'a session" and k r s2
    using that by (auto simp: sbind_def split: prod.splits sum.splits)
  from assms show ?thesis
    unfolding handle_backend_to_client_def Let_def
    by (auto dest!: b w split: if_splits option.splits sum.splits decoded_packet.splits erased_packet.splits packet_type.splits; fastforce)
qed

section \<open>Witnesses\<close>

definition relay_sample_env :: "(unit, unit, unit, nat) session_env" where
  "relay_sample_env = \<lparr>se_version = V1_20_2, se_registry = build_default_registry,
     se_filters = \<lparr>cf_filter = (\<lambda>_ i p out. (i, p, out, VerdictPass)), cf_on_state_change = (\<lambda>_ i. i), cf_on_compression_change = (\<lambda>_ i. i)\<rparr>,
     se_bus = bus_new, se_commands = command_manager_new, se_lower = id, se_player = 7, se_complete = (\<lambda>_ _ _. []),
     se_uuid = \<lparr>uuid_to_string = (\<lambda>_. []), uuid_as_simple = (\<lambda>_. []), uuid_parse_str = (\<lambda>_. Inr 0)\<rparr>,
     se_others = (\<lambda>_ _ _. Ok ()), se_decode_commands = (\<lambda>_ _. Ok ()), se_inject = id, se_encode_commands = (\<lambda>_ _. Ok []),
     se_announce = True, se_lossy = (\<lambda>_. []), se_io_text = (\<lambda>_. []), se_config_text = (\<lambda>_. [])\<rparr>"

definition relay_sample_bridge :: "connection_state \<Rightarrow> bridge" where
  "relay_sample_bridge st = \<lparr>br_state = st, br_threshold = None, br_sent = [], br_fails = (\<lambda>_ _. None)\<rparr>"

definition relay_sample_session :: "connection_state \<Rightarrow> unit session" where
  "relay_sample_session st = \<lparr>ss_client = relay_sample_bridge st, ss_backend = relay_sample_bridge st,
     ss_client_chain = fst (build_codec_chains (\<lambda>_. []) V1_20_2), ss_server_chain = snd (build_codec_chains (\<lambda>_. []) V1_20_2),
     ss_cache = Map.empty\<rparr>"

lemma relay_sample_fields [simp]: "se_version relay_sample_env = V1_20_2" "se_registry relay_sample_env = build_default_registry"
  by (simp_all add: relay_sample_env_def)

lemma relay_sample_types:
  "get_packet_id t Play Serverbound V1_20_2 build_default_registry = Some 0x14 \<Longrightarrow> t = SKeepAlive"
  "get_packet_id t Play Clientbound V1_20_2 build_default_registry = Some 0x24 \<Longrightarrow> t = CKeepAlive"
  "get_packet_id t Config Clientbound V1_20_2 build_default_registry = Some 0x05 \<Longrightarrow> t = CRegistryData"
  "get_packet_id CFinishConfig Config Clientbound V1_20_2 build_default_registry = Some 0x02"
  "get_packet_id SLoginAcknowledged Login Serverbound V1_20_2 build_default_registry = Some 0x03"
  unfolding registry_lookup by (auto simp: table_def default_registrations_def table_groups range_end_def SUPPORTED_def)

abbreviation relay_sample_run :: "session_input list" where
  "relay_sample_run \<equiv> [FromClient (Ok (Some \<lparr>frame_id = 0x14, frame_payload = [1]\<rparr>)), FromPlayer (SendPacket 0x33 [7]),
     FromBackend (Ok (Some \<lparr>frame_id = 0x24, frame_payload = [2]\<rparr>)), FromClient (Ok (Some \<lparr>frame_id = 0x14, frame_payload = [3]\<rparr>))]"

theorem relay_transparent_witness:
  "proxy_loop relay_sample_env relay_sample_run (relay_sample_session Play) =
     (None, delivered [\<lparr>frame_id = 0x33, frame_payload = [7]\<rparr>, \<lparr>frame_id = 0x24, frame_payload = [2]\<rparr>]
        [\<lparr>frame_id = 0x14, frame_payload = [1]\<rparr>, \<lparr>frame_id = 0x14, frame_payload = [3]\<rparr>] (relay_sample_session Play))"
proof -
  have "list_all (transparent relay_sample_env) relay_sample_run"
    using relay_sample_types(1) [of SChatSessionUpdate] relay_sample_types(1) [of STabCompleteRequest] relay_sample_types(1) [of SChatCommand]
      relay_sample_types(1) [of SChatMessage] relay_sample_types(2) [of CDisconnect] relay_sample_types(2) [of CCommands]
    by (auto simp: plain_def play_types_def unheard_def has_packet_listeners_def relay_sample_env_def bus_new_def)
  moreover have "relaying (relay_sample_session Play)"
    by (simp add: relaying_def relay_sample_session_def relay_sample_bridge_def build_codec_chains_def)
  ultimately show ?thesis using relay_transparent [of "relay_sample_session Play" relay_sample_env relay_sample_run] by simp
qed



end
