(* ===== verification/Limbo.thy ===== *)
theory Limbo
  imports ProxyLoop Ordering
begin

text \<open>
  Limbo, the place where the proxy itself keeps a player: \<open>limbo/handler_chain.rs\<close>, \<open>limbo/keepalive.rs\<close>,
  \<open>limbo/chat.rs\<close>, \<open>limbo/session.rs\<close>, \<open>limbo/engine.rs\<close>, \<open>limbo/registry.rs\<close> and the reading side of
  \<open>limbo/registry_cache.rs\<close>.

  What plugins do with a session they hold, at whatever moment, are requests among the inputs of the hold loop; the
  handlers' answers, the packets of the spawn sequence and the readings of clock and random generator are parameters.
\<close>

section \<open>Keep alive\<close>

definition decode_keepalive_id :: "bytes \<Rightarrow> protocol_version \<Rightarrow> protocol_error + (i64 \<times> bytes)" where
  "decode_keepalive_id r v =
     (if v \<ge> V1_12_2 then read_be 8 r
      else if v \<ge> V1_8 then dbind (read_varint_from_reader r) (\<lambda>i r. Ok (scast (i :: i32), r))
      else dbind (read_be 4 r) (\<lambda>i r. Ok (scast (i :: i32), r)))"

definition encode_keepalive_id :: "i64 \<Rightarrow> protocol_version \<Rightarrow> protocol_error + bytes" where
  "encode_keepalive_id i v =
     (if v \<ge> V1_12_2 then write_be 8 i
      else if v \<ge> V1_8 then write_var_int (ucast i)
      else write_be 4 (ucast i :: i32))"

record keepalive_state =
  ka_last_id :: i64
  ka_last_at :: nat
  ka_awaiting :: bool

datatype keepalive_tick = TickSend packet_frame | TickIdle | TickTimeout

definition KEEPALIVE_TIMEOUT :: nat where
  "KEEPALIVE_TIMEOUT = 15000"

definition keepalive_new :: "nat \<Rightarrow> keepalive_state" where
  "keepalive_new now = \<lparr>ka_last_id = 0, ka_last_at = now, ka_awaiting = False\<rparr>"

text \<open>Times in milliseconds; a random number and the milliseconds since the epoch are arguments.\<close>

definition keepalive_id :: "protocol_version \<Rightarrow> i32 \<Rightarrow> i64 \<Rightarrow> i64" where
  "keepalive_id v random millis = (if v < V1_12_2 then scast random else millis)"

definition tick ::
  "packet_builder \<Rightarrow> protocol_version \<Rightarrow> nat \<Rightarrow> i32 \<Rightarrow> i64 \<Rightarrow> keepalive_state \<Rightarrow> (core_error + keepalive_tick) \<times> keepalive_state" where
  "tick reg v now random millis ka =
     (if ka_awaiting ka
      then (Ok (if KEEPALIVE_TIMEOUT \<le> now - ka_last_at ka then TickTimeout else TickIdle), ka)
      else let i = keepalive_id v random millis;
               ka = \<lparr>ka_last_id = i, ka_last_at = now, ka_awaiting = True\<rparr>
           in (rbind (encode_packet reg CKeepAlive ''CKeepAlive'' (encode_keepalive_id i) v) (\<lambda>f. Ok (TickSend f)), ka))"

definition on_response :: "i64 \<Rightarrow> keepalive_state \<Rightarrow> bool \<times> keepalive_state" where
  "on_response i ka = (if i = ka_last_id ka then (True, ka\<lparr>ka_awaiting := False\<rparr>) else (False, ka))"

definition is_keepalive_response :: "('f, 'c, 'h, 'pid) session_env \<Rightarrow> packet_frame \<Rightarrow> bool" where
  "is_keepalive_response env f \<longleftrightarrow> get_packet_id SKeepAlive Play Serverbound (se_version env) (se_registry env) = Some (frame_id f)"

definition extract_keepalive_id :: "packet_frame \<Rightarrow> protocol_version \<Rightarrow> i64 option" where
  "extract_keepalive_id f v = (case decode_keepalive_id (frame_payload f) v of Inr (i, _) \<Rightarrow> Some i | Inl _ \<Rightarrow> None)"

section \<open>Messages of the client\<close>

datatype client_message = MessageCommand string "string list" | MessageChat string

definition parse_client_message :: "('f, 'c, 'h, 'pid) session_env \<Rightarrow> packet_frame \<Rightarrow> client_message option" where
  "parse_client_message env f =
     (case detect_chat_or_command env f of
        None \<Rightarrow> None
      | Some (ChatCommand input) \<Rightarrow>
          Some (case split_once (CHR '' '') input of
                  Some (name, rest) \<Rightarrow> MessageCommand name (split_whitespace rest)
                | None \<Rightarrow> MessageCommand input [])
      | Some (ChatText m) \<Rightarrow> Some (MessageChat m))"

section \<open>Handlers and their results\<close>

datatype handler_result =
    Accept | Deny component | Hold | Redirect string | ToLimbo "string list" | HoldWithTimeout duration handler_result

datatype limbo_chain_result =
    LimboCompleted | LimboSwitch string | LimboKick component | LimboClientDisconnected | LimboShutdown | LimboTimeout
  | LimboSendTo "string list"

datatype handler_action = ActContinue | ActExit limbo_chain_result | ActHold "(duration \<times> handler_result) option"

definition process_handler_result :: "handler_result \<Rightarrow> handler_action" where
  "process_handler_result r =
     (case r of
        Accept \<Rightarrow> ActContinue
      | Deny reason \<Rightarrow> ActExit (LimboKick reason)
      | Redirect server \<Rightarrow> ActExit (LimboSwitch server)
      | ToLimbo handlers \<Rightarrow> ActExit (LimboSendTo handlers)
      | Hold \<Rightarrow> ActHold None
      | HoldWithTimeout d on_timeout \<Rightarrow>
          ActHold (Some (d, case on_timeout of Hold \<Rightarrow> Accept | HoldWithTimeout _ _ \<Rightarrow> Accept | other \<Rightarrow> other)))"

datatype session_end_reason = EndDisconnected | EndReleased | EndKicked | EndRedirected | EndTimedOut | EndShutdown

section \<open>The session\<close>

datatype 'l limbo_call =
    OnEnter 'l | OnCommand 'l string "string list" | OnChat 'l string | OnDisconnect 'l | OnSessionEnd 'l session_end_reason
  | Dispatched string

text \<open>
  The watch channel of the completion is its last value and whether the receiver has yet to see it; the queue of outgoing
  frames is bounded.
\<close>

record 'l limbo =
  li_hold_seq :: u64
  li_completion :: "handler_result option"
  li_unread :: bool
  li_outgoing :: "packet_frame list"
  li_keepalive :: keepalive_state
  li_client :: bridge
  li_calls :: "'l limbo_call list"

text \<open>What a plugin can ask of a session.\<close>

datatype limbo_request =
    Complete handler_result | CompleteScoped u64 handler_result | RequestMessage component | RequestTitle title_data
  | RequestActionBar component

record ('f, 'c, 'h, 'pid, 'l) limbo_env =
  le_session :: "('f, 'c, 'h, 'pid) session_env"
  le_enter :: "'l \<Rightarrow> 'l limbo \<Rightarrow> limbo_request list \<times> handler_result"
  le_spawn :: "bool \<Rightarrow> bridge \<Rightarrow> (core_error + unit) \<times> bridge"
  le_full :: string

definition OUTGOING_CHANNEL_SIZE :: nat where
  "OUTGOING_CHANNEL_SIZE = 64"

definition begin_handler :: "'l limbo \<Rightarrow> 'l limbo" where
  "begin_handler s = s\<lparr>li_hold_seq := li_hold_seq s + 1\<rparr>"

definition complete_scoped :: "u64 \<Rightarrow> handler_result \<Rightarrow> 'l limbo \<Rightarrow> 'l limbo" where
  "complete_scoped hold_id r s = (if hold_id = li_hold_seq s then s\<lparr>li_completion := Some r, li_unread := True\<rparr> else s)"

definition complete_hold :: "handler_result \<Rightarrow> 'l limbo \<Rightarrow> 'l limbo" where
  "complete_hold r s = complete_scoped (li_hold_seq s) r s"

definition try_send :: "string \<Rightarrow> packet_frame \<Rightarrow> 'l limbo \<Rightarrow> (player_error + unit) \<times> 'l limbo" where
  "try_send full f s =
     (if length (li_outgoing s) < OUTGOING_CHANNEL_SIZE then (Ok (), s\<lparr>li_outgoing := li_outgoing s @ [f]\<rparr>)
      else (Err (SendFailed full), s))"

fun try_send_all :: "string \<Rightarrow> packet_frame list \<Rightarrow> 'l limbo \<Rightarrow> (player_error + unit) \<times> 'l limbo" where
  "try_send_all full [] s = (Ok (), s)"
| "try_send_all full (f # fs) s =
     (case try_send full f s of (Inl e, s) \<Rightarrow> (Err e, s) | (Inr _, s) \<Rightarrow> try_send_all full fs s)"

definition send_built ::
  "('f, 'c, 'h, 'pid, 'l) limbo_env \<Rightarrow> core_error + packet_frame list \<Rightarrow> 'l limbo \<Rightarrow> (player_error + unit) \<times> 'l limbo" where
  "send_built env built s =
     (case built of
        Inl e \<Rightarrow> (Err (SendFailed (core_error_display (se_io_text (le_session env)) (se_config_text (le_session env)) e)), s)
      | Inr fs \<Rightarrow> try_send_all (le_full env) fs s)"

definition limbo_builder :: "('f, 'c, 'h, 'pid, 'l) limbo_env \<Rightarrow> packet_builder" where
  "limbo_builder env = (se_io_text (le_session env), se_registry (le_session env))"

definition send_message :: "('f, 'c, 'h, 'pid, 'l) limbo_env \<Rightarrow> component \<Rightarrow> 'l limbo \<Rightarrow> (player_error + unit) \<times> 'l limbo" where
  "send_message env m = send_built env (rmap (\<lambda>f. [f]) (build_system_chat_message (limbo_builder env) m (se_version (le_session env))))"

definition send_title :: "('f, 'c, 'h, 'pid, 'l) limbo_env \<Rightarrow> title_data \<Rightarrow> 'l limbo \<Rightarrow> (player_error + unit) \<times> 'l limbo" where
  "send_title env t = send_built env (build_title_packets (limbo_builder env) t (se_version (le_session env)))"

definition send_action_bar :: "('f, 'c, 'h, 'pid, 'l) limbo_env \<Rightarrow> component \<Rightarrow> 'l limbo \<Rightarrow> (player_error + unit) \<times> 'l limbo" where
  "send_action_bar env m = send_built env (rmap (\<lambda>f. [f]) (build_action_bar (limbo_builder env) m (se_version (le_session env))))"

definition limbo_perform :: "('f, 'c, 'h, 'pid, 'l) limbo_env \<Rightarrow> limbo_request \<Rightarrow> 'l limbo \<Rightarrow> 'l limbo" where
  "limbo_perform env rq s =
     (case rq of
        Complete r \<Rightarrow> complete_hold r s
      | CompleteScoped hold_id r \<Rightarrow> complete_scoped hold_id r s
      | RequestMessage m \<Rightarrow> snd (send_message env m s)
      | RequestTitle t \<Rightarrow> snd (send_title env t s)
      | RequestActionBar m \<Rightarrow> snd (send_action_bar env m s))"

definition call :: "'l limbo_call \<Rightarrow> 'l limbo \<Rightarrow> 'l limbo" where
  "call c s = s\<lparr>li_calls := li_calls s @ [c]\<rparr>"

section \<open>The hold loop\<close>

text \<open>What its \<open>select!\<close> takes, in order, and what plugins ask meanwhile.\<close>

datatype limbo_input =
    LimboFrame "core_error + packet_frame option" | LimboOutgoing | LimboTick nat i32 i64 | LimboCompletion | LimboCancelled
  | LimboDeadline | LimboRequest limbo_request

definition limbo_write :: "packet_frame \<Rightarrow> 'l limbo \<Rightarrow> handler_action option \<times> 'l limbo" where
  "limbo_write f s =
     (let (r, b) = bridge_write f (li_client s)
      in (case r of Inl _ \<Rightarrow> Some (ActExit LimboClientDisconnected) | Inr _ \<Rightarrow> None, s\<lparr>li_client := b\<rparr>))"

definition client_frame :: "('f, 'c, 'h, 'pid, 'l) limbo_env \<Rightarrow> 'l \<Rightarrow> packet_frame \<Rightarrow> 'l limbo \<Rightarrow> 'l limbo" where
  "client_frame env h f s =
     (let se = le_session env
      in if is_keepalive_response se f
         then (case extract_keepalive_id f (se_version se) of
                 Some i \<Rightarrow> s\<lparr>li_keepalive := snd (on_response i (li_keepalive s))\<rparr>
               | None \<Rightarrow> s)
         else case parse_client_message se f of
                None \<Rightarrow> s
              | Some (MessageCommand name args) \<Rightarrow>
                  (let input = (if args = [] then name else name @ '' '' @ join '' '' args)
                   in if dispatch (se_lower se) (Some (se_player se)) input (se_commands se) \<noteq> None
                      then call (Dispatched input) s
                      else call (OnCommand h name args) s)
              | Some (MessageChat m) \<Rightarrow> call (OnChat h m) s)"

fun hold_step ::
  "('f, 'c, 'h, 'pid, 'l) limbo_env \<Rightarrow> 'l \<Rightarrow> handler_result option \<Rightarrow> limbo_input \<Rightarrow> 'l limbo \<Rightarrow> handler_action option \<times> 'l limbo" where
  "hold_step env h on_timeout (LimboFrame (Inr (Some f))) s = (None, client_frame env h f s)"
| "hold_step env h on_timeout (LimboFrame _) s = (Some (ActExit LimboClientDisconnected), s)"
| "hold_step env h on_timeout LimboOutgoing s =
     (case li_outgoing s of [] \<Rightarrow> (None, s) | f # fs \<Rightarrow> limbo_write f (s\<lparr>li_outgoing := fs\<rparr>))"
| "hold_step env h on_timeout (LimboTick now random millis) s =
     (let (r, ka) = tick (limbo_builder env) (se_version (le_session env)) now random millis (li_keepalive s);
          s = s\<lparr>li_keepalive := ka\<rparr>
      in case r of
           Inr (TickSend f) \<Rightarrow> limbo_write f s
         | Inr TickIdle \<Rightarrow> (None, s)
         | Inr TickTimeout \<Rightarrow> (Some (ActExit LimboTimeout), s)
         | Inl _ \<Rightarrow> (Some (ActExit LimboTimeout), s))"
| "hold_step env h on_timeout LimboCompletion s =
     (if li_unread s
      then (map_option process_handler_result (li_completion s), s\<lparr>li_unread := False\<rparr>)
      else (None, s))"
| "hold_step env h on_timeout LimboCancelled s = (Some (ActExit LimboShutdown), s)"
| "hold_step env h on_timeout LimboDeadline s = (map_option process_handler_result on_timeout, s)"
| "hold_step env h on_timeout (LimboRequest rq) s = (None, limbo_perform env rq s)"

fun wait_for_hold ::
  "('f, 'c, 'h, 'pid, 'l) limbo_env \<Rightarrow> 'l \<Rightarrow> handler_result option \<Rightarrow> limbo_input list \<Rightarrow> 'l limbo \<Rightarrow>
   handler_action option \<times> 'l limbo \<times> limbo_input list" where
  "wait_for_hold env h on_timeout [] s = (None, s, [])"
| "wait_for_hold env h on_timeout (i # is) s =
     (case hold_step env h on_timeout i s of
        (Some a, s) \<Rightarrow> (Some a, s, is)
      | (None, s) \<Rightarrow> wait_for_hold env h on_timeout is s)"

section \<open>The chain\<close>

datatype chain_end = ChainEnded limbo_chain_result | ChainPanicked | ChainHeld

fun run_handler_chain ::
  "('f, 'c, 'h, 'pid, 'l) limbo_env \<Rightarrow> bool \<Rightarrow> 'l list \<Rightarrow> bool \<Rightarrow> limbo_input list \<Rightarrow> 'l limbo \<Rightarrow> chain_end \<times> 'l limbo" where
  "run_handler_chain env needs_join_game [] spawn_sent is s = (ChainEnded LimboCompleted, s)"
| "run_handler_chain env needs_join_game (h # hs) spawn_sent is s =
     (let s = call (OnEnter h) (begin_handler s);
          (requests, result) = le_enter env h s;
          s = fold (limbo_perform env) requests s
      in case process_handler_result result of
           ActContinue \<Rightarrow> run_handler_chain env needs_join_game hs spawn_sent is s
         | ActExit r \<Rightarrow> (ChainEnded r, s)
         | ActHold timeout \<Rightarrow>
             (let (spawned, b) = (if spawn_sent then (Ok (), li_client s) else le_spawn env needs_join_game (li_client s));
                  s = s\<lparr>li_client := b\<rparr>
              in case spawned of
                   Inl _ \<Rightarrow> (ChainEnded (LimboKick (component_text ''Internal error'')), s)
                 | Inr _ \<Rightarrow>
                     (case wait_for_hold env h (map_option snd timeout) is s of
                        (None, s, _) \<Rightarrow> (ChainHeld, s)
                      | (Some ActContinue, s, is) \<Rightarrow> run_handler_chain env needs_join_game hs True is s
                      | (Some (ActExit r), s, _) \<Rightarrow> (ChainEnded r, s)
                      | (Some (ActHold _), s, _) \<Rightarrow> (ChainPanicked, s))))"

datatype limbo_exit_result =
    ExitCompleted | ExitSwitchedTo string | ExitKicked | ExitClientDisconnected | ExitShutdown | ExitTimeout | ExitSendTo "string list"

definition end_reason :: "limbo_chain_result \<Rightarrow> session_end_reason option" where
  "end_reason r =
     (case r of
        LimboCompleted \<Rightarrow> Some EndReleased
      | LimboSwitch _ \<Rightarrow> Some EndRedirected
      | LimboKick _ \<Rightarrow> Some EndKicked
      | LimboClientDisconnected \<Rightarrow> Some EndDisconnected
      | LimboShutdown \<Rightarrow> Some EndShutdown
      | LimboTimeout \<Rightarrow> Some EndTimedOut
      | LimboSendTo _ \<Rightarrow> None)"

definition send_disconnect :: "('f, 'c, 'h, 'pid, 'l) limbo_env \<Rightarrow> component \<Rightarrow> 'l limbo \<Rightarrow> 'l limbo" where
  "send_disconnect env reason s =
     (case build_disconnect (limbo_builder env) reason (se_version (le_session env)) of
        Inl _ \<Rightarrow> s
      | Inr f \<Rightarrow> s\<lparr>li_client := snd (bridge_write f (li_client s))\<rparr>)"

definition map_chain_result ::
  "('f, 'c, 'h, 'pid, 'l) limbo_env \<Rightarrow> limbo_chain_result \<Rightarrow> 'l list \<Rightarrow> 'l limbo \<Rightarrow> limbo_exit_result \<times> 'l limbo" where
  "map_chain_result env r handlers s =
     (let s = (case end_reason r of
                 Some reason \<Rightarrow> fold (\<lambda>h. call (OnSessionEnd h reason)) handlers s
               | None \<Rightarrow> s)
      in case r of
           LimboCompleted \<Rightarrow> (ExitCompleted, s)
         | LimboSwitch server \<Rightarrow> (ExitSwitchedTo server, s)
         | LimboKick reason \<Rightarrow> (ExitKicked, send_disconnect env reason s)
         | LimboClientDisconnected \<Rightarrow> (ExitClientDisconnected, fold (\<lambda>h. call (OnDisconnect h)) handlers s)
         | LimboShutdown \<Rightarrow> (ExitShutdown, s)
         | LimboTimeout \<Rightarrow> (ExitTimeout, s)
         | LimboSendTo names \<Rightarrow> (ExitSendTo names, s))"

definition limbo_new :: "nat \<Rightarrow> bridge \<Rightarrow> 'l limbo" where
  "limbo_new now client =
     \<lparr>li_hold_seq = 0, li_completion = None, li_unread = False, li_outgoing = [], li_keepalive = keepalive_new now,
      li_client = client, li_calls = []\<rparr>"

definition enter_limbo ::
  "('f, 'c, 'h, 'pid, 'l) limbo_env \<Rightarrow> 'l list \<Rightarrow> limbo_input list \<Rightarrow> nat \<Rightarrow> bridge \<Rightarrow> limbo_exit_result option \<times> 'l limbo" where
  "enter_limbo env handlers is now client =
     (case run_handler_chain env True handlers False is (limbo_new now client) of
        (ChainEnded r, s) \<Rightarrow> (let (e, s) = map_chain_result env r handlers s in (Some e, s))
      | (_, s) \<Rightarrow> (None, s))"

section \<open>Handlers by name, and the captured registry\<close>

fun resolve_handlers :: "(string \<rightharpoonup> 'l) \<Rightarrow> string list \<Rightarrow> core_error + 'l list" where
  "resolve_handlers handlers [] = Ok []"
| "resolve_handlers handlers (name # names) =
     (case handlers name of
        None \<Rightarrow> Err (OtherError (''limbo handler not found: '' @ name))
      | Some h \<Rightarrow> rmap (Cons h) (resolve_handlers handlers names))"

definition resolve_handlers_lenient :: "(string \<rightharpoonup> 'l) \<Rightarrow> string list \<Rightarrow> 'l list" where
  "resolve_handlers_lenient handlers names = List.map_filter handlers names"

definition get_registry_frames ::
  "(protocol_version \<Rightarrow> core_error + packet_frame list) \<Rightarrow> protocol_version \<Rightarrow> registry_cache \<Rightarrow> core_error + packet_frame list" where
  "get_registry_frames provider v c =
     (case c v of
        Some e \<Rightarrow> if cap_finalized e \<and> cap_registry e \<noteq> [] then Ok (cap_registry e) else provider v
      | None \<Rightarrow> provider v)"

definition get_known_packs_frame ::
  "(protocol_version \<Rightarrow> core_error + packet_frame option) \<Rightarrow> protocol_version \<Rightarrow> registry_cache \<Rightarrow> core_error + packet_frame option" where
  "get_known_packs_frame provider v c =
     (case c v of
        Some e \<Rightarrow> if cap_finalized e then Ok (cap_known_packs e) else provider v
      | None \<Rightarrow> provider v)"

definition has_captured :: "protocol_version \<Rightarrow> registry_cache \<Rightarrow> bool" where
  "has_captured v c = (case c v of Some e \<Rightarrow> cap_finalized e | None \<Rightarrow> False)"

section \<open>Facts\<close>

lemma try_send_all_keeps [simp]:
  "li_hold_seq (snd (try_send_all full fs s)) = li_hold_seq s" "li_unread (snd (try_send_all full fs s)) = li_unread s"
  "li_completion (snd (try_send_all full fs s)) = li_completion s"
  by (induction fs arbitrary: s) (auto simp: try_send_def)

lemma send_built_keeps [simp]:
  "li_hold_seq (snd (send_built env b s)) = li_hold_seq s" "li_unread (snd (send_built env b s)) = li_unread s"
  "li_completion (snd (send_built env b s)) = li_completion s"
  by (simp_all add: send_built_def split: sum.split)

lemma client_frame_keeps [simp]:
  "li_hold_seq (client_frame env h f s) = li_hold_seq s" "li_unread (client_frame env h f s) = li_unread s"
  "li_completion (client_frame env h f s) = li_completion s"
  by (simp_all add: client_frame_def call_def Let_def split: option.split client_message.split)

lemma limbo_write_keeps [simp]:
  "li_hold_seq (snd (limbo_write f s)) = li_hold_seq s" "li_unread (snd (limbo_write f s)) = li_unread s"
  "li_completion (snd (limbo_write f s)) = li_completion s"
  "fst (limbo_write f s) = None \<or> fst (limbo_write f s) = Some (ActExit LimboClientDisconnected)"
  by (auto simp: limbo_write_def case_prod_beta split: sum.split)

text \<open>A result given to the hold of a number by a plugin among the inputs.\<close>

definition granted :: "u64 \<Rightarrow> handler_result \<Rightarrow> limbo_input list \<Rightarrow> bool" where
  "granted q r is \<longleftrightarrow> LimboRequest (Complete r) \<in> set is \<or> LimboRequest (CompleteScoped q r) \<in> set is"

lemma hold_step_going:
  assumes "hold_step env h t i s = (None, s')"
  shows "li_hold_seq s' = li_hold_seq s \<and> (li_unread s' \<longrightarrow> (\<exists>r. li_completion s' = Some r \<and> granted (li_hold_seq s) r [i]) \<or>
    li_unread s \<and> li_completion s' = li_completion s)"
proof -
  have w: "li_hold_seq s2 = li_hold_seq s1 \<and> li_unread s2 = li_unread s1 \<and> li_completion s2 = li_completion s1"
    if "limbo_write f s1 = (r, s2)" for f r s1 and s2 :: "'a limbo"
    using limbo_write_keeps(1-3) [of f s1] that by simp
  from assms show ?thesis
    by (cases "(env, h, t, i, s)" rule: hold_step.cases)
      (auto simp: granted_def limbo_perform_def complete_hold_def complete_scoped_def send_message_def send_title_def send_action_bar_def
        Let_def split: list.splits prod.splits sum.splits keepalive_tick.splits if_splits limbo_request.splits dest!: w)
qed

lemma hold_step_ending:
  assumes "hold_step env h t i s = (Some a, s')"
  shows "a \<in> ActExit ` {LimboClientDisconnected, LimboShutdown, LimboTimeout}
    \<or> (\<exists>r. a = process_handler_result r \<and> (i = LimboCompletion \<and> li_unread s \<and> li_completion s = Some r \<or> i = LimboDeadline \<and> t = Some r))"
proof -
  have w: "a = ActExit LimboClientDisconnected" if "limbo_write f s1 = (Some a, s2)" for f s1 and s2 :: "'a limbo"
    using limbo_write_keeps(4) [of f s1] that by simp
  from assms show ?thesis
    by (cases "(env, h, t, i, s)" rule: hold_step.cases)
      (auto simp: Let_def split: list.splits prod.splits sum.splits keepalive_tick.splits if_splits dest!: w)
qed

lemma hold_cause:
  assumes "wait_for_hold env h t is s = (Some a, s', rest)"
  shows "\<exists>pre. is = pre @ rest \<and> (a \<in> ActExit ` {LimboClientDisconnected, LimboShutdown, LimboTimeout}
    \<or> (\<exists>r. a = process_handler_result r \<and> (granted (li_hold_seq s) r pre \<or> li_unread s \<and> li_completion s = Some r \<or> LimboDeadline \<in> set pre \<and> t = Some r)))"
  using assms
proof (induction "is" arbitrary: s)
  case (Cons i "is")
  obtain o' s1 where st: "hold_step env h t i s = (o', s1)" by (cases "hold_step env h t i s")
  show ?case
  proof (cases o')
    case None
    with Cons st obtain pre where p: "is = pre @ rest"
      "a \<in> ActExit ` {LimboClientDisconnected, LimboShutdown, LimboTimeout} \<or> (\<exists>r. a = process_handler_result r \<and>
         (granted (li_hold_seq s1) r pre \<or> li_unread s1 \<and> li_completion s1 = Some r \<or> LimboDeadline \<in> set pre \<and> t = Some r))"
      by fastforce
    from hold_step_going [of env h t i s s1] st None have g: "li_hold_seq s1 = li_hold_seq s"
      "li_unread s1 \<longrightarrow> (\<exists>r. li_completion s1 = Some r \<and> granted (li_hold_seq s) r [i]) \<or> li_unread s \<and> li_completion s1 = li_completion s"
      by simp_all
    have "granted q r pre \<Longrightarrow> granted q r (i # pre)" "granted q r [i] \<Longrightarrow> granted q r (i # pre)" for q r by (auto simp: granted_def)
    with p g show ?thesis by (intro exI [of _ "i # pre"]) auto
  next
    case (Some b)
    with Cons.prems st have "b = a" "rest = is" by simp_all
    with hold_step_ending [of env h t i s b s1] st Some show ?thesis by (intro exI [of _ "[i]"]) auto
  qed
qed simp


section \<open>Keeping the connection alive\<close>

lemma keepalive_roundtrip:
  "\<exists>bs. encode_keepalive_id (keepalive_id v random millis) v = Ok bs \<and> decode_keepalive_id bs v = Ok (keepalive_id v random millis, [])"
proof (cases "v \<ge> V1_12_2")
  case True
  then show ?thesis using read_be_bytes [where w = millis and r = "[]" and n = 8]
    by (simp add: encode_keepalive_id_def decode_keepalive_id_def keepalive_id_def write_be_def)
next
  case False
  have s: "ucast (scast random :: i64) = random"
    by (rule bit_word_eqI) (auto simp: bit_simps dest: bit_imp_le_length)
  show ?thesis
  proof (cases "v \<ge> V1_8")
    case True
    with False show ?thesis using read_varint_encode [of random "[]"]
      by (simp add: encode_keepalive_id_def decode_keepalive_id_def keepalive_id_def s write_var_int_def)
  next
    case l: False
    with False show ?thesis using read_be_bytes [where w = random and r = "[]" and n = 4]
      by (simp add: encode_keepalive_id_def decode_keepalive_id_def keepalive_id_def write_be_def s)
  qed
qed

definition ping :: "('f, 'c, 'h, 'pid, 'l) limbo_env \<Rightarrow> i32 \<Rightarrow> nat \<times> i32 \<times> i64 \<Rightarrow> packet_frame" where
  "ping env pid = (\<lambda>(now, random, millis). \<lparr>frame_id = pid,
     frame_payload = projr (encode_keepalive_id (keepalive_id (se_version (le_session env)) random millis) (se_version (le_session env)))\<rparr>)"

abbreviation limbo_tick :: "nat \<times> i32 \<times> i64 \<Rightarrow> limbo_input" where
  "limbo_tick \<equiv> \<lambda>(now, random, millis). LimboTick now random millis"

text \<open>A tick and the answer of the client, which sends the number back under its own packet id.\<close>

definition answered :: "('f, 'c, 'h, 'pid, 'l) limbo_env \<Rightarrow> i32 \<Rightarrow> nat \<times> i32 \<times> i64 \<Rightarrow> limbo_input list" where
  "answered env pid t = [limbo_tick t, LimboFrame (Ok (Some (ping env pid t)))]"

definition pinged :: "('f, 'c, 'h, 'pid, 'l) limbo_env \<Rightarrow> i32 \<Rightarrow> bool \<Rightarrow> nat \<times> i32 \<times> i64 \<Rightarrow> 'l limbo \<Rightarrow> 'l limbo" where
  "pinged env pid awaiting t s = s\<lparr>li_client := sent [ping env pid t] (li_client s),
     li_keepalive := \<lparr>ka_last_id = keepalive_id (se_version (le_session env)) (fst (snd t)) (snd (snd t)), ka_last_at = fst t, ka_awaiting = awaiting\<rparr>\<rparr>"

lemma tick_pings:
  assumes "get_packet_id CKeepAlive Play Clientbound (se_version (le_session env)) (se_registry (le_session env)) = Some c"
    "br_fails (li_client s) = (\<lambda>_ _. None)" "\<not> ka_awaiting (li_keepalive s)"
  shows "hold_step env h d (limbo_tick t) s = (None, pinged env c True t s)"
proof -
  obtain now random millis where t: "t = (now, random, millis)" by (cases t)
  obtain bs where "encode_keepalive_id (keepalive_id (se_version (le_session env)) random millis) (se_version (le_session env)) = Ok bs"
    using keepalive_roundtrip by blast
  with assms show ?thesis
    by (simp add: t tick_def encode_packet_def limbo_builder_def limbo_write_def bridge_write_def pinged_def ping_def sent_def Let_def)
qed

lemma answer_accepted:
  assumes "get_packet_id SKeepAlive Play Serverbound (se_version (le_session env)) (se_registry (le_session env)) = Some k"
  shows "client_frame env h (ping env k t) (pinged env c True t s) = pinged env c False t s"
proof -
  obtain now random millis where t: "t = (now, random, millis)" by (cases t)
  obtain bs where "encode_keepalive_id (keepalive_id (se_version (le_session env)) random millis) (se_version (le_session env)) = Ok bs"
    "decode_keepalive_id bs (se_version (le_session env)) = Ok (keepalive_id (se_version (le_session env)) random millis, [])"
    using keepalive_roundtrip by blast
  with assms show ?thesis
    by (simp add: t client_frame_def is_keepalive_response_def extract_keepalive_id_def on_response_def pinged_def ping_def)
qed

lemma waiting_ticks:
  assumes "ka_awaiting (li_keepalive s)"
  shows "fst (wait_for_hold env h d (map limbo_tick ts) s) =
    (if \<exists>t \<in> set ts. ka_last_at (li_keepalive s) + KEEPALIVE_TIMEOUT \<le> fst t then Some (ActExit LimboTimeout) else None)"
  using assms
proof (induction ts)
  case (Cons t ts)
  obtain now random millis where t: "t = (now, random, millis)" by (cases t)
  have "hold_step env h d (limbo_tick t) s = (if ka_last_at (li_keepalive s) + KEEPALIVE_TIMEOUT \<le> now then Some (ActExit LimboTimeout) else None, s)"
    using Cons.prems by (auto simp: t tick_def KEEPALIVE_TIMEOUT_def)
  with Cons show ?case by (auto simp: t)
qed simp

text \<open>C20. A held client that sends every ping back before the next tick stays, however long it is held;
  after the first ping it leaves unanswered the connection ends at the first tick fifteen seconds later, and not earlier.\<close>

theorem keepalive_enforced:
  assumes "get_packet_id CKeepAlive Play Clientbound (se_version (le_session env)) (se_registry (le_session env)) = Some c"
    and "get_packet_id SKeepAlive Play Serverbound (se_version (le_session env)) (se_registry (le_session env)) = Some k"
    and "br_fails (li_client s) = (\<lambda>_ _. None)" and "\<not> ka_awaiting (li_keepalive s)"
  shows "fst (wait_for_hold env h d (concat (map (answered env k) rounds) @ limbo_tick t # map limbo_tick ts) s) =
    (if \<exists>t' \<in> set ts. fst t + 15000 \<le> fst t' then Some (ActExit LimboTimeout) else None)"
  using assms(3,4)
proof (induction rounds arbitrary: s)
  case Nil
  have "ka_awaiting (li_keepalive (pinged env c True t s))" "ka_last_at (li_keepalive (pinged env c True t s)) = fst t"
    by (simp_all add: pinged_def)
  with waiting_ticks [of "pinged env c True t s" env h d ts] Nil show ?case
    by (simp add: tick_pings [OF assms(1)] KEEPALIVE_TIMEOUT_def)
next
  case (Cons r rounds)
  have "br_fails (li_client (pinged env c False r s)) = (\<lambda>_ _. None)" "\<not> ka_awaiting (li_keepalive (pinged env c False r s))"
    using Cons.prems by (simp_all add: pinged_def sent_def)
  note IH = Cons.IH [OF this]
  show ?case using IH by (simp add: answered_def tick_pings [OF assms(1) Cons.prems] answer_accepted [OF assms(2)])
qed

section \<open>The chain\<close>

text \<open>
  A completion that a handler leaves unread releases the hold of the next handler, which nobody completed; completing a
  hold with a hold ends in the branch the code calls unreachable.
\<close>

lemma stale_completion_releases:
  assumes "\<And>s. le_enter env a s = ([Complete Accept], Accept)" "\<And>s. le_enter env b s = ([], Hold)" "\<And>j cl. le_spawn env j cl = (Ok (), cl)"
  shows "fst (run_handler_chain env j [a, b] False [LimboCompletion] (limbo_new now client)) = ChainEnded LimboCompleted"
  using assms
  by (simp add: limbo_new_def begin_handler_def call_def limbo_perform_def complete_hold_def complete_scoped_def process_handler_result_def)

lemma completing_with_hold_panics:
  assumes "\<And>s. le_enter env a s = ([], Hold)" "\<And>j cl. le_spawn env j cl = (Ok (), cl)"
  shows "fst (run_handler_chain env j [a] False [LimboRequest (Complete Hold), LimboCompletion] (limbo_new now client)) = ChainPanicked"
  using assms
  by (simp add: limbo_new_def begin_handler_def call_def limbo_perform_def complete_hold_def complete_scoped_def process_handler_result_def)

text \<open>Every handler is told once how the session ended, except when the player goes on to another limbo.\<close>

lemma fold_call: "fold (\<lambda>h. call (k h)) hs s = s\<lparr>li_calls := li_calls s @ map k hs\<rparr>"
  by (induction hs arbitrary: s) (simp_all add: call_def)

lemma session_end_told:
  "li_calls (snd (map_chain_result env r handlers s)) = li_calls s
     @ (case end_reason r of Some reason \<Rightarrow> map (\<lambda>h. OnSessionEnd h reason) handlers | None \<Rightarrow> [])
     @ (if r = LimboClientDisconnected then map OnDisconnect handlers else [])"
  by (cases r) (simp_all add: map_chain_result_def end_reason_def fold_call send_disconnect_def Let_def split: sum.split)

lemma resolve_handlers_Ok:
  "resolve_handlers handlers names = Ok hs \<longleftrightarrow> map handlers names = map Some hs"
proof (induction names arbitrary: hs)
  case (Cons name names)
  then show ?case by (cases hs; cases "resolve_handlers handlers names") (auto simp: rmap_def split: option.splits)
qed auto

lemma resolve_handlers_agree: "resolve_handlers handlers names = Ok hs \<Longrightarrow> resolve_handlers_lenient handlers names = hs"
  by (induction names arbitrary: hs)
    (auto simp: resolve_handlers_lenient_def rmap_eq_Ok map_filter_simps split: option.splits)

text \<open>No handler is passed over: a chain that completes has entered every handler, in order.\<close>

definition entered :: "'l limbo \<Rightarrow> 'l list" where
  "entered s = List.map_filter (\<lambda>c. case c of OnEnter h \<Rightarrow> Some h | _ \<Rightarrow> None) (li_calls s)"

lemma try_send_all_calls [simp]: "li_calls (snd (try_send_all full fs s)) = li_calls s"
  by (induction fs arbitrary: s) (auto simp: try_send_def)

lemma perform_calls [simp]: "li_calls (limbo_perform env rq s) = li_calls s"
  by (simp add: limbo_perform_def complete_hold_def complete_scoped_def send_message_def send_title_def send_action_bar_def
      send_built_def split: limbo_request.split sum.split)

lemma fold_perform_entered [simp]: "entered (fold (limbo_perform env) rqs s) = entered s"
  by (induction rqs arbitrary: s) (simp_all add: entered_def)

lemma map_filter_append [simp]: "List.map_filter f (xs @ ys) = List.map_filter f xs @ List.map_filter f ys"
  by (simp add: List.map_filter_def)

lemma client_frame_entered [simp]: "entered (client_frame env h f s) = entered s"
  by (simp add: client_frame_def call_def entered_def map_filter_simps Let_def split: option.split client_message.split)

lemma hold_step_entered: "entered (snd (hold_step env h t i s)) = entered s"
  by (cases "(env, h, t, i, s)" rule: hold_step.cases)
    (simp_all add: entered_def limbo_write_def Let_def case_prod_beta client_frame_entered [unfolded entered_def]
      split: list.split sum.split keepalive_tick.split)

lemma wait_entered: "wait_for_hold env h t is s = (a, s', rest) \<Longrightarrow> entered s' = entered s"
proof (induction "is" arbitrary: s)
  case (Cons i "is")
  then show ?case using hold_step_entered [of env h t i s] by (auto split: prod.splits option.splits)
qed simp

lemma process_not_completed: "process_handler_result r \<noteq> ActExit LimboCompleted"
  by (cases r) (simp_all add: process_handler_result_def)

lemma wait_not_completed: "wait_for_hold env h t is s \<noteq> (Some (ActExit LimboCompleted), s', rest)"
  using hold_cause [of env h t "is" s "ActExit LimboCompleted" s' rest] process_not_completed by fastforce

lemma completed_enters_all:
  assumes "run_handler_chain env j handlers spawned is s = (ChainEnded LimboCompleted, s')"
  shows "entered s' = entered s @ handlers"
  using assms
proof (induction handlers arbitrary: spawned "is" s)
  case (Cons h hs)
  let ?s = "call (OnEnter h) (begin_handler s)"
  obtain rqs r where e: "le_enter env h ?s = (rqs, r)" by (cases "le_enter env h ?s")
  let ?s1 = "fold (limbo_perform env) rqs ?s"
  have c: "entered (?s1\<lparr>li_client := b\<rparr>) = entered s @ [h]" for b
    using fold_perform_entered [of env rqs ?s] by (simp add: entered_def call_def begin_handler_def map_filter_simps)
  have c': "entered ?s1 = entered s @ [h]" using c [of "li_client ?s1"] by simp
  show ?case
  proof (cases "process_handler_result r")
    case ActContinue
    then show ?thesis using Cons c' by (simp add: e)
  next
    case (ActExit x)
    then show ?thesis using Cons.prems process_not_completed [of r] by (simp add: e)
  next
    case (ActHold d)
    obtain sp b where sp: "(if spawned then (Ok (), li_client ?s1) else le_spawn env j (li_client ?s1)) = (sp, b)" by fastforce
    obtain a s2 rest where w: "wait_for_hold env h (map_option snd d) is (?s1\<lparr>li_client := b\<rparr>) = (a, s2, rest)" by (metis prod_cases3)
    from Cons.prems ActHold sp w have "a = Some ActContinue \<and> run_handler_chain env j hs True rest s2 = (ChainEnded LimboCompleted, s')"
      using wait_not_completed [of env h "map_option snd d" "is" "?s1\<lparr>li_client := b\<rparr>"]
      by (auto simp: e Let_def split: sum.splits option.splits handler_action.splits)
    then show ?thesis using Cons.IH [of True rest s2] wait_entered [OF w] c by simp
  qed
qed simp

section \<open>Witnesses\<close>

definition limbo_sample_env :: "(unit, unit, unit, nat, unit) limbo_env" where
  "limbo_sample_env = \<lparr>le_session = relay_sample_env, le_enter = (\<lambda>_ _. ([], Hold)), le_spawn = (\<lambda>_ b. (Ok (), b)), le_full = []\<rparr>"

abbreviation limbo_sample :: "unit limbo" where
  "limbo_sample \<equiv> limbo_new 0 (relay_sample_bridge Play)"

abbreviation limbo_sample_run :: "limbo_input list" where
  "limbo_sample_run \<equiv> [LimboRequest (CompleteScoped 9 (Redirect ''lobby'')), LimboCompletion, LimboRequest (CompleteScoped 0 Accept), LimboCompletion]"


lemma limbo_sample_ids:
  "get_packet_id CKeepAlive Play Clientbound V1_20_2 build_default_registry = Some 0x24"
  "get_packet_id SKeepAlive Play Serverbound V1_20_2 build_default_registry = Some 0x14"
  unfolding registry_lookup by (auto simp: table_def default_registrations_def table_groups range_end_def SUPPORTED_def)

theorem keepalive_enforced_witness:
  "fst (wait_for_hold limbo_sample_env () None
     (concat (map (answered limbo_sample_env 0x14) [(0, 5, 7), (10000, 6, 8)]) @ limbo_tick (20000, 1, 9) # map limbo_tick [(30000, 2, 9), (40000, 3, 9)])
     limbo_sample) = Some (ActExit LimboTimeout)"
  using keepalive_enforced [of limbo_sample_env "0x24" "0x14" limbo_sample "()" None "[(0, 5, 7), (10000, 6, 8)]" "(20000, 1, 9)"
      "[(30000, 2, 9), (40000, 3, 9)]"] limbo_sample_ids
  by (simp add: limbo_sample_env_def limbo_new_def relay_sample_bridge_def keepalive_new_def)

end
