(* ===== verification/Plugins.thy ===== *)
theory Plugins
  imports EventBus Commands Routing Ordering
begin

text \<open>
  Plugins: the scheduler, the tracking wrappers of \<open>plugin/tracking.rs\<close>, the plugin context and its
  cleanup, the capabilities, the config providers of a plugin, the static loader and the plugin manager.

  A plugin is what it asks of its context: \<open>on_enable\<close> and \<open>on_disable\<close> are lists of requests and a
  result. What a loader finds, whether it loads, and the requests of the plugins are parameters.
\<close>

section \<open>The scheduler\<close>

type_synonym task_handle = u64

datatype task = DelayTask duration | IntervalTask duration | IntervalWithDelay duration duration

text \<open>The abort handles by number; \<open>sch_aborted\<close> records the tasks whose handle was aborted.\<close>

record scheduler =
  sch_tasks :: "(task_handle \<times> task) list"
  sch_next_id :: u64
  sch_aborted :: "task_handle list"

definition scheduler_new :: scheduler where
  "scheduler_new = \<lparr>sch_tasks = [], sch_next_id = 1, sch_aborted = []\<rparr>"

definition next_task_handle :: "scheduler \<Rightarrow> task_handle \<times> scheduler" where
  "next_task_handle s = (sch_next_id s, s\<lparr>sch_next_id := sch_next_id s + 1\<rparr>)"

definition schedule :: "task \<Rightarrow> scheduler \<Rightarrow> task_handle \<times> scheduler" where
  "schedule t s = (let (h, s) = next_task_handle s in (h, s\<lparr>sch_tasks := AList.update h t (sch_tasks s)\<rparr>))"

definition delay :: "duration \<Rightarrow> scheduler \<Rightarrow> task_handle \<times> scheduler" where
  "delay d = schedule (DelayTask d)"

definition interval :: "duration \<Rightarrow> scheduler \<Rightarrow> task_handle \<times> scheduler" where
  "interval period = schedule (IntervalTask period)"

definition interval_with_delay :: "duration \<Rightarrow> duration \<Rightarrow> scheduler \<Rightarrow> task_handle \<times> scheduler" where
  "interval_with_delay period d = schedule (IntervalWithDelay period d)"

definition cancel_task :: "task_handle \<Rightarrow> scheduler \<Rightarrow> scheduler" where
  "cancel_task h s =
     (case map_of (sch_tasks s) h of
        Some _ \<Rightarrow> s\<lparr>sch_tasks := AList.delete h (sch_tasks s), sch_aborted := sch_aborted s @ [h]\<rparr>
      | None \<Rightarrow> s)"

text \<open>The end of a delayed task: it removes its handle from the copy of the map it took at its start.\<close>

definition delay_finished :: "task_handle \<Rightarrow> scheduler \<times> scheduler \<Rightarrow> scheduler \<times> scheduler" where
  "delay_finished h = (\<lambda>(copy, s). (copy\<lparr>sch_tasks := AList.delete h (sch_tasks copy)\<rparr>, s))"

section \<open>Capabilities\<close>

datatype capability =
    CapEventBus | CapPlayerRead | CapPlayerWrite | CapRawPacket | CapServerManage | CapBan | CapCommand | CapScheduler
  | CapConfigRead | CapCodecFilter | CapTransportFilter | CapLimbo | CapVirtualBackend | CapPermissionProvider
  | CapFilesystemExtended | CapNetwork

definition ALL_CAPABILITIES :: "capability list" where
  "ALL_CAPABILITIES =
     [CapEventBus, CapPlayerRead, CapPlayerWrite, CapRawPacket, CapServerManage, CapBan, CapCommand, CapScheduler,
      CapConfigRead, CapCodecFilter, CapTransportFilter, CapLimbo, CapVirtualBackend, CapPermissionProvider,
      CapFilesystemExtended, CapNetwork]"

fun to_kebab :: "capability \<Rightarrow> string" where
  "to_kebab CapEventBus = ''event-bus''"
| "to_kebab CapPlayerRead = ''player-read''"
| "to_kebab CapPlayerWrite = ''player-write''"
| "to_kebab CapRawPacket = ''raw-packet''"
| "to_kebab CapServerManage = ''server-manage''"
| "to_kebab CapBan = ''ban''"
| "to_kebab CapCommand = ''command''"
| "to_kebab CapScheduler = ''scheduler''"
| "to_kebab CapConfigRead = ''config-read''"
| "to_kebab CapCodecFilter = ''codec-filter''"
| "to_kebab CapTransportFilter = ''transport-filter''"
| "to_kebab CapLimbo = ''limbo''"
| "to_kebab CapVirtualBackend = ''virtual-backend''"
| "to_kebab CapPermissionProvider = ''permission-provider''"
| "to_kebab CapFilesystemExtended = ''filesystem-extended''"
| "to_kebab CapNetwork = ''network''"

definition from_kebab :: "string \<Rightarrow> capability option" where
  "from_kebab s = map_of
     [(''event-bus'', CapEventBus), (''player-read'', CapPlayerRead), (''player-write'', CapPlayerWrite),
      (''raw-packet'', CapRawPacket), (''server-manage'', CapServerManage), (''ban'', CapBan),
      (''command'', CapCommand), (''scheduler'', CapScheduler), (''config-read'', CapConfigRead),
      (''codec-filter'', CapCodecFilter), (''transport-filter'', CapTransportFilter), (''limbo'', CapLimbo),
      (''virtual-backend'', CapVirtualBackend), (''permission-provider'', CapPermissionProvider),
      (''filesystem-extended'', CapFilesystemExtended), (''network'', CapNetwork)] s"

type_synonym capability_set = "capability list"

definition has_capability :: "capability_set \<Rightarrow> capability \<Rightarrow> bool" where
  "has_capability caps c \<longleftrightarrow> c \<in> set caps"

definition insert_capability :: "capability \<Rightarrow> capability_set \<Rightarrow> capability_set" where
  "insert_capability = List.insert"

definition baseline :: capability_set where
  "baseline = fold insert_capability
     [CapEventBus, CapPlayerRead, CapPlayerWrite, CapCommand, CapScheduler, CapConfigRead] []"

definition native_trusted :: capability_set where
  "native_trusted = fold insert_capability ALL_CAPABILITIES []"

definition from_config_strings :: "string list \<Rightarrow> capability_set \<times> string list" where
  "from_config_strings strings =
     fold (\<lambda>s (caps, rejected).
             case from_kebab s of
               None \<Rightarrow> (caps, rejected @ [s])
             | Some c \<Rightarrow> if c = CapTransportFilter then (caps, rejected @ [s]) else (insert_capability c caps, rejected))
       strings (baseline, [])"

section \<open>The plugin context\<close>

text \<open>
  The services a plugin works on, shared by all plugins. Cancellation tokens are numbers;
  \<open>sv_cancelled\<close> holds the cancelled ones.
\<close>

record ('t, 'e, 'h, 'net) services =
  sv_bus :: "('t, 'e) event_bus"
  sv_commands :: "'h command_manager"
  sv_scheduler :: scheduler
  sv_router :: "'net domain_router"
  sv_cancelled :: "nat list"

record ('l, 'p) plugin_context =
  pc_plugin_id :: string
  pc_capabilities :: capability_set
  pc_limbo_handlers :: "'l list"
  pc_config_providers :: "'p list"
  pc_handles :: "listener_handle list"
  pc_commands :: "string list"
  pc_tasks :: "task_handle list"
  pc_provider_ids :: "provider_id list"
  pc_provider_tokens :: "nat list"

text \<open>The lower-casing function and the iteration orders of the maps.\<close>

record ('t, 'net) platform =
  pf_lower :: "string \<Rightarrow> string"
  pf_types :: "'t list \<Rightarrow> 't list"
  pf_packets :: "packet_key list \<Rightarrow> packet_key list"
  pf_walk :: "'net walk"

definition context_impl_new :: "string \<Rightarrow> capability_set \<Rightarrow> ('l, 'p) plugin_context" where
  "context_impl_new pid caps =
     \<lparr>pc_plugin_id = pid, pc_capabilities = caps, pc_limbo_handlers = [], pc_config_providers = [], pc_handles = [],
      pc_commands = [], pc_tasks = [], pc_provider_ids = [], pc_provider_tokens = []\<rparr>"

text \<open>What the context offers the plugin: the tracking wrappers and the registrations.\<close>

datatype ('t, 'e, 'h, 'l, 'p) request =
    ReqSubscribe 't event_priority "'e handler_kind"
  | ReqSubscribePacket packet_key event_priority "'e handler_kind"
  | ReqUnsubscribe listener_handle
  | ReqRegister string "string list" string 'h
  | ReqUnregister string
  | ReqSchedule task
  | ReqCancel task_handle
  | ReqLimboHandler 'l
  | ReqConfigProvider 'p

type_synonym ('t, 'e, 'h, 'net, 'l, 'p) plugin_world = "('l, 'p) plugin_context \<times> ('t, 'e, 'h, 'net) services"

definition track :: "listener_handle \<Rightarrow> ('l, 'p) plugin_context \<Rightarrow> ('l, 'p) plugin_context" where
  "track h ctx = ctx\<lparr>pc_handles := pc_handles ctx @ [h]\<rparr>"

definition tracking_subscribe ::
  "'t \<Rightarrow> event_priority \<Rightarrow> 'e handler_kind \<Rightarrow> ('t, 'e, 'h, 'net, 'l, 'p) plugin_world \<Rightarrow> ('t, 'e, 'h, 'net, 'l, 'p) plugin_world" where
  "tracking_subscribe t p k = (\<lambda>(ctx, sv).
     let (h, bus) = subscribe t p k (sv_bus sv) in (track h ctx, sv\<lparr>sv_bus := bus\<rparr>))"

definition tracking_subscribe_packet ::
  "packet_key \<Rightarrow> event_priority \<Rightarrow> 'e handler_kind \<Rightarrow> ('t, 'e, 'h, 'net, 'l, 'p) plugin_world \<Rightarrow> ('t, 'e, 'h, 'net, 'l, 'p) plugin_world" where
  "tracking_subscribe_packet f p k = (\<lambda>(ctx, sv).
     let (h, bus) = subscribe_packet f p k (sv_bus sv) in (track h ctx, sv\<lparr>sv_bus := bus\<rparr>))"

definition tracking_register ::
  "('t, 'net) platform \<Rightarrow> string \<Rightarrow> string list \<Rightarrow> string \<Rightarrow> 'h \<Rightarrow> ('t, 'e, 'h, 'net, 'l, 'p) plugin_world \<Rightarrow>
   ('t, 'e, 'h, 'net, 'l, 'p) plugin_world" where
  "tracking_register pf name aliases description handler = (\<lambda>(ctx, sv).
     (ctx\<lparr>pc_commands := pc_commands ctx @ [name]\<rparr>,
      sv\<lparr>sv_commands := register_with_plugin_id (pf_lower pf) name aliases description handler (pc_plugin_id ctx) (sv_commands sv)\<rparr>))"

definition tracking_schedule :: "task \<Rightarrow> ('t, 'e, 'h, 'net, 'l, 'p) plugin_world \<Rightarrow> ('t, 'e, 'h, 'net, 'l, 'p) plugin_world" where
  "tracking_schedule t = (\<lambda>(ctx, sv).
     let (h, s) = (case t of
           DelayTask d \<Rightarrow> delay d (sv_scheduler sv)
         | IntervalTask p \<Rightarrow> interval p (sv_scheduler sv)
         | IntervalWithDelay p d \<Rightarrow> interval_with_delay p d (sv_scheduler sv))
     in (ctx\<lparr>pc_tasks := pc_tasks ctx @ [h]\<rparr>, sv\<lparr>sv_scheduler := s\<rparr>))"

definition register_limbo_handler :: "'l \<Rightarrow> ('l, 'p) plugin_context \<Rightarrow> ('l, 'p) plugin_context" where
  "register_limbo_handler l ctx =
     (if has_capability (pc_capabilities ctx) CapLimbo then ctx\<lparr>pc_limbo_handlers := pc_limbo_handlers ctx @ [l]\<rparr> else ctx)"

definition register_config_provider :: "'p \<Rightarrow> ('l, 'p) plugin_context \<Rightarrow> ('l, 'p) plugin_context" where
  "register_config_provider p ctx = ctx\<lparr>pc_config_providers := pc_config_providers ctx @ [p]\<rparr>"

definition codec_filters :: "'r \<Rightarrow> ('l, 'p) plugin_context \<Rightarrow> 'r option" where
  "codec_filters registry ctx = (if has_capability (pc_capabilities ctx) CapCodecFilter then Some registry else None)"

definition transport_filters :: "'r \<Rightarrow> ('l, 'p) plugin_context \<Rightarrow> 'r option" where
  "transport_filters registry ctx = (if has_capability (pc_capabilities ctx) CapTransportFilter then Some registry else None)"

fun perform ::
  "('t, 'net) platform \<Rightarrow> ('t, 'e, 'h, 'l, 'p) request \<Rightarrow> ('t, 'e, 'h, 'net, 'l, 'p) plugin_world \<Rightarrow> ('t, 'e, 'h, 'net, 'l, 'p) plugin_world" where
  "perform pf (ReqSubscribe t p k) w = tracking_subscribe t p k w"
| "perform pf (ReqSubscribePacket f p k) w = tracking_subscribe_packet f p k w"
| "perform pf (ReqUnsubscribe h) (ctx, sv) = (ctx, sv\<lparr>sv_bus := unsubscribe (pf_types pf) (pf_packets pf) h (sv_bus sv)\<rparr>)"
| "perform pf (ReqRegister n as d h) w = tracking_register pf n as d h w"
| "perform pf (ReqUnregister n) (ctx, sv) = (ctx, sv\<lparr>sv_commands := unregister (pf_lower pf) n (sv_commands sv)\<rparr>)"
| "perform pf (ReqSchedule t) w = tracking_schedule t w"
| "perform pf (ReqCancel h) (ctx, sv) = (ctx, sv\<lparr>sv_scheduler := cancel_task h (sv_scheduler sv)\<rparr>)"
| "perform pf (ReqLimboHandler l) (ctx, sv) = (register_limbo_handler l ctx, sv)"
| "perform pf (ReqConfigProvider p) (ctx, sv) = (register_config_provider p ctx, sv)"

definition take_limbo_handlers :: "('l, 'p) plugin_context \<Rightarrow> 'l list \<times> ('l, 'p) plugin_context" where
  "take_limbo_handlers ctx = (pc_limbo_handlers ctx, ctx\<lparr>pc_limbo_handlers := []\<rparr>)"

definition take_config_providers :: "('l, 'p) plugin_context \<Rightarrow> 'p list \<times> ('l, 'p) plugin_context" where
  "take_config_providers ctx = (pc_config_providers ctx, ctx\<lparr>pc_config_providers := []\<rparr>)"

definition register_active_provider_ids :: "provider_id list \<Rightarrow> ('l, 'p) plugin_context \<Rightarrow> ('l, 'p) plugin_context" where
  "register_active_provider_ids ids ctx = ctx\<lparr>pc_provider_ids := pc_provider_ids ctx @ ids\<rparr>"

definition register_provider_token :: "nat \<Rightarrow> ('l, 'p) plugin_context \<Rightarrow> ('l, 'p) plugin_context" where
  "register_provider_token tok ctx = ctx\<lparr>pc_provider_tokens := pc_provider_tokens ctx @ [tok]\<rparr>"

definition cleanup :: "('t, 'net) platform \<Rightarrow> ('t, 'e, 'h, 'net, 'l, 'p) plugin_world \<Rightarrow> ('t, 'e, 'h, 'net, 'l, 'p) plugin_world" where
  "cleanup pf = (\<lambda>(ctx, sv).
     (ctx\<lparr>pc_handles := [], pc_commands := [], pc_tasks := [], pc_provider_ids := [], pc_provider_tokens := []\<rparr>,
      sv\<lparr>sv_bus := fold (unsubscribe (pf_types pf) (pf_packets pf)) (pc_handles ctx) (sv_bus sv),
         sv_commands := fold (unregister (pf_lower pf)) (pc_commands ctx) (sv_commands sv),
         sv_scheduler := fold cancel_task (pc_tasks ctx) (sv_scheduler sv),
         sv_cancelled := fold List.insert (pc_provider_tokens ctx) (sv_cancelled sv),
         sv_router := fold (router_remove (pf_walk pf)) (pc_provider_ids ctx) (sv_router sv)\<rparr>))"

text \<open>\<open>context_factory.rs\<close>; \<open>existing\<close> is the context of the plugin that is still alive, when there is one.\<close>

record plugin_permissions =
  pp_permissions :: "string list"
  pp_trusted :: bool

definition create_context ::
  "(string \<times> plugin_permissions) list \<Rightarrow> (string \<Rightarrow> ('l, 'p) plugin_context option) \<Rightarrow> string \<Rightarrow> ('l, 'p) plugin_context" where
  "create_context configs existing pid =
     (case existing pid of
        Some ctx \<Rightarrow> ctx
      | None \<Rightarrow>
          let perms = (case map_of configs pid of Some p \<Rightarrow> p | None \<Rightarrow> \<lparr>pp_permissions = [], pp_trusted = False\<rparr>)
          in context_impl_new pid
               (if pp_trusted perms then native_trusted else fst (from_config_strings (pp_permissions perms))))"

section \<open>Config providers of a plugin\<close>

datatype api_proxy_mode = ApiPassthrough | ApiZeroCopy | ApiClientOnly | ApiOffline | ApiServerOnly

record api_server_config =
  asc_id :: string
  asc_network :: "string option"
  asc_addresses :: "server_address list"
  asc_domains :: "string list"
  asc_proxy_mode :: api_proxy_mode
  asc_limbo_handlers :: "string list"
  asc_max_players :: u32
  asc_disconnect_message :: "string option"
  asc_send_proxy_protocol :: bool
  asc_has_server_manager :: bool

definition convert_api_to_config :: "api_server_config \<Rightarrow> 'net server_config" where
  "convert_api_to_config api =
     \<lparr>sc_id = Some (asc_id api), sc_name = None, sc_network = asc_network api, sc_domains = asc_domains api,
      sc_addresses = asc_addresses api,
      sc_proxy_mode = (case asc_proxy_mode api of
         ApiPassthrough \<Rightarrow> Passthrough | ApiZeroCopy \<Rightarrow> ZeroCopy | ApiClientOnly \<Rightarrow> ClientOnly
       | ApiOffline \<Rightarrow> Offline | ApiServerOnly \<Rightarrow> ServerOnly),
      sc_forwarding_mode = None, sc_send_proxy_protocol = asc_send_proxy_protocol api, sc_domain_rewrite = NoRewrite,
      sc_motd = \<lparr>motd_online = None, motd_offline = None, motd_sleeping = None, motd_starting = None, motd_crashed = None,
                 motd_stopping = None, motd_unreachable = None\<rparr>,
      sc_server_manager = None, sc_timeouts = None, sc_max_players = asc_max_players api, sc_ip_filter = None,
      sc_disconnect_message = asc_disconnect_message api, sc_limbo_handlers = asc_limbo_handlers api\<rparr>"

definition make_provider_id :: "string \<Rightarrow> string \<Rightarrow> provider_id" where
  "make_provider_id prefix config_id = \<lparr>provider_type = prefix, unique_id = config_id\<rparr>"

datatype 'net provider_event =
    ProviderAdded provider_id "'net server_config"
  | ProviderUpdated provider_id "'net server_config"
  | ProviderRemoved provider_id

datatype plugin_provider_event = PluginAdded api_server_config | PluginUpdated api_server_config | PluginRemoved string

text \<open>The event a provider's sender puts on the channel.\<close>

fun sender_event :: "string \<Rightarrow> plugin_provider_event \<Rightarrow> 'net provider_event" where
  "sender_event prefix (PluginAdded c) = ProviderAdded (make_provider_id prefix (asc_id c)) (convert_api_to_config c)"
| "sender_event prefix (PluginUpdated c) = ProviderUpdated (make_provider_id prefix (asc_id c)) (convert_api_to_config c)"
| "sender_event prefix (PluginRemoved sid) = ProviderRemoved (make_provider_id prefix sid)"

text \<open>One turn of the loop that receives the events of all providers (\<open>provider/registry.rs\<close>).\<close>

fun receive_event ::
  "('t, 'net) platform \<Rightarrow> 'net provider_event \<Rightarrow> 'net domain_router \<Rightarrow> 'net domain_router" where
  "receive_event pf (ProviderAdded pid c) r = router_add (pf_lower pf) (pf_walk pf) pid c r"
| "receive_event pf (ProviderUpdated pid c) r = router_update (pf_lower pf) (pf_walk pf) pid c r"
| "receive_event pf (ProviderRemoved pid) r = router_remove (pf_walk pf) pid r"

record config_provider =
  cp_type :: string
  cp_load_initial :: "string + api_server_config list"

record activated_provider =
  ap_config_ids :: "provider_id list"
  ap_watch_token :: nat

definition provider_prefix :: "string \<Rightarrow> config_provider \<Rightarrow> string" where
  "provider_prefix pid provider = ''plugin:'' @ pid @ '':'' @ cp_type provider"

text \<open>A child token is the next free number.\<close>

fun activate_plugin_providers ::
  "('t, 'net) platform \<Rightarrow> (string \<times> config_provider) list \<Rightarrow> nat \<Rightarrow> 'net domain_router \<Rightarrow>
   (string \<times> activated_provider) list \<times> nat \<times> 'net domain_router" where
  "activate_plugin_providers pf [] tok r = ([], tok, r)"
| "activate_plugin_providers pf ((pid, provider) # ps) tok r =
     (let prefix = provider_prefix pid provider;
          (ids, r) = (case cp_load_initial provider of
              Inr configs \<Rightarrow>
                fold (\<lambda>c (ids, r). let id = make_provider_id prefix (asc_id c)
                                    in (ids @ [id], router_add (pf_lower pf) (pf_walk pf) id (convert_api_to_config c) r))
                  configs ([], r)
            | Inl _ \<Rightarrow> ([], r));
          (results, tok', r) = activate_plugin_providers pf ps (tok + 1) r
      in ((pid, \<lparr>ap_config_ids = ids, ap_watch_token = tok\<rparr>) # results, tok', r))"

section \<open>Plugins and loaders\<close>

record ('t, 'e, 'h, 'l, 'p) plugin =
  pl_metadata :: plugin_metadata
  pl_on_enable :: "('t, 'e, 'h, 'l, 'p) request list \<times> (plugin_error + unit)"
  pl_on_disable :: "('t, 'e, 'h, 'l, 'p) request list \<times> (plugin_error + unit)"

record ('t, 'e, 'h, 'l, 'p) loader =
  ld_name :: string
  ld_discover :: "string + plugin_metadata list"
  ld_on_load :: "string + unit"
  ld_load :: "string \<Rightarrow> string + ('t, 'e, 'h, 'l, 'p) plugin"

text \<open>\<open>static_loader.rs\<close>: the factories by plugin id; a second factory of the same id panics.\<close>

record ('t, 'e, 'h, 'l, 'p) factory =
  fc_metadata :: plugin_metadata
  fc_create :: "('t, 'e, 'h, 'l, 'p) plugin"

type_synonym ('t, 'e, 'h, 'l, 'p) factories = "(string \<times> ('t, 'e, 'h, 'l, 'p) factory) list"

definition static_register ::
  "('t, 'e, 'h, 'l, 'p) factory \<Rightarrow> ('t, 'e, 'h, 'l, 'p) factories \<Rightarrow> ('t, 'e, 'h, 'l, 'p) factories option" where
  "static_register f fs =
     (if map_of fs (plugin_id (fc_metadata f)) \<noteq> None then None
      else Some (AList.update (plugin_id (fc_metadata f)) f fs))"

definition registered_ids ::
  "(string list \<Rightarrow> string list) \<Rightarrow> ('t, 'e, 'h, 'l, 'p) factories \<Rightarrow> string list" where
  "registered_ids order fs = order (map fst fs)"

definition static_discover ::
  "('t, 'e, 'h, 'l, 'p) factories \<Rightarrow> string + plugin_metadata list" where
  "static_discover fs = Ok (map (\<lambda>(_, f). fc_metadata f) fs)"

definition static_load ::
  "('t, 'e, 'h, 'l, 'p) factories \<Rightarrow> string \<Rightarrow> string + ('t, 'e, 'h, 'l, 'p) plugin" where
  "static_load fs pid =
     (case map_of fs pid of
        None \<Rightarrow> Err (''plugin not found: '' @ pid)
      | Some f \<Rightarrow> Ok (fc_create f))"

definition static_loader ::
  "(('t, 'e, 'h, 'l, 'p) factories \<Rightarrow> ('t, 'e, 'h, 'l, 'p) factories) \<Rightarrow> ('t, 'e, 'h, 'l, 'p) factories \<Rightarrow> ('t, 'e, 'h, 'l, 'p) loader" where
  "static_loader order fs =
     \<lparr>ld_name = ''static'', ld_discover = static_discover (order fs), ld_on_load = Ok (), ld_load = static_load fs\<rparr>"

section \<open>The plugin manager\<close>

datatype plugin_state = Loading | Enabled | Disabled | ErrorState string

record ('t, 'e, 'h, 'l, 'p) loaded_plugin =
  lp_plugin :: "('t, 'e, 'h, 'l, 'p) plugin"
  lp_context :: "('l, 'p) plugin_context"
  lp_metadata :: plugin_metadata
  lp_loader_name :: string

record ('t, 'e, 'h, 'l, 'p) plugin_manager =
  pm_loaders :: "('t, 'e, 'h, 'l, 'p) loader list"
  pm_plugins :: "('t, 'e, 'h, 'l, 'p) loaded_plugin list"
  pm_states :: "string \<rightharpoonup> plugin_state"
  pm_load_order :: "string list"
  pm_loader_mapping :: "(string \<times> string) list"
  pm_loaded_loaders :: "string list"

text \<open>The calls the manager makes to loaders, plugins and contexts.\<close>

datatype plugin_call =
    CallOnLoad string | CallLoad string string | CallOnEnable string | CallOnDisable string | CallCleanup string
  | CallUnload string string | CallOnShutdown string

record ('t, 'e, 'h, 'net, 'l, 'p) run =
  run_manager :: "('t, 'e, 'h, 'l, 'p) plugin_manager"
  run_services :: "('t, 'e, 'h, 'net) services"
  run_errors :: "plugin_error list"
  run_calls :: "plugin_call list"

fun plugin_error_display :: "plugin_error \<Rightarrow> string" where
  "plugin_error_display (InitFailed m) = ''plugin initialization failed: '' @ m"
| "plugin_error_display (CustomError m) = m"

definition plugin_manager_new :: "('t, 'e, 'h, 'l, 'p) loader list \<Rightarrow> ('t, 'e, 'h, 'l, 'p) plugin_manager" where
  "plugin_manager_new loaders =
     \<lparr>pm_loaders = loaders, pm_plugins = [], pm_states = Map.empty, pm_load_order = [], pm_loader_mapping = [],
      pm_loaded_loaders = []\<rparr>"

text \<open>The discovered plugins of one loader, and then of all: the metadata so far and the loader of each id.\<close>

fun add_discovered ::
  "string \<Rightarrow> plugin_metadata list \<Rightarrow> plugin_metadata list \<times> (string \<times> string) list \<Rightarrow>
   plugin_error + plugin_metadata list \<times> (string \<times> string) list" where
  "add_discovered loader [] acc = Ok acc"
| "add_discovered loader (m # ms) (found, seen) =
     (case map_of seen (plugin_id m) of
        Some existing \<Rightarrow> Err (InitFailed (''Duplicate plugin id '' @ quoted (plugin_id m) @ '': found in loader ''
                                    @ quoted existing @ '' and '' @ quoted loader))
      | None \<Rightarrow> add_discovered loader ms (found @ [m], AList.update (plugin_id m) loader seen))"

fun discover_loaders ::
  "('t, 'e, 'h, 'l, 'p) loader list \<Rightarrow> plugin_metadata list \<times> (string \<times> string) list \<Rightarrow>
   plugin_error + plugin_metadata list \<times> (string \<times> string) list" where
  "discover_loaders [] acc = Ok acc"
| "discover_loaders (l # ls) acc =
     (case ld_discover l of
        Inl e \<Rightarrow> Err (InitFailed (''Loader '' @ quoted (ld_name l) @ '' discovery failed: '' @ e))
      | Inr ms \<Rightarrow> rbind (add_discovered (ld_name l) ms acc) (discover_loaders ls))"

definition discover_all ::
  "(degrees \<Rightarrow> degrees) \<Rightarrow> ('t, 'e, 'h, 'l, 'p) plugin_manager \<Rightarrow>
   (plugin_error + plugin_metadata list \<times> ('t, 'e, 'h, 'l, 'p) plugin_manager) option" where
  "discover_all iter m =
     (case discover_loaders (pm_loaders m) ([], []) of
        Inl e \<Rightarrow> Some (Err e)
      | Inr (found, seen) \<Rightarrow>
          (case resolve_load_order iter found of
             None \<Rightarrow> None
           | Some (Inl e) \<Rightarrow> Some (Err e)
           | Some (Inr order) \<Rightarrow> Some (Ok (found, m\<lparr>pm_load_order := order, pm_loader_mapping := seen\<rparr>))))"

text \<open>The \<open>on_load\<close> of every loader: the errors, the failed loaders and the others.\<close>

fun load_loaders :: "('t, 'e, 'h, 'l, 'p) loader list \<Rightarrow> plugin_error list \<times> string list \<times> string list" where
  "load_loaders [] = ([], [], [])"
| "load_loaders (l # ls) =
     (let (errors, failed, good) = load_loaders ls
      in case ld_on_load l of
           Inr _ \<Rightarrow> (errors, failed, ld_name l # good)
         | Inl e \<Rightarrow> (InitFailed (''Loader '' @ quoted (ld_name l) @ '' on_load failed: '' @ e) # errors, ld_name l # failed, good))"

definition find_loader :: "string \<Rightarrow> ('t, 'e, 'h, 'l, 'p) loader list \<Rightarrow> ('t, 'e, 'h, 'l, 'p) loader option" where
  "find_loader name ls = find (\<lambda>l. ld_name l = name) ls"

definition set_state :: "string \<Rightarrow> plugin_state \<Rightarrow> ('t, 'e, 'h, 'net, 'l, 'p) run \<Rightarrow> ('t, 'e, 'h, 'net, 'l, 'p) run" where
  "set_state pid s r = r\<lparr>run_manager := (run_manager r)\<lparr>pm_states := (pm_states (run_manager r))(pid \<mapsto> s)\<rparr>\<rparr>"

definition push_error :: "plugin_error \<Rightarrow> ('t, 'e, 'h, 'net, 'l, 'p) run \<Rightarrow> ('t, 'e, 'h, 'net, 'l, 'p) run" where
  "push_error e r = r\<lparr>run_errors := run_errors r @ [e]\<rparr>"

definition push_call :: "plugin_call \<Rightarrow> ('t, 'e, 'h, 'net, 'l, 'p) run \<Rightarrow> ('t, 'e, 'h, 'net, 'l, 'p) run" where
  "push_call c r = r\<lparr>run_calls := run_calls r @ [c]\<rparr>"

text \<open>The part of the loop body from \<open>create_context\<close> on: the plugin is loaded, now it is enabled.\<close>

definition enable_plugin ::
  "('t, 'net) platform \<Rightarrow> (string \<Rightarrow> ('l, 'p) plugin_context) \<Rightarrow> string \<Rightarrow> string \<Rightarrow> ('t, 'e, 'h, 'l, 'p) plugin \<Rightarrow>
   ('t, 'e, 'h, 'net, 'l, 'p) run \<Rightarrow> ('t, 'e, 'h, 'net, 'l, 'p) run" where
  "enable_plugin pf create pid loader_name p r =
     (let r = push_call (CallOnEnable pid) (set_state pid Loading r);
          (ctx, sv) = fold (perform pf) (fst (pl_on_enable p)) (create pid, run_services r)
      in case snd (pl_on_enable p) of
           Inr _ \<Rightarrow>
             (let r = set_state pid Enabled (r\<lparr>run_services := sv\<rparr>)
              in r\<lparr>run_manager := (run_manager r)\<lparr>pm_plugins := pm_plugins (run_manager r) @
                    [\<lparr>lp_plugin = p, lp_context = ctx, lp_metadata = pl_metadata p, lp_loader_name = loader_name\<rparr>]\<rparr>\<rparr>)
         | Inl e \<Rightarrow>
             (let (_, sv) = cleanup pf (ctx, sv)
              in push_error e (push_call (CallCleanup pid)
                   (set_state pid (ErrorState (plugin_error_display e)) (r\<lparr>run_services := sv\<rparr>)))))"

definition load_plugin ::
  "('t, 'net) platform \<Rightarrow> (string \<Rightarrow> ('l, 'p) plugin_context) \<Rightarrow> string list \<Rightarrow> string \<Rightarrow>
   ('t, 'e, 'h, 'net, 'l, 'p) run \<Rightarrow> ('t, 'e, 'h, 'net, 'l, 'p) run" where
  "load_plugin pf create failed pid r =
     (case map_of (pm_loader_mapping (run_manager r)) pid of
        None \<Rightarrow> push_error (InitFailed (''No loader mapping for plugin '' @ quoted pid)) r
      | Some name \<Rightarrow>
          if name \<in> set failed then set_state pid (ErrorState (''loader '' @ quoted name @ '' on_load failed'')) r
          else case find_loader name (pm_loaders (run_manager r)) of
            None \<Rightarrow> push_error (InitFailed (''Loader '' @ quoted name @ '' not found for plugin '' @ quoted pid)) r
          | Some l \<Rightarrow>
              (let r = push_call (CallLoad name pid) r
               in case ld_load l pid of
                    Inl e \<Rightarrow> push_error (InitFailed (''Loader '' @ quoted name @ '' failed to load '' @ quoted pid @ '': '' @ e))
                              (set_state pid (ErrorState e) r)
                  | Inr p \<Rightarrow> enable_plugin pf create pid name p r))"

definition load_and_enable_all ::
  "('t, 'net) platform \<Rightarrow> (string \<Rightarrow> ('l, 'p) plugin_context) \<Rightarrow> ('t, 'e, 'h, 'net, 'l, 'p) run \<Rightarrow> ('t, 'e, 'h, 'net, 'l, 'p) run" where
  "load_and_enable_all pf create r =
     (let m = run_manager r; (errors, failed, good) = load_loaders (pm_loaders m);
          r = r\<lparr>run_errors := errors, run_manager := m\<lparr>pm_loaded_loaders := good\<rparr>,
                run_calls := run_calls r @ map (\<lambda>l. CallOnLoad (ld_name l)) (pm_loaders m)\<rparr>
      in fold (load_plugin pf create failed) (pm_load_order m) r)"

definition disable_plugin ::
  "('t, 'net) platform \<Rightarrow> ('t, 'e, 'h, 'l, 'p) loaded_plugin \<Rightarrow> ('t, 'e, 'h, 'net, 'l, 'p) run \<Rightarrow> ('t, 'e, 'h, 'net, 'l, 'p) run" where
  "disable_plugin pf lp r =
     (let pid = plugin_id (lp_metadata lp)
      in if pm_states (run_manager r) pid \<noteq> Some Enabled then r
         else let r = push_call (CallOnDisable pid) (set_state pid Disabled r);
                  w = fold (perform pf) (fst (pl_on_disable (lp_plugin lp))) (lp_context lp, run_services r);
                  (_, sv) = cleanup pf w
              in push_call (CallCleanup pid) (r\<lparr>run_services := sv\<rparr>))"

definition unload_plugin ::
  "('t, 'e, 'h, 'l, 'p) loaded_plugin \<Rightarrow> ('t, 'e, 'h, 'net, 'l, 'p) run \<Rightarrow> ('t, 'e, 'h, 'net, 'l, 'p) run" where
  "unload_plugin lp r =
     (case find_loader (lp_loader_name lp) (pm_loaders (run_manager r)) of
        Some _ \<Rightarrow> push_call (CallUnload (lp_loader_name lp) (plugin_id (lp_metadata lp))) r
      | None \<Rightarrow> r)"

definition shutdown_loader :: "string \<Rightarrow> ('t, 'e, 'h, 'net, 'l, 'p) run \<Rightarrow> ('t, 'e, 'h, 'net, 'l, 'p) run" where
  "shutdown_loader name r =
     (case find_loader name (pm_loaders (run_manager r)) of
        Some _ \<Rightarrow> push_call (CallOnShutdown name) r
      | None \<Rightarrow> r)"

definition shutdown :: "('t, 'net) platform \<Rightarrow> ('t, 'e, 'h, 'net, 'l, 'p) run \<Rightarrow> ('t, 'e, 'h, 'net, 'l, 'p) run" where
  "shutdown pf r =
     (let plugins = pm_plugins (run_manager r);
          r = r\<lparr>run_manager := (run_manager r)\<lparr>pm_plugins := []\<rparr>\<rparr>;
          r = fold (disable_plugin pf) (rev plugins) r;
          r = fold unload_plugin (rev plugins) r;
          loaded = pm_loaded_loaders (run_manager r);
          r = r\<lparr>run_manager := (run_manager r)\<lparr>pm_loaded_loaders := []\<rparr>\<rparr>
      in fold shutdown_loader (rev loaded) r)"

definition is_plugin_loaded :: "string \<Rightarrow> ('t, 'e, 'h, 'l, 'p) plugin_manager \<Rightarrow> bool" where
  "is_plugin_loaded pid m \<longleftrightarrow> pm_states m pid = Some Enabled"

definition list_plugins :: "('t, 'e, 'h, 'l, 'p) plugin_manager \<Rightarrow> plugin_metadata list" where
  "list_plugins m = map lp_metadata (pm_plugins m)"

text \<open>A request of an enabled plugin while the proxy runs, on the context it was enabled with.\<close>

fun run_request ::
  "('t, 'net) platform \<Rightarrow> string \<Rightarrow> ('t, 'e, 'h, 'l, 'p) request \<Rightarrow> ('t, 'e, 'h, 'l, 'p) loaded_plugin list \<times> ('t, 'e, 'h, 'net) services \<Rightarrow>
   ('t, 'e, 'h, 'l, 'p) loaded_plugin list \<times> ('t, 'e, 'h, 'net) services" where
  "run_request pf pid req ([], sv) = ([], sv)"
| "run_request pf pid req (lp # lps, sv) =
     (if plugin_id (lp_metadata lp) = pid
      then (let (ctx, sv) = perform pf req (lp_context lp, sv) in (lp\<lparr>lp_context := ctx\<rparr> # lps, sv))
      else (let (lps, sv) = run_request pf pid req (lps, sv) in (lp # lps, sv)))"

text \<open>What the proxy takes from the contexts after loading.\<close>

fun collect_limbo_handlers ::
  "('t, 'e, 'h, 'l, 'p) loaded_plugin list \<Rightarrow> 'l list \<times> ('t, 'e, 'h, 'l, 'p) loaded_plugin list" where
  "collect_limbo_handlers [] = ([], [])"
| "collect_limbo_handlers (lp # lps) =
     (let (hs, ctx) = take_limbo_handlers (lp_context lp); (rest, lps) = collect_limbo_handlers lps
      in (hs @ rest, lp\<lparr>lp_context := ctx\<rparr> # lps))"

fun collect_config_providers ::
  "('t, 'e, 'h, 'l, 'p) loaded_plugin list \<Rightarrow> (string \<times> 'p) list \<times> ('t, 'e, 'h, 'l, 'p) loaded_plugin list" where
  "collect_config_providers [] = ([], [])"
| "collect_config_providers (lp # lps) =
     (let (ps, ctx) = take_config_providers (lp_context lp); (rest, lps) = collect_config_providers lps
      in (map (Pair (plugin_id (lp_metadata lp))) ps @ rest, lp\<lparr>lp_context := ctx\<rparr> # lps))"

fun store_activated ::
  "string \<times> activated_provider \<Rightarrow> ('t, 'e, 'h, 'l, 'p) loaded_plugin list \<Rightarrow> ('t, 'e, 'h, 'l, 'p) loaded_plugin list" where
  "store_activated res [] = []"
| "store_activated res (lp # lps) =
     (if plugin_id (lp_metadata lp) = fst res
      then lp\<lparr>lp_context := register_provider_token (ap_watch_token (snd res))
                 (register_active_provider_ids (ap_config_ids (snd res)) (lp_context lp))\<rparr> # lps
      else lp # store_activated res lps)"

definition store_provider_cleanup ::
  "(string \<times> activated_provider) list \<Rightarrow> ('t, 'e, 'h, 'l, 'p) loaded_plugin list \<Rightarrow> ('t, 'e, 'h, 'l, 'p) loaded_plugin list" where
  "store_provider_cleanup results lps = fold store_activated results lps"

text \<open>\<open>plugin_registry_impl.rs\<close>: what plugins can read about each other.\<close>

record plugin_info =
  pi_metadata :: plugin_metadata
  pi_state :: string

definition state_text :: "plugin_state option \<Rightarrow> string" where
  "state_text s =
     (case s of
        None \<Rightarrow> ''unknown''
      | Some Loading \<Rightarrow> ''loading''
      | Some Enabled \<Rightarrow> ''enabled''
      | Some Disabled \<Rightarrow> ''disabled''
      | Some (ErrorState e) \<Rightarrow> ''error: '' @ e)"

definition registry_update_from :: "plugin_metadata list \<Rightarrow> (string \<rightharpoonup> plugin_state) \<Rightarrow> plugin_info list" where
  "registry_update_from plugins states = map (\<lambda>m. \<lparr>pi_metadata = m, pi_state = state_text (states (plugin_id m))\<rparr>) plugins"

definition plugin_info_of :: "string \<Rightarrow> plugin_info list \<Rightarrow> plugin_info option" where
  "plugin_info_of pid infos = find (\<lambda>i. plugin_id (pi_metadata i) = pid) infos"

section \<open>The start of the plugins\<close>

text \<open>
  \<open>main.rs\<close>: the permissions of the configuration, then the plugins, their limbo handlers and
  their config providers.
\<close>

definition plugin_configs_of ::
  "(string \<times> string list) list \<Rightarrow> string list \<Rightarrow> (string \<times> plugin_permissions) list" where
  "plugin_configs_of cfgs static_ids =
     fold (\<lambda>pid m. case map_of m pid of
             Some p \<Rightarrow> AList.update pid (p\<lparr>pp_trusted := True\<rparr>) m
           | None \<Rightarrow> AList.update pid \<lparr>pp_permissions = [], pp_trusted = True\<rparr> m)
       static_ids (map (\<lambda>(pid, perms). (pid, \<lparr>pp_permissions = perms, pp_trusted = False\<rparr>)) cfgs)"

definition start_plugins ::
  "('t, 'net) platform \<Rightarrow> (string \<Rightarrow> ('l, config_provider) plugin_context) \<Rightarrow> nat \<Rightarrow>
   ('t, 'e, 'h, 'net, 'l, config_provider) run \<Rightarrow> 'l list \<times> ('t, 'e, 'h, 'net, 'l, config_provider) run" where
  "start_plugins pf create tok r =
     (let r = load_and_enable_all pf create r;
          (limbo, lps) = collect_limbo_handlers (pm_plugins (run_manager r));
          (providers, lps) = collect_config_providers lps;
          (results, _, router) = activate_plugin_providers pf providers tok (sv_router (run_services r));
          lps = store_provider_cleanup results lps
      in (limbo, r\<lparr>run_manager := (run_manager r)\<lparr>pm_plugins := lps\<rparr>,
                   run_services := (run_services r)\<lparr>sv_router := router\<rparr>\<rparr>))"

definition run_requests ::
  "('t, 'net) platform \<Rightarrow> (string \<times> ('t, 'e, 'h, 'l, 'p) request) list \<Rightarrow> ('t, 'e, 'h, 'net, 'l, 'p) run \<Rightarrow> ('t, 'e, 'h, 'net, 'l, 'p) run" where
  "run_requests pf reqs r =
     (let (lps, sv) = fold (\<lambda>(pid, req). run_request pf pid req) reqs (pm_plugins (run_manager r), run_services r)
      in r\<lparr>run_manager := (run_manager r)\<lparr>pm_plugins := lps\<rparr>, run_services := sv\<rparr>)"

section \<open>Releasing what was registered\<close>

text \<open>
  A registry from which handles are withdrawn one by one: each withdrawal removes the resource of
  its handle and no other.
\<close>

locale releases =
  fixes ok :: "'s \<Rightarrow> bool" and live :: "'s \<Rightarrow> 'k set" and release :: "'h \<Rightarrow> 's \<Rightarrow> 's" and key :: "'h \<Rightarrow> 'k"
  assumes release_live: "ok s \<Longrightarrow> live (release h s) = live s - {key h}"
    and release_ok: "ok s \<Longrightarrow> ok (release h s)"
begin

lemma release_all: "ok s \<Longrightarrow> live (fold release hs s) = live s - key ` set hs \<and> ok (fold release hs s)"
  by (induction hs arbitrary: s) (auto simp: release_live release_ok)

end

definition bus_live :: "('t, 'e) event_bus \<Rightarrow> listener_handle set" where
  "bus_live bus = (\<Union>t. he_handle ` set (or_default (bus_handlers bus) t)) \<union> (\<Union>k. he_handle ` set (or_default (bus_packet_handlers bus) k))"

text \<open>The bus with at least \<open>k\<close> handles left, under iteration orders that visit every key.\<close>

definition bus_room ::
  "('t list \<Rightarrow> 't list) \<Rightarrow> (packet_key list \<Rightarrow> packet_key list) \<Rightarrow> nat \<Rightarrow> ('t, 'e) event_bus \<Rightarrow> bool" where
  "bus_room it ip k bus \<longleftrightarrow> (\<forall>ks. set (it ks) = set ks) \<and> (\<forall>ks. set (ip ks) = set ks)
     \<and> (\<exists>s. bus_refines bus s \<and> snd s + k \<le> 2 ^ 64)"

lemma bus_live_refines: "bus_refines bus (subs, n) \<Longrightarrow> bus_live bus = (\<lambda>s. he_handle (sub_entry s)) ` set subs"
proof -
  assume "bus_refines bus (subs, n)"
  then have "bus_live bus = he_handle ` ((\<Union>t. set (listeners subs (Inl t))) \<union> (\<Union>k. set (listeners subs (Inr k))))"
    by (auto simp: bus_live_def bus_refines_def)
  also have "(\<Union>t. set (listeners subs (Inl t))) \<union> (\<Union>k. set (listeners subs (Inr k))) = sub_entry ` set subs"
  proof -
    have "sub_entry s \<in> (\<Union>t. set (listeners subs (Inl t))) \<union> (\<Union>k. set (listeners subs (Inr k)))" if "s \<in> set subs" for s
      using that by (cases "sub_target s") (force simp: set_listeners)+
    then have "sub_entry ` set subs \<subseteq> (\<Union>t. set (listeners subs (Inl t))) \<union> (\<Union>k. set (listeners subs (Inr k)))" by blast
    moreover have "set (listeners subs t) \<subseteq> sub_entry ` set subs" for t by (auto simp: set_listeners)
    ultimately show ?thesis by blast
  qed
  finally show ?thesis by (simp add: image_image)
qed

lemma bus_room_unsubscribe:
  assumes "bus_room it ip k bus"
  shows "bus_live (unsubscribe it ip h bus) = bus_live bus - {h}" and "bus_room it ip k (unsubscribe it ip h bus)"
proof -
  obtain subs n where r: "bus_refines bus (subs, n)" and n: "n + k \<le> 2 ^ 64" and i: "\<And>ks. set (it ks) = set ks" "\<And>ks. set (ip ks) = set ks"
    using assms unfolding bus_room_def by auto
  let ?subs = "filter (\<lambda>s. he_handle (sub_entry s) \<noteq> h) subs"
  have r': "bus_refines (unsubscribe it ip h bus) (?subs, n)" using bus_refines_remove [OF r i] by simp
  show "bus_live (unsubscribe it ip h bus) = bus_live bus - {h}"
    unfolding bus_live_refines [OF r] bus_live_refines [OF r'] by auto
  show "bus_room it ip k (unsubscribe it ip h bus)"
    unfolding bus_room_def using r' n i by auto
qed

interpretation bus_releases: releases "bus_room it ip k" bus_live "unsubscribe it ip" "\<lambda>h. h" for it ip k
  by unfold_locales (simp_all add: bus_room_unsubscribe)

interpretation command_releases: releases "\<lambda>_. True" "\<lambda>cm. dom (cmd cm)" "unregister lc" lc for lc
  by unfold_locales (auto simp: cmd_unregister)

definition task_handles :: "scheduler \<Rightarrow> task_handle set" where
  "task_handles s = fst ` set (sch_tasks s)"

lemma set_tasks_cancel: "task_handles (cancel_task h s) = task_handles s - {h}"
proof (cases "map_of (sch_tasks s) h")
  case None
  then have "h \<notin> task_handles s" by (simp add: map_of_eq_None_iff task_handles_def)
  with None show ?thesis by (simp add: cancel_task_def)
next
  case (Some t)
  then show ?thesis by (simp add: cancel_task_def task_handles_def flip: set_map) (simp add: delete_keys)
qed

interpretation task_releases: releases "\<lambda>_. True" task_handles cancel_task "\<lambda>h. h"
  by unfold_locales (simp_all add: set_tasks_cancel)

interpretation server_releases: releases "\<lambda>_. True" "\<lambda>r. dom (map_of (router_configs r))" "router_remove iter" "\<lambda>pid. pid" for iter
  by unfold_locales (auto simp: router_remove_fields)

section \<open>What a plugin leaves behind\<close>

datatype resource = Listener listener_handle | CommandName string | Task task_handle | Server provider_id

definition live :: "('t, 'e, 'h, 'net) services \<Rightarrow> resource set" where
  "live sv = {x. case x of
       Listener h \<Rightarrow> h \<in> bus_live (sv_bus sv)
     | CommandName n \<Rightarrow> cmd (sv_commands sv) n \<noteq> None
     | Task h \<Rightarrow> h \<in> task_handles (sv_scheduler sv)
     | Server pid \<Rightarrow> map_of (router_configs (sv_router sv)) pid \<noteq> None}"

definition tracked :: "('t, 'net) platform \<Rightarrow> ('l, 'p) plugin_context \<Rightarrow> resource set" where
  "tracked pf ctx = {x. case x of
       Listener h \<Rightarrow> h \<in> set (pc_handles ctx)
     | CommandName n \<Rightarrow> n \<in> pf_lower pf ` set (pc_commands ctx)
     | Task h \<Rightarrow> h \<in> set (pc_tasks ctx)
     | Server pid \<Rightarrow> pid \<in> set (pc_provider_ids ctx)}"

abbreviation room :: "('t, 'net) platform \<Rightarrow> nat \<Rightarrow> ('t, 'e, 'h, 'net) services \<Rightarrow> bool" where
  "room pf k sv \<equiv> bus_room (pf_types pf) (pf_packets pf) k (sv_bus sv)"

lemma bus_room_le: "bus_room it ip k bus \<Longrightarrow> j \<le> k \<Longrightarrow> bus_room it ip j bus"
  unfolding bus_room_def by fastforce

lemma bus_room_subscribe:
  assumes "bus_room it ip (Suc k) bus"
  shows "bus_live (snd (subscribe t p h bus)) = insert (fst (subscribe t p h bus)) (bus_live bus)"
    and "bus_room it ip k (snd (subscribe t p h bus))"
    and "bus_live (snd (subscribe_packet f p h bus)) = insert (fst (subscribe_packet f p h bus)) (bus_live bus)"
    and "bus_room it ip k (snd (subscribe_packet f p h bus))"
proof -
  obtain subs n where r: "bus_refines bus (subs, n)" and n: "Suc n + k \<le> 2 ^ 64" and i: "\<And>ks. set (it ks) = set ks" "\<And>ks. set (ip ks) = set ks"
    using assms unfolding bus_room_def by auto
  have "n < 2 ^ 64" using n by simp
  note add = bus_refines_add(1) [OF r this, of t p h, unfolded spec_step.simps spec_add_def prod.case]
    bus_refines_add(2) [OF r this, of f p h, unfolded spec_step.simps spec_add_def prod.case]
  have h: "fst (subscribe t p h bus) = of_nat n" "fst (subscribe_packet f p h bus) = of_nat n"
    using r by (simp_all add: subscribe_def subscribe_packet_def next_handle_def insert_handler_def insert_packet_handler_def bus_refines_def)
  show "bus_live (snd (subscribe t p h bus)) = insert (fst (subscribe t p h bus)) (bus_live bus)"
    "bus_live (snd (subscribe_packet f p h bus)) = insert (fst (subscribe_packet f p h bus)) (bus_live bus)"
    unfolding bus_live_refines [OF add(1)] bus_live_refines [OF add(2)] bus_live_refines [OF r] h by simp_all
  have "snd (subs', Suc n) + k \<le> 2 ^ 64" for subs' :: "('a, 'b) subscription list" using n by simp
  then show "bus_room it ip k (snd (subscribe t p h bus))" "bus_room it ip k (snd (subscribe_packet f p h bus))"
    unfolding bus_room_def using add i by blast+
qed

lemma register_names: "dom (cmd (register_with_plugin_id lc n as d h pid cm)) \<subseteq> insert (lc n) (dom (cmd cm))"
  by (auto simp: register_with_plugin_id_def Let_def cmd_unregister update_conv' split: option.splits if_splits)

lemma schedule_tasks: "task_handles (snd (schedule t s)) = insert (fst (schedule t s)) (task_handles s)"
  by (simp add: task_handles_def schedule_def next_task_handle_def dom_update)

lemmas scheduler_defs = delay_def interval_def interval_with_delay_def

lemma all_resource: "(\<forall>x. P x) \<longleftrightarrow> (\<forall>h. P (Listener h)) \<and> (\<forall>n. P (CommandName n)) \<and> (\<forall>h. P (Task h)) \<and> (\<forall>i. P (Server i))"
  by (metis resource.exhaust)

lemma live_subset:
  "live sv' \<subseteq> live sv \<union> tracked pf ctx \<longleftrightarrow> bus_live (sv_bus sv') \<subseteq> bus_live (sv_bus sv) \<union> set (pc_handles ctx)
     \<and> dom (cmd (sv_commands sv')) \<subseteq> dom (cmd (sv_commands sv)) \<union> pf_lower pf ` set (pc_commands ctx)
     \<and> task_handles (sv_scheduler sv') \<subseteq> task_handles (sv_scheduler sv) \<union> set (pc_tasks ctx)
     \<and> dom (map_of (router_configs (sv_router sv'))) \<subseteq> dom (map_of (router_configs (sv_router sv))) \<union> set (pc_provider_ids ctx)"
  unfolding live_def tracked_def subset_iff all_resource by (simp add: domIff)

lemma tracked_subset:
  "tracked pf ctx \<subseteq> tracked pf ctx' \<longleftrightarrow> set (pc_handles ctx) \<subseteq> set (pc_handles ctx')
     \<and> pf_lower pf ` set (pc_commands ctx) \<subseteq> pf_lower pf ` set (pc_commands ctx') \<and> set (pc_tasks ctx) \<subseteq> set (pc_tasks ctx')
     \<and> set (pc_provider_ids ctx) \<subseteq> set (pc_provider_ids ctx')"
  unfolding tracked_def subset_iff all_resource by simp

text \<open>A request adds at most what it tracks.\<close>

lemma perform_live:
  assumes "room pf (Suc k) sv" "perform pf req (ctx, sv) = (ctx', sv')"
  shows "live sv' \<subseteq> live sv \<union> tracked pf ctx' \<and> tracked pf ctx \<subseteq> tracked pf ctx' \<and> room pf k sv'"
  supply r = bus_room_le [OF assms(1), of k, OF le_SucI [OF order_refl]]
proof (cases req)
  case (ReqSubscribe t p h)
  obtain hd bus where sb: "subscribe t p h (sv_bus sv) = (hd, bus)" by fastforce
  with ReqSubscribe assms(2) have e: "ctx' = track hd ctx" "sv' = sv\<lparr>sv_bus := bus\<rparr>" by (simp_all add: tracking_subscribe_def)
  show ?thesis using bus_room_subscribe(1,2) [OF assms(1), of t p h] unfolding live_subset tracked_subset e sb
    by (simp add: track_def le_supI1 subset_insertI subset_insertI2)
next
  case (ReqSubscribePacket f p h)
  obtain hd bus where sb: "subscribe_packet f p h (sv_bus sv) = (hd, bus)" by fastforce
  with ReqSubscribePacket assms(2) have e: "ctx' = track hd ctx" "sv' = sv\<lparr>sv_bus := bus\<rparr>" by (simp_all add: tracking_subscribe_packet_def)
  show ?thesis using bus_room_subscribe(3,4) [OF assms(1), of f p h] unfolding live_subset tracked_subset e sb
    by (simp add: track_def le_supI1 subset_insertI subset_insertI2)
next
  case (ReqUnsubscribe h)
  then have e: "ctx' = ctx" "sv' = sv\<lparr>sv_bus := unsubscribe (pf_types pf) (pf_packets pf) h (sv_bus sv)\<rparr>" using assms(2) by simp_all
  show ?thesis using bus_room_unsubscribe [OF r, of h] unfolding live_subset tracked_subset e by (simp add: le_supI1 subset_insertI subset_insertI2 Diff_subset)
next
  case (ReqRegister n as d h)
  then have e: "ctx' = ctx\<lparr>pc_commands := pc_commands ctx @ [n]\<rparr>"
    "sv' = sv\<lparr>sv_commands := register_with_plugin_id (pf_lower pf) n as d h (pc_plugin_id ctx) (sv_commands sv)\<rparr>"
    using assms(2) by (simp_all add: tracking_register_def)
  show ?thesis using r register_names [of "pf_lower pf" n as d h "pc_plugin_id ctx" "sv_commands sv"]
    unfolding live_subset tracked_subset e by (simp add: le_supI1 subset_insertI subset_insertI2 image_Un) blast
next
  case (ReqUnregister n)
  then have e: "ctx' = ctx" "sv' = sv\<lparr>sv_commands := unregister (pf_lower pf) n (sv_commands sv)\<rparr>" using assms(2) by simp_all
  show ?thesis using r unfolding live_subset tracked_subset e by (simp add: cmd_unregister le_supI1 subset_insertI subset_insertI2 Diff_subset)
next
  case (ReqSchedule t)
  then have e: "ctx' = ctx\<lparr>pc_tasks := pc_tasks ctx @ [fst (schedule t (sv_scheduler sv))]\<rparr>"
      "sv' = sv\<lparr>sv_scheduler := snd (schedule t (sv_scheduler sv))\<rparr>"
    using assms(2) by (cases t; simp add: tracking_schedule_def scheduler_defs case_prod_beta)+
  show ?thesis using r unfolding live_subset tracked_subset e by (simp add: schedule_tasks le_supI1 subset_insertI subset_insertI2)
next
  case (ReqCancel h)
  then have e: "ctx' = ctx" "sv' = sv\<lparr>sv_scheduler := cancel_task h (sv_scheduler sv)\<rparr>" using assms(2) by simp_all
  show ?thesis using r unfolding live_subset tracked_subset e by (simp add: set_tasks_cancel le_supI1 subset_insertI subset_insertI2 Diff_subset)
next
  case (ReqLimboHandler l)
  then have e: "ctx' = register_limbo_handler l ctx" "sv' = sv" using assms(2) by simp_all
  show ?thesis using r unfolding live_subset tracked_subset e by (simp add: register_limbo_handler_def)
next
  case (ReqConfigProvider p)
  then have e: "ctx' = register_config_provider p ctx" "sv' = sv" using assms(2) by simp_all
  show ?thesis using r unfolding live_subset tracked_subset e by (simp add: register_config_provider_def)
qed

lemma perform_all_live:
  "room pf (length reqs + k) sv \<Longrightarrow> fold (perform pf) reqs (ctx, sv) = (ctx', sv') \<Longrightarrow>
     live sv' \<subseteq> live sv \<union> tracked pf ctx' \<and> tracked pf ctx \<subseteq> tracked pf ctx' \<and> room pf k sv'"
proof (induction reqs arbitrary: ctx sv)
  case (Cons req reqs)
  obtain ctx1 sv1 where p: "perform pf req (ctx, sv) = (ctx1, sv1)" by fastforce
  have "room pf (Suc (length reqs + k)) sv" using Cons.prems(1) by simp
  note s = perform_live [OF this p]
  then show ?case using Cons.IH [of sv1 ctx1] Cons.prems(2) p by auto
qed simp

text \<open>Cleanup removes exactly what is tracked.\<close>

lemma cleanup_live:
  assumes "room pf k sv" "cleanup pf (ctx, sv) = (ctx', sv')"
  shows "live sv' = live sv - tracked pf ctx" "tracked pf ctx' = {}" "room pf k sv'"
    "set (sv_cancelled sv') = set (sv_cancelled sv) \<union> set (pc_provider_tokens ctx)" "pc_provider_tokens ctx' = []"
proof -
  note rel = bus_releases.release_all [OF assms(1), of "pc_handles ctx"]
    command_releases.release_all [OF TrueI, of "pf_lower pf" "pc_commands ctx" "sv_commands sv"]
    task_releases.release_all [OF TrueI, of "pc_tasks ctx" "sv_scheduler sv"]
    server_releases.release_all [OF TrueI, of "pf_walk pf" "pc_provider_ids ctx" "sv_router sv"]
  have x: "x \<in> live sv' \<longleftrightarrow> x \<in> live sv - tracked pf ctx" for x
    using assms(2) rel by (cases x) (auto simp: cleanup_def live_def tracked_def domIff set_eq_iff)
  then show "live sv' = live sv - tracked pf ctx" by blast
  show "tracked pf ctx' = {}" "room pf k sv'" "pc_provider_tokens ctx' = []"
    using assms(2) rel by (auto simp: cleanup_def tracked_def split: resource.splits)
  show "set (sv_cancelled sv') = set (sv_cancelled sv) \<union> set (pc_provider_tokens ctx)"
    using assms(2) by (auto simp: cleanup_def set_fold_insert)
qed

section \<open>The life of the plugins\<close>

text \<open>The plugin a manager gets for an id, and whether it comes up.\<close>

definition plugin_of :: "('t, 'e, 'h, 'l, 'p) plugin_manager \<Rightarrow> string \<Rightarrow> ('t, 'e, 'h, 'l, 'p) plugin option" where
  "plugin_of m pid =
     (case map_of (pm_loader_mapping m) pid of
        None \<Rightarrow> None
      | Some name \<Rightarrow>
          if name \<in> set (fst (snd (load_loaders (pm_loaders m)))) then None
          else case find_loader name (pm_loaders m) of
            None \<Rightarrow> None
          | Some l \<Rightarrow> (case ld_load l pid of Inl _ \<Rightarrow> None | Inr p \<Rightarrow> Some p))"

definition starts :: "('t, 'e, 'h, 'l, 'p) plugin_manager \<Rightarrow> string \<Rightarrow> bool" where
  "starts m pid = (case plugin_of m pid of None \<Rightarrow> False | Some p \<Rightarrow> snd (pl_on_enable p) = Inr ())"

text \<open>The most handles the requests of a plugin can use.\<close>

definition request_count :: "('t, 'e, 'h, 'l, 'p) plugin_manager \<Rightarrow> string \<Rightarrow> nat" where
  "request_count m pid =
     (case plugin_of m pid of None \<Rightarrow> 0 | Some p \<Rightarrow> length (fst (pl_on_enable p)) + length (fst (pl_on_disable p)))"

abbreviation lp_id :: "('t, 'e, 'h, 'l, 'p) loaded_plugin \<Rightarrow> string" where
  "lp_id lp \<equiv> plugin_id (lp_metadata lp)"

definition held :: "('t, 'net) platform \<Rightarrow> ('t, 'e, 'h, 'l, 'p) loaded_plugin list \<Rightarrow> resource set" where
  "held pf lps = (\<Union>lp \<in> set lps. tracked pf (lp_context lp))"

definition disable_count :: "('t, 'e, 'h, 'l, 'p) loaded_plugin list \<Rightarrow> nat" where
  "disable_count lps = (\<Sum>lp \<leftarrow> lps. length (fst (pl_on_disable (lp_plugin lp))))"

text \<open>Nothing but \<open>B\<close> and what the contexts track is live, and \<open>k\<close> more requests fit.\<close>

definition accounted ::
  "('t, 'net) platform \<Rightarrow> resource set \<Rightarrow> nat \<Rightarrow> ('t, 'e, 'h, 'l, 'p) loaded_plugin list \<Rightarrow> ('t, 'e, 'h, 'net) services \<Rightarrow> bool" where
  "accounted pf B k lps sv \<longleftrightarrow> live sv \<subseteq> B \<union> held pf lps \<and> room pf (k + disable_count lps) sv"

lemma held_simps [simp]: "held pf [] = {}" "held pf (lp # lps) = tracked pf (lp_context lp) \<union> held pf lps"
  "held pf (lps @ lps') = held pf lps \<union> held pf lps'"
  by (auto simp: held_def)

lemma disable_count_simps [simp]: "disable_count [] = 0"
  "disable_count (lp # lps) = length (fst (pl_on_disable (lp_plugin lp))) + disable_count lps"
  "disable_count (lps @ lps') = disable_count lps + disable_count lps'"
  by (simp_all add: disable_count_def)

lemmas run_defs = set_state_def push_error_def push_call_def

text \<open>The loop body of \<open>load_and_enable_all\<close> by what the plugin turns out to be.\<close>

lemma load_plugin_cases:
  assumes "pm_loaders (run_manager r) = pm_loaders m" "pm_loader_mapping (run_manager r) = pm_loader_mapping m"
    and "failed = fst (snd (load_loaders (pm_loaders m)))"
  obtains (absent) "plugin_of m pid = None" "run_services (load_plugin pf create failed pid r) = run_services r"
      "pm_plugins (run_manager (load_plugin pf create failed pid r)) = pm_plugins (run_manager r)"
      "\<And>p. pm_states (run_manager (load_plugin pf create failed pid r)) p = Some Enabled \<Longrightarrow> pm_states (run_manager r) p = Some Enabled"
      "\<And>p. p \<noteq> pid \<Longrightarrow> pm_states (run_manager (load_plugin pf create failed pid r)) p = pm_states (run_manager r) p"
    | (present) p l where "plugin_of m pid = Some p" "l \<in> set (pm_loaders m)" "ld_load l pid = Inr p"
      "load_plugin pf create failed pid r = enable_plugin pf create pid (ld_name l) p (push_call (CallLoad (ld_name l) pid) r)"
proof (cases "map_of (pm_loader_mapping m) pid")
  case None
  then show thesis by (intro absent) (simp_all add: plugin_of_def load_plugin_def assms run_defs)
next
  case (Some name)
  note n = this
  show thesis
  proof (cases "name \<in> set failed \<or> find_loader name (pm_loaders m) = None")
    case True
    then show thesis using n
      by (intro absent) (auto simp: plugin_of_def load_plugin_def assms run_defs split: option.splits if_splits)
  next
    case False
    then obtain l where l: "find_loader name (pm_loaders m) = Some l" "name \<notin> set failed" by auto
    then have l': "l \<in> set (pm_loaders m)" "ld_name l = name" by (auto simp: find_loader_def find_Some_iff)
    show thesis
    proof (cases "ld_load l pid")
      case (Inl e)
      then show thesis using n l
        by (intro absent) (auto simp: plugin_of_def load_plugin_def assms run_defs split: if_splits)
    next
      case (Inr p)
      then show thesis using n l l' by (intro present [of p l]) (simp_all add: plugin_of_def load_plugin_def assms)
    qed
  qed
qed

text \<open>Enabling accounts for everything: what a plugin that fails has registered is withdrawn again.\<close>

lemma enable_plugin_accounted:
  assumes "accounted pf B (length (fst (pl_on_enable p)) + length (fst (pl_on_disable p)) + k) (pm_plugins (run_manager r)) (run_services r)"
  shows "accounted pf B k (pm_plugins (run_manager (enable_plugin pf create pid name p r)))
           (run_services (enable_plugin pf create pid name p r))"
proof -
  let ?n = "length (fst (pl_on_disable p)) + k + disable_count (pm_plugins (run_manager r))"
  obtain ctx sv where w: "fold (perform pf) (fst (pl_on_enable p)) (create pid, run_services r) = (ctx, sv)" by fastforce
  have "room pf (length (fst (pl_on_enable p)) + ?n) (run_services r)" using assms by (simp add: accounted_def add_ac)
  note s = perform_all_live [OF this w]
  have live: "live (run_services r) \<subseteq> B \<union> held pf (pm_plugins (run_manager r))" using assms by (simp add: accounted_def)
  show ?thesis
  proof (cases "snd (pl_on_enable p)")
    case (Inl e)
    obtain ctx' sv' where c: "cleanup pf (ctx, sv) = (ctx', sv')" by fastforce
    have "room pf (k + disable_count (pm_plugins (run_manager r))) sv" using s bus_room_le by fastforce
    note cl = cleanup_live [OF this c]
    then show ?thesis using Inl w c s live by (auto simp: enable_plugin_def accounted_def run_defs)
  next
    case (Inr u)
    then show ?thesis using w s live by (auto simp: enable_plugin_def accounted_def run_defs add_ac)
  qed
qed

lemma enable_plugin_states:
  assumes "plugin_id (pl_metadata p) = pid"
  shows "map lp_id (pm_plugins (run_manager (enable_plugin pf create pid name p r))) =
      map lp_id (pm_plugins (run_manager r)) @ (if snd (pl_on_enable p) = Inr () then [pid] else [])"
    and "q \<noteq> pid \<Longrightarrow> pm_states (run_manager (enable_plugin pf create pid name p r)) q = pm_states (run_manager r) q"
    and "pm_states (run_manager (enable_plugin pf create pid name p r)) pid = Some Enabled \<longleftrightarrow> snd (pl_on_enable p) = Inr ()"
    and "lp \<in> set (pm_plugins (run_manager (enable_plugin pf create pid name p r))) \<Longrightarrow>
      lp \<in> set (pm_plugins (run_manager r)) \<or> lp_loader_name lp = name"
  using assms by (auto simp: enable_plugin_def run_defs Let_def split: prod.splits sum.splits)

lemma load_plugin_fields [simp]:
  "pm_loaders (run_manager (load_plugin pf create failed pid r)) = pm_loaders (run_manager r)"
  "pm_loader_mapping (run_manager (load_plugin pf create failed pid r)) = pm_loader_mapping (run_manager r)"
  "pm_loaded_loaders (run_manager (load_plugin pf create failed pid r)) = pm_loaded_loaders (run_manager r)"
  by (simp_all add: load_plugin_def enable_plugin_def run_defs Let_def split: option.split sum.split prod.split)

lemma load_all_accounted:
  assumes "failed = fst (snd (load_loaders (pm_loaders m)))"
  shows "pm_loaders (run_manager r) = pm_loaders m \<Longrightarrow> pm_loader_mapping (run_manager r) = pm_loader_mapping m \<Longrightarrow>
     accounted pf B ((\<Sum>pid \<leftarrow> pids. request_count m pid) + k) (pm_plugins (run_manager r)) (run_services r) \<Longrightarrow>
     accounted pf B k (pm_plugins (run_manager (fold (load_plugin pf create failed) pids r)))
       (run_services (fold (load_plugin pf create failed) pids r))"
proof (induction pids arbitrary: r)
  case (Cons pid pids)
  let ?r = "load_plugin pf create failed pid r" and ?k = "(\<Sum>pid \<leftarrow> pids. request_count m pid) + k"
  have "accounted pf B ?k (pm_plugins (run_manager ?r)) (run_services ?r)"
  proof (rule load_plugin_cases [OF Cons.prems(1,2) assms, of pid pf create], goal_cases)
    case 1
    with Cons.prems(3) show ?case by (simp add: request_count_def)
  next
    case (2 p l)
    have "accounted pf B (length (fst (pl_on_enable p)) + length (fst (pl_on_disable p)) + ?k)
        (pm_plugins (run_manager (push_call (CallLoad (ld_name l) pid) r))) (run_services (push_call (CallLoad (ld_name l) pid) r))"
      using Cons.prems(3) 2(1) by (simp add: request_count_def push_call_def add_ac)
    from enable_plugin_accounted [OF this] show ?case unfolding 2(4) .
  qed
  then show ?case using Cons.IH [of ?r] Cons.prems(1,2) by simp
qed simp

definition honest :: "('t, 'e, 'h, 'l, 'p) loader list \<Rightarrow> bool" where
  "honest loaders \<longleftrightarrow> (\<forall>l \<in> set loaders. \<forall>pid p. ld_load l pid = Inr p \<longrightarrow> plugin_id (pl_metadata p) = pid)"

lemma load_plugin_states:
  assumes "pm_loaders (run_manager r) = pm_loaders m" "pm_loader_mapping (run_manager r) = pm_loader_mapping m"
    and "failed = fst (snd (load_loaders (pm_loaders m)))" and "honest (pm_loaders m)" "pm_states (run_manager r) pid \<noteq> Some Enabled"
  shows "map lp_id (pm_plugins (run_manager (load_plugin pf create failed pid r))) =
      map lp_id (pm_plugins (run_manager r)) @ (if starts m pid then [pid] else [])
    \<and> (\<forall>q. q \<noteq> pid \<longrightarrow> pm_states (run_manager (load_plugin pf create failed pid r)) q = pm_states (run_manager r) q)
    \<and> (pm_states (run_manager (load_plugin pf create failed pid r)) pid = Some Enabled \<longleftrightarrow> starts m pid)
    \<and> (\<forall>lp \<in> set (pm_plugins (run_manager (load_plugin pf create failed pid r))).
         lp \<in> set (pm_plugins (run_manager r)) \<or> lp_loader_name lp \<in> ld_name ` set (pm_loaders m))"
proof (rule load_plugin_cases [OF assms(1-3), of pid pf create], goal_cases)
  case 1
  then show ?case using assms(5) by (auto simp: starts_def)
next
  case (2 p l)
  have "plugin_id (pl_metadata p) = pid" using assms(4) 2(2,3) by (auto simp: honest_def)
  note e = enable_plugin_states [OF this, where pf = pf and create = create and name = "ld_name l"
      and r = "push_call (CallLoad (ld_name l) pid) r"]
  show ?case unfolding 2(4) using e 2(1,2) by (auto simp: starts_def push_call_def)
qed

lemma load_all_states:
  assumes "failed = fst (snd (load_loaders (pm_loaders m)))" "honest (pm_loaders m)"
  shows "pm_loaders (run_manager r) = pm_loaders m \<Longrightarrow> pm_loader_mapping (run_manager r) = pm_loader_mapping m \<Longrightarrow>
     distinct pids \<Longrightarrow> (\<And>p. p \<in> set pids \<Longrightarrow> pm_states (run_manager r) p \<noteq> Some Enabled) \<Longrightarrow>
     map lp_id (pm_plugins (run_manager (fold (load_plugin pf create failed) pids r))) =
        map lp_id (pm_plugins (run_manager r)) @ filter (starts m) pids
     \<and> (\<forall>q. (pm_states (run_manager (fold (load_plugin pf create failed) pids r)) q = Some Enabled) =
         (if q \<in> set pids then starts m q else pm_states (run_manager r) q = Some Enabled))
     \<and> (\<forall>lp \<in> set (pm_plugins (run_manager (fold (load_plugin pf create failed) pids r))).
         lp \<in> set (pm_plugins (run_manager r)) \<or> lp_loader_name lp \<in> ld_name ` set (pm_loaders m))"
proof (induction pids arbitrary: r)
  case (Cons pid pids)
  let ?r = "load_plugin pf create failed pid r"
  have "pm_states (run_manager r) pid \<noteq> Some Enabled" using Cons.prems(4) by simp
  note s = load_plugin_states [OF Cons.prems(1,2) assms this, of pf create]
  have "pm_states (run_manager ?r) p \<noteq> Some Enabled" if "p \<in> set pids" for p
    using s Cons.prems(3) Cons.prems(4) [of p] that by (cases "p = pid") auto
  with Cons.IH [of ?r] Cons.prems(1-3) have
    "map lp_id (pm_plugins (run_manager (fold (load_plugin pf create failed) pids ?r))) =
        map lp_id (pm_plugins (run_manager ?r)) @ filter (starts m) pids
     \<and> (\<forall>q. (pm_states (run_manager (fold (load_plugin pf create failed) pids ?r)) q = Some Enabled) =
         (if q \<in> set pids then starts m q else pm_states (run_manager ?r) q = Some Enabled))
     \<and> (\<forall>lp \<in> set (pm_plugins (run_manager (fold (load_plugin pf create failed) pids ?r))).
         lp \<in> set (pm_plugins (run_manager ?r)) \<or> lp_loader_name lp \<in> ld_name ` set (pm_loaders m))" by simp
  with s Cons.prems(3) show ?case by (auto simp del: fun_upd_apply)
qed simp

text \<open>Disabling: each plugin that is enabled gets \<open>on_disable\<close> and then its cleanup, whatever \<open>on_disable\<close> answers.\<close>

lemma disable_plugin_run:
  assumes "pm_states (run_manager r) (lp_id lp) = Some Enabled"
    and w: "fold (perform pf) (fst (pl_on_disable (lp_plugin lp))) (lp_context lp, run_services r) = (ctx, sv)" "cleanup pf (ctx, sv) = (ctx', sv')"
  shows "disable_plugin pf lp r = push_call (CallCleanup (lp_id lp))
      ((push_call (CallOnDisable (lp_id lp)) (set_state (lp_id lp) Disabled r))\<lparr>run_services := sv'\<rparr>)"
  using assms by (simp add: disable_plugin_def run_defs Let_def)

lemma disable_plugin_accounted:
  assumes "pm_states (run_manager r) (lp_id lp) = Some Enabled" "accounted pf B k (lp # lps) (run_services r)"
  shows "accounted pf B k lps (run_services (disable_plugin pf lp r))"
proof -
  let ?reqs = "fst (pl_on_disable (lp_plugin lp))"
  obtain ctx sv where w: "fold (perform pf) ?reqs (lp_context lp, run_services r) = (ctx, sv)" by fastforce
  obtain ctx' sv' where c: "cleanup pf (ctx, sv) = (ctx', sv')" by fastforce
  have "room pf (length ?reqs + (k + disable_count lps)) (run_services r)" using assms(2) by (simp add: accounted_def add_ac)
  note s = perform_all_live [OF this w]
  then have "room pf (k + disable_count lps) sv" by simp
  note cl = cleanup_live [OF this c]
  have "live (run_services r) \<subseteq> B \<union> (tracked pf (lp_context lp) \<union> held pf lps)" using assms(2) by (simp add: accounted_def)
  then have "live sv' \<subseteq> B \<union> held pf lps" using s unfolding cl(1) by blast
  then show ?thesis
    unfolding disable_plugin_run [OF assms(1) w c] accounted_def using cl(3) by (simp add: run_defs)
qed

lemma disable_plugin_calls:
  assumes "pm_states (run_manager r) (lp_id lp) = Some Enabled"
  shows "run_calls (disable_plugin pf lp r) = run_calls r @ [CallOnDisable (lp_id lp), CallCleanup (lp_id lp)]"
    and "run_manager (disable_plugin pf lp r) = (run_manager r)\<lparr>pm_states := (pm_states (run_manager r))(lp_id lp \<mapsto> Disabled)\<rparr>"
proof -
  obtain ctx sv where w: "fold (perform pf) (fst (pl_on_disable (lp_plugin lp))) (lp_context lp, run_services r) = (ctx, sv)" by fastforce
  obtain ctx' sv' where c: "cleanup pf (ctx, sv) = (ctx', sv')" by fastforce
  show "run_calls (disable_plugin pf lp r) = run_calls r @ [CallOnDisable (lp_id lp), CallCleanup (lp_id lp)]"
    and "run_manager (disable_plugin pf lp r) = (run_manager r)\<lparr>pm_states := (pm_states (run_manager r))(lp_id lp \<mapsto> Disabled)\<rparr>"
    unfolding disable_plugin_run [OF assms w c] by (simp_all add: run_defs)
qed

lemma disable_all:
  "distinct (map lp_id lps) \<Longrightarrow> (\<And>lp. lp \<in> set lps \<Longrightarrow> pm_states (run_manager r) (lp_id lp) = Some Enabled) \<Longrightarrow>
   (accounted pf B k lps (run_services r) \<longrightarrow> live (run_services (fold (disable_plugin pf) lps r)) \<subseteq> B)
   \<and> run_calls (fold (disable_plugin pf) lps r) =
        run_calls r @ concat (map (\<lambda>lp. [CallOnDisable (lp_id lp), CallCleanup (lp_id lp)]) lps)
   \<and> run_manager (fold (disable_plugin pf) lps r) =
        (run_manager r)\<lparr>pm_states := (\<lambda>p. if p \<in> lp_id ` set lps then Some Disabled else pm_states (run_manager r) p)\<rparr>"
proof (induction lps arbitrary: r)
  case (Cons lp lps)
  have en: "pm_states (run_manager r) (lp_id lp) = Some Enabled" using Cons.prems(2) by simp
  note d = disable_plugin_accounted [OF en] disable_plugin_calls [OF en]
  have "pm_states (run_manager (disable_plugin pf lp r)) (lp_id lp') = Some Enabled" if "lp' \<in> set lps" for lp'
  proof -
    have "lp_id lp' \<noteq> lp_id lp" using Cons.prems(1) that by (auto simp: image_iff)
    then show ?thesis using Cons.prems(2) [of lp'] that unfolding d(3) by simp
  qed
  with Cons.IH [of "disable_plugin pf lp r"] Cons.prems(1) d(1) show ?case
    unfolding d(2,3) by (auto simp: fun_eq_iff)
qed (simp add: accounted_def)

lemma unload_all:
  "(\<And>lp. lp \<in> set lps \<Longrightarrow> lp_loader_name lp \<in> ld_name ` set (pm_loaders (run_manager r))) \<Longrightarrow>
   fold unload_plugin lps r = r\<lparr>run_calls := run_calls r @ map (\<lambda>lp. CallUnload (lp_loader_name lp) (lp_id lp)) lps\<rparr>"
proof (induction lps arbitrary: r)
  case (Cons lp lps)
  obtain l where "find_loader (lp_loader_name lp) (pm_loaders (run_manager r)) = Some l"
    using Cons.prems [of lp] by (fastforce simp: find_loader_def find_None_iff)
  then have "unload_plugin lp r = push_call (CallUnload (lp_loader_name lp) (lp_id lp)) r" by (simp add: unload_plugin_def)
  with Cons.IH [of "unload_plugin lp r"] Cons.prems show ?case by (simp add: push_call_def)
qed simp

lemma shutdown_loaders:
  "(\<And>n. n \<in> set names \<Longrightarrow> n \<in> ld_name ` set (pm_loaders (run_manager r))) \<Longrightarrow>
   fold shutdown_loader names r = r\<lparr>run_calls := run_calls r @ map CallOnShutdown names\<rparr>"
proof (induction names arbitrary: r)
  case (Cons n names)
  obtain l where "find_loader n (pm_loaders (run_manager r)) = Some l"
    using Cons.prems [of n] by (fastforce simp: find_loader_def find_None_iff)
  then have "shutdown_loader n r = push_call (CallOnShutdown n) r" by (simp add: shutdown_loader_def)
  with Cons.IH [of "shutdown_loader n r"] Cons.prems show ?case by (simp add: push_call_def)
qed simp

section \<open>From start to shutdown\<close>

text \<open>What the steps between keep of the loaded plugins: everything but their contexts.\<close>

definition same_plugins :: "('t, 'e, 'h, 'l, 'p) loaded_plugin list \<Rightarrow> ('t, 'e, 'h, 'l, 'p) loaded_plugin list \<Rightarrow> bool" where
  "same_plugins lps lps' \<longleftrightarrow> map lp_metadata lps' = map lp_metadata lps \<and> map lp_loader_name lps' = map lp_loader_name lps
     \<and> map lp_plugin lps' = map lp_plugin lps"

lemma same_plugins_refl [simp]: "same_plugins lps lps"
  by (simp add: same_plugins_def)

lemma same_plugins_trans: "same_plugins a b \<Longrightarrow> same_plugins b c \<Longrightarrow> same_plugins a c"
  by (simp add: same_plugins_def)

lemma same_plugins_Cons:
  "same_plugins (lp # lps) (lp' # lps') \<longleftrightarrow> lp_metadata lp' = lp_metadata lp \<and> lp_loader_name lp' = lp_loader_name lp
     \<and> lp_plugin lp' = lp_plugin lp \<and> same_plugins lps lps'"
  by (auto simp: same_plugins_def)

lemma same_pluginsD:
  assumes "same_plugins lps lps'"
  shows "map lp_id lps' = map lp_id lps" "disable_count lps' = disable_count lps" "lp_loader_name ` set lps' = lp_loader_name ` set lps"
proof -
  have "map lp_id lps' = map plugin_id (map lp_metadata lps')" by simp
  also have "\<dots> = map lp_id lps" using assms by (simp add: same_plugins_def)
  finally show "map lp_id lps' = map lp_id lps" .
  have "disable_count lps' = sum_list (map (\<lambda>p. length (fst (pl_on_disable p))) (map lp_plugin lps'))"
    by (simp add: disable_count_def o_def)
  also have "\<dots> = disable_count lps" using assms by (simp add: same_plugins_def disable_count_def o_def)
  finally show "disable_count lps' = disable_count lps" .
  show "lp_loader_name ` set lps' = lp_loader_name ` set lps" using assms by (metis same_plugins_def set_map)
qed

lemma collect_limbo_same:
  "collect_limbo_handlers lps = (hs, lps') \<Longrightarrow> same_plugins lps lps' \<and> held pf lps' = held pf lps"
proof (induction lps arbitrary: hs lps')
  case (Cons lp lps)
  obtain rest lps1 where c: "collect_limbo_handlers lps = (rest, lps1)" by fastforce
  have "tracked pf (snd (take_limbo_handlers (lp_context lp))) = tracked pf (lp_context lp)"
    by (rule equalityI) (simp_all add: take_limbo_handlers_def tracked_subset)
  with Cons.IH [OF c] Cons.prems c show ?case by (auto simp: same_plugins_Cons take_limbo_handlers_def)
qed simp

lemma collect_providers_same:
  "collect_config_providers lps = (ps, lps') \<Longrightarrow> same_plugins lps lps' \<and> held pf lps' = held pf lps \<and> fst ` set ps \<subseteq> lp_id ` set lps"
proof (induction lps arbitrary: ps lps')
  case (Cons lp lps)
  obtain rest lps1 where c: "collect_config_providers lps = (rest, lps1)" by fastforce
  have "tracked pf (snd (take_config_providers (lp_context lp))) = tracked pf (lp_context lp)"
    by (rule equalityI) (simp_all add: take_config_providers_def tracked_subset)
  with Cons.IH [OF c] Cons.prems c show ?case by (auto simp: same_plugins_Cons take_config_providers_def image_subset_iff)
qed simp

text \<open>The servers that activation adds are listed in its results.\<close>

lemma load_initial_dom:
  "fold (\<lambda>c (ids, r). let i = make_provider_id prefix (asc_id c) in (ids @ [i], router_add lc iter i (convert_api_to_config c) r))
     configs (ids0, r0) = (ids, r) \<Longrightarrow>
   dom (map_of (router_configs r)) \<subseteq> dom (map_of (router_configs r0)) \<union> set ids \<and> set ids0 \<subseteq> set ids"
proof (induction configs arbitrary: ids0 r0)
  case (Cons c configs)
  let ?i = "make_provider_id prefix (asc_id c)"
  have "dom (map_of (router_configs r)) \<subseteq> dom (map_of (router_configs (router_add lc iter ?i (convert_api_to_config c) r0))) \<union> set ids
      \<and> set (ids0 @ [?i]) \<subseteq> set ids"
    by (rule Cons.IH) (use Cons.prems in \<open>simp add: Let_def\<close>)
  then show ?case by (auto simp: router_add_fields)
qed simp

lemma activate_dom:
  "activate_plugin_providers pf ps tok r = (results, tok', r') \<Longrightarrow>
     dom (map_of (router_configs r')) \<subseteq> dom (map_of (router_configs r)) \<union> (\<Union>res \<in> set results. set (ap_config_ids (snd res)))
     \<and> map fst results = map fst ps"
proof (induction ps arbitrary: tok r results tok' r')
  case (Cons pp ps)
  obtain pid provider where pp: "pp = (pid, provider)" by fastforce
  obtain ids r1 where i: "(case cp_load_initial provider of
              Inr configs \<Rightarrow>
                fold (\<lambda>c (ids, r). let id = make_provider_id (provider_prefix pid provider) (asc_id c)
                                    in (ids @ [id], router_add (pf_lower pf) (pf_walk pf) id (convert_api_to_config c) r))
                  configs ([], r)
            | Inl _ \<Rightarrow> ([], r)) = (ids, r1)" by fastforce
  obtain rest tok1 r2 where a: "activate_plugin_providers pf ps (tok + 1) r1 = (rest, tok1, r2)" by (rule prod_cases3)
  have d: "dom (map_of (router_configs r1)) \<subseteq> dom (map_of (router_configs r)) \<union> set ids"
    using i load_initial_dom [of "provider_prefix pid provider" "pf_lower pf" "pf_walk pf" _ "[]" r ids r1]
    by (cases "cp_load_initial provider") auto
  have e: "results = (pid, \<lparr>ap_config_ids = ids, ap_watch_token = tok\<rparr>) # rest" "r' = r2"
    using Cons.prems i a unfolding pp by (simp_all add: Let_def)
  show ?case using Cons.IH [OF a] d unfolding pp e by (simp only: list.map list.set UN_insert fst_conv snd_conv activated_provider.simps) blast
qed simp

lemma store_activated_held:
  "same_plugins lps (store_activated res lps) \<and> held pf lps \<subseteq> held pf (store_activated res lps)
     \<and> (fst res \<in> lp_id ` set lps \<longrightarrow> Server ` set (ap_config_ids (snd res)) \<subseteq> held pf (store_activated res lps))"
proof (induction lps)
  case (Cons lp lps)
  have "tracked pf (lp_context lp) \<union> Server ` set (ap_config_ids (snd res)) =
      tracked pf (register_provider_token (ap_watch_token (snd res)) (register_active_provider_ids (ap_config_ids (snd res)) (lp_context lp)))"
    by (auto simp: tracked_def register_provider_token_def register_active_provider_ids_def split: resource.splits)
  with Cons show ?case by (auto simp: same_plugins_Cons)
qed simp

lemma store_cleanup_held:
  "same_plugins lps (store_provider_cleanup results lps) \<and> held pf lps \<subseteq> held pf (store_provider_cleanup results lps)
     \<and> (fst ` set results \<subseteq> lp_id ` set lps \<longrightarrow>
          (\<Union>res \<in> set results. Server ` set (ap_config_ids (snd res))) \<subseteq> held pf (store_provider_cleanup results lps))"
  unfolding store_provider_cleanup_def
proof (induction results arbitrary: lps)
  case (Cons res results)
  let ?lps = "store_activated res lps"
  note s = store_activated_held [of lps res pf] and ih = Cons.IH [of ?lps]
  have "lp_id ` set ?lps = lp_id ` set lps" using s same_pluginsD(1) by (metis set_map)
  then show ?case using s ih same_plugins_trans [of lps ?lps] by auto
qed simp

lemma run_request_accounted:
  "run_request pf pid req (lps, sv) = (lps', sv') \<Longrightarrow> room pf (Suc k) sv \<Longrightarrow>
     same_plugins lps lps' \<and> live sv' \<subseteq> live sv \<union> held pf lps' \<and> held pf lps \<subseteq> held pf lps' \<and> room pf k sv'"
proof (induction lps arbitrary: lps')
  case (Cons lp lps)
  show ?case
  proof (cases "lp_id lp = pid")
    case True
    obtain ctx sv1 where p: "perform pf req (lp_context lp, sv) = (ctx, sv1)" by fastforce
    with Cons.prems(1) True have "lps' = lp\<lparr>lp_context := ctx\<rparr> # lps" "sv' = sv1" by simp_all
    with perform_live [OF Cons.prems(2) p] show ?thesis by (auto simp: same_plugins_Cons)
  next
    case False
    obtain lps1 sv1 where q: "run_request pf pid req (lps, sv) = (lps1, sv1)" by fastforce
    with Cons.prems(1) False have e: "lps' = lp # lps1" "sv' = sv1" by simp_all
    have "same_plugins lps lps1 \<and> live sv' \<subseteq> live sv \<union> held pf lps1 \<and> held pf lps \<subseteq> held pf lps1 \<and> room pf k sv'"
      by (rule Cons.IH) (use q e Cons.prems(2) in simp_all)
    then show ?thesis by (auto simp: e(1) same_plugins_Cons)
  qed
next
  case Nil
  then show ?case using bus_room_le [of _ _ "Suc k"] by fastforce
qed

lemma run_requests_accounted:
  "fold (\<lambda>(pid, req). run_request pf pid req) reqs (lps, sv) = (lps', sv') \<Longrightarrow> room pf (length reqs + k) sv \<Longrightarrow>
     same_plugins lps lps' \<and> live sv' \<subseteq> live sv \<union> held pf lps' \<and> held pf lps \<subseteq> held pf lps' \<and> room pf k sv'"
proof (induction reqs arbitrary: lps sv)
  case (Cons pr reqs)
  obtain pid req where pr: "pr = (pid, req)" by fastforce
  obtain lps1 sv1 where q: "run_request pf pid req (lps, sv) = (lps1, sv1)" by fastforce
  have "room pf (Suc (length reqs + k)) sv" using Cons.prems(2) by simp
  note s = run_request_accounted [OF q this]
  have "same_plugins lps1 lps' \<and> live sv' \<subseteq> live sv1 \<union> held pf lps' \<and> held pf lps1 \<subseteq> held pf lps' \<and> room pf k sv'"
    by (rule Cons.IH) (use s Cons.prems(1) q pr in simp_all)
  with s show ?case using same_plugins_trans [of lps lps1 lps'] by blast
qed simp

text \<open>Discovery: every id once, in an order that respects the dependencies.\<close>

lemma add_discovered_ids:
  "add_discovered l ms (found, seen) = Ok (found', seen') \<Longrightarrow> distinct (map plugin_id found) \<Longrightarrow> plugin_id ` set found \<subseteq> dom (map_of seen) \<Longrightarrow>
     distinct (map plugin_id found') \<and> plugin_id ` set found' \<subseteq> dom (map_of seen')"
proof (induction ms arbitrary: found seen)
  case (Cons m ms)
  then have n: "map_of seen (plugin_id m) = None" by (auto split: option.splits)
  with Cons.prems(3) have "plugin_id m \<notin> plugin_id ` set found" by (metis domIff subsetD)
  with Cons.prems n show ?case by (intro Cons.IH [of "found @ [m]" "AList.update (plugin_id m) l seen"]) (auto simp: update_conv')
qed simp

lemma discover_loaders_ids:
  "discover_loaders ls (found, seen) = Ok (found', seen') \<Longrightarrow> distinct (map plugin_id found) \<Longrightarrow> plugin_id ` set found \<subseteq> dom (map_of seen) \<Longrightarrow>
     distinct (map plugin_id found')"
proof (induction ls arbitrary: found seen)
  case (Cons l ls)
  then obtain ms where ms: "ld_discover l = Inr ms" by (auto split: sum.splits)
  with Cons.prems(1) obtain f s where "add_discovered (ld_name l) ms (found, seen) = Ok (f, s)" "discover_loaders ls (f, s) = Ok (found', seen')"
    by (auto simp: rbind_eq_Ok)
  then show ?case using Cons.IH [of f s] add_discovered_ids [of "ld_name l" ms found seen f s] Cons.prems(2,3) by simp
qed simp

lemma discover_all_order:
  assumes d: "discover_all iter m0 = Some (Ok (found, m))" and iter: "\<forall>d. mset (iter d) = mset d"
  shows "distinct (pm_load_order m)" "set (pm_load_order m) = plugin_id ` set found" "ordered_by (load_edges found) (pm_load_order m)"
    "pm_loaders m = pm_loaders m0" "pm_plugins m = pm_plugins m0" "pm_states m = pm_states m0"
proof -
  obtain seen where s: "discover_loaders (pm_loaders m0) ([], []) = Ok (found, seen)"
    and o: "resolve_load_order iter found = Some (Ok (pm_load_order m))"
    using d by (auto simp: discover_all_def split: sum.splits option.splits)
  have dist: "distinct (map plugin_id found)" using discover_loaders_ids [OF s] by simp
  have "distinct (pm_load_order m) \<and> set (pm_load_order m) = plugin_id ` set found \<and> ordered_by (load_edges found) (pm_load_order m)"
    using load_order_resolved [OF dist iter] o by (auto split: if_splits)
  then show "distinct (pm_load_order m)" "set (pm_load_order m) = plugin_id ` set found" "ordered_by (load_edges found) (pm_load_order m)"
    by simp_all
  show "pm_loaders m = pm_loaders m0" "pm_plugins m = pm_plugins m0" "pm_states m = pm_states m0"
    using d by (auto simp: discover_all_def split: sum.splits option.splits)
qed

lemma load_loaders_names: "set (snd (snd (load_loaders ls))) \<subseteq> ld_name ` set ls"
  by (induction ls) (auto split: prod.splits sum.splits)

lemma fold_load_fields:
  "pm_loaders (run_manager (fold (load_plugin pf create failed) pids r)) = pm_loaders (run_manager r)
   \<and> pm_loaded_loaders (run_manager (fold (load_plugin pf create failed) pids r)) = pm_loaded_loaders (run_manager r)"
  by (induction pids arbitrary: r) simp_all

text \<open>What holds of the plugins once they are loaded, and until they are shut down.\<close>

definition plugins_up :: "('t, 'e, 'h, 'net, 'l, 'p) run \<Rightarrow> bool" where
  "plugins_up r \<longleftrightarrow> distinct (map lp_id (pm_plugins (run_manager r)))
     \<and> (\<forall>lp \<in> set (pm_plugins (run_manager r)). pm_states (run_manager r) (lp_id lp) = Some Enabled)
     \<and> lp_loader_name ` set (pm_plugins (run_manager r)) \<subseteq> ld_name ` set (pm_loaders (run_manager r))
     \<and> set (pm_loaded_loaders (run_manager r)) \<subseteq> ld_name ` set (pm_loaders (run_manager r))"

abbreviation initial_run :: "('t, 'e, 'h, 'l, 'p) plugin_manager \<Rightarrow> ('t, 'e, 'h, 'net) services \<Rightarrow> ('t, 'e, 'h, 'net, 'l, 'p) run" where
  "initial_run m sv \<equiv> \<lparr>run_manager = m, run_services = sv, run_errors = [], run_calls = []\<rparr>"

lemma loaded_run:
  assumes d: "discover_all iter (plugin_manager_new loaders) = Some (Ok (found, m))" and iter: "\<forall>d. mset (iter d) = mset d"
    and h: "honest loaders"
    and rd: "r = load_and_enable_all pf create (initial_run m sv)"
  shows "map lp_id (pm_plugins (run_manager r)) = filter (starts m) (pm_load_order m)"
    and "is_plugin_loaded pid (run_manager r) \<longleftrightarrow> pid \<in> set (pm_load_order m) \<and> starts m pid"
    and "pm_loaded_loaders (run_manager r) = snd (snd (load_loaders loaders))" "pm_loaders (run_manager r) = loaders" "plugins_up r"
    and "accounted pf B ((\<Sum>pid \<leftarrow> pm_load_order m. request_count m pid) + k) (pm_plugins m) sv \<Longrightarrow>
      accounted pf B k (pm_plugins (run_manager r)) (run_services r)"
proof -
  note o = discover_all_order [OF d iter]
  have mf: "pm_loaders m = loaders" "pm_plugins m = []" "pm_states m = Map.empty" using o(4-6) by (simp_all add: plugin_manager_new_def)
  obtain errors failed good where l: "load_loaders loaders = (errors, failed, good)" by (rule prod_cases3)
  define r0 where "r0 = (initial_run m sv)\<lparr>run_errors := errors,
     run_manager := m\<lparr>pm_loaded_loaders := good\<rparr>, run_calls := map (\<lambda>l. CallOnLoad (ld_name l)) loaders\<rparr>"
  have r: "r = fold (load_plugin pf create failed) (pm_load_order m) r0"
    by (simp add: rd load_and_enable_all_def mf(1) l r0_def)
  have f: "failed = fst (snd (load_loaders (pm_loaders m)))" by (simp add: mf(1) l)
  have r0: "pm_loaders (run_manager r0) = pm_loaders m" "pm_loader_mapping (run_manager r0) = pm_loader_mapping m"
    "pm_plugins (run_manager r0) = []" "pm_states (run_manager r0) = Map.empty" "pm_loaded_loaders (run_manager r0) = good" "run_services r0 = sv"
    by (simp_all add: r0_def mf(2,3))
  have hm: "honest (pm_loaders m)" using h mf(1) by simp
  note s = load_all_states [OF f hm r0(1,2) o(1), of pf create, folded r, unfolded r0(3,4)]
  show ids: "map lp_id (pm_plugins (run_manager r)) = filter (starts m) (pm_load_order m)" using s by simp
  show en: "is_plugin_loaded pid (run_manager r) \<longleftrightarrow> pid \<in> set (pm_load_order m) \<and> starts m pid" for pid
    using s by (simp add: is_plugin_loaded_def)
  show ll: "pm_loaded_loaders (run_manager r) = snd (snd (load_loaders loaders))" and lo: "pm_loaders (run_manager r) = loaders"
    using fold_load_fields [of pf create failed "pm_load_order m" r0] by (simp_all add: r r0(1,5) mf(1) l)
  have "lp_id lp \<in> set (filter (starts m) (pm_load_order m))" if "lp \<in> set (pm_plugins (run_manager r))" for lp
    using that unfolding ids [symmetric] by simp
  then have "pm_states (run_manager r) (lp_id lp) = Some Enabled" if "lp \<in> set (pm_plugins (run_manager r))" for lp
    using en [of "lp_id lp"] that by (simp add: is_plugin_loaded_def)
  moreover have "lp_loader_name ` set (pm_plugins (run_manager r)) \<subseteq> ld_name ` set loaders" using s mf(1) by auto
  ultimately show "plugins_up r" using o(1) load_loaders_names [of loaders] by (simp add: plugins_up_def ids ll lo)
  assume "accounted pf B ((\<Sum>pid \<leftarrow> pm_load_order m. request_count m pid) + k) (pm_plugins m) sv"
  then show "accounted pf B k (pm_plugins (run_manager r)) (run_services r)"
    unfolding r using load_all_accounted [OF f r0(1,2), of pf B "pm_load_order m" k create] by (simp add: r0(3,6) mf(2))
qed

text \<open>Shutdown of plugins that are up.\<close>

lemma shutdown_run:
  assumes up: "plugins_up r"
  defines "lps \<equiv> rev (pm_plugins (run_manager r))"
  shows "accounted pf B k (pm_plugins (run_manager r)) (run_services r) \<Longrightarrow> live (run_services (shutdown pf r)) \<subseteq> B"
    and "run_calls (shutdown pf r) = run_calls r @ concat (map (\<lambda>lp. [CallOnDisable (lp_id lp), CallCleanup (lp_id lp)]) lps)
       @ map (\<lambda>lp. CallUnload (lp_loader_name lp) (lp_id lp)) lps @ map CallOnShutdown (rev (pm_loaded_loaders (run_manager r)))"
    and "pm_states (run_manager (shutdown pf r)) =
       (\<lambda>p. if p \<in> lp_id ` set lps then Some Disabled else pm_states (run_manager r) p)"
proof -
  define r1 where "r1 = r\<lparr>run_manager := (run_manager r)\<lparr>pm_plugins := []\<rparr>\<rparr>"
  have acc: "accounted pf B k (pm_plugins (run_manager r)) (run_services r) \<Longrightarrow> accounted pf B k lps (run_services r1)"
    by (simp add: accounted_def lps_def r1_def held_def disable_count_def rev_map [symmetric])
  have dist: "distinct (map lp_id lps)" using up by (simp add: plugins_up_def lps_def rev_map [symmetric])
  have "pm_states (run_manager r1) (lp_id lp) = Some Enabled" if "lp \<in> set lps" for lp
    using up that by (simp add: plugins_up_def lps_def r1_def)
  note dis = disable_all [OF dist this, of pf B k]
  define r2 where "r2 = fold (disable_plugin pf) lps r1"
  note dis = dis [folded r2_def]
  have r2: "pm_loaders (run_manager r2) = pm_loaders (run_manager r)" "pm_loaded_loaders (run_manager r2) = pm_loaded_loaders (run_manager r)"
    using dis by (simp_all add: r1_def)
  have unl: "fold unload_plugin lps r2 = r2\<lparr>run_calls := run_calls r2 @ map (\<lambda>lp. CallUnload (lp_loader_name lp) (lp_id lp)) lps\<rparr>"
    by (rule unload_all) (use up in \<open>auto simp: r2 plugins_up_def lps_def\<close>)
  define r3 where "r3 = (fold unload_plugin lps r2)\<lparr>run_manager := (run_manager r2)\<lparr>pm_loaded_loaders := []\<rparr>\<rparr>"
  have names: "fold shutdown_loader (rev (pm_loaded_loaders (run_manager r))) r3 =
      r3\<lparr>run_calls := run_calls r3 @ map CallOnShutdown (rev (pm_loaded_loaders (run_manager r)))\<rparr>"
    by (rule shutdown_loaders) (use up in \<open>auto simp: r3_def r2 plugins_up_def\<close>)
  have "shutdown pf r = fold shutdown_loader (rev (pm_loaded_loaders (run_manager r))) r3"
    by (simp add: shutdown_def Let_def r3_def unl r2 flip: lps_def r1_def r2_def)
  then have sh: "shutdown pf r = r3\<lparr>run_calls := run_calls r3 @ map CallOnShutdown (rev (pm_loaded_loaders (run_manager r)))\<rparr>"
    using names by simp
  show "live (run_services (shutdown pf r)) \<subseteq> B" if "accounted pf B k (pm_plugins (run_manager r)) (run_services r)"
    using dis acc [OF that] by (simp add: sh r3_def unl)
  show "run_calls (shutdown pf r) = run_calls r @ concat (map (\<lambda>lp. [CallOnDisable (lp_id lp), CallCleanup (lp_id lp)]) lps)
       @ map (\<lambda>lp. CallUnload (lp_loader_name lp) (lp_id lp)) lps @ map CallOnShutdown (rev (pm_loaded_loaders (run_manager r)))"
    using dis by (simp add: sh r3_def unl r1_def)
  show "pm_states (run_manager (shutdown pf r)) = (\<lambda>p. if p \<in> lp_id ` set lps then Some Disabled else pm_states (run_manager r) p)"
    using dis by (auto simp: sh r3_def r1_def)
qed

text \<open>The steps between start and shutdown keep the account.\<close>

lemma providers_accounted:
  assumes acc: "accounted pf B k lps0 sv" and c: "collect_limbo_handlers lps0 = (hs, lps)" "collect_config_providers lps = (ps, lps1)"
    and a: "activate_plugin_providers pf ps tok (sv_router sv) = (results, tok', router)" and lps2: "lps2 = store_provider_cleanup results lps1"
  shows "same_plugins lps0 lps2 \<and> accounted pf B k lps2 (sv\<lparr>sv_router := router\<rparr>)"
proof -
  note s1 = collect_limbo_same [OF c(1), of pf] and s2 = collect_providers_same [OF c(2), of pf] and s3 = activate_dom [OF a]
    and s4 = store_cleanup_held [of lps1 results pf, folded lps2]
  have same: "same_plugins lps0 lps2"
    by (rule same_plugins_trans [OF conjunct1 [OF s1] same_plugins_trans [OF conjunct1 [OF s2] conjunct1 [OF s4]]])
  have h: "held pf lps0 \<subseteq> held pf lps2" using s1 s2 s4 by simp
  have "set (map lp_id lps1) = set (map lp_id lps)" using s2 same_pluginsD(1) [of lps lps1] by simp
  moreover have "set (map fst results) = set (map fst ps)" using s3 by simp
  ultimately have "fst ` set results \<subseteq> lp_id ` set lps1" using s2 by simp
  then have res: "(\<Union>res \<in> set results. Server ` set (ap_config_ids (snd res))) \<subseteq> held pf lps2" using s4 by simp
  have srv: "pid \<in> dom (map_of (router_configs (sv_router sv))) \<or> Server pid \<in> held pf lps2"
    if "pid \<in> dom (map_of (router_configs router))" for pid
  proof -
    have "pid \<in> dom (map_of (router_configs (sv_router sv))) \<union> (\<Union>res \<in> set results. set (ap_config_ids (snd res)))"
      using conjunct1 [OF s3] that by (rule subsetD)
    then show ?thesis using res by blast
  qed
  have "live (sv\<lparr>sv_router := router\<rparr>) \<subseteq> live sv \<union> held pf lps2"
  proof
    fix x assume "x \<in> live (sv\<lparr>sv_router := router\<rparr>)"
    then show "x \<in> live sv \<union> held pf lps2" using srv by (cases x) (auto simp: live_def)
  qed
  moreover have "live sv \<subseteq> B \<union> held pf lps2" using acc h unfolding accounted_def by blast
  ultimately have "live (sv\<lparr>sv_router := router\<rparr>) \<subseteq> B \<union> held pf lps2" by blast
  then show ?thesis using same acc same_pluginsD(2) [OF same] by (simp add: accounted_def)
qed

lemma requests_accounted:
  assumes "accounted pf B (length reqs + k) lps sv" "fold (\<lambda>(pid, req). run_request pf pid req) reqs (lps, sv) = (lps', sv')"
  shows "same_plugins lps lps' \<and> accounted pf B k lps' sv'"
proof -
  have "room pf (length reqs + (k + disable_count lps)) sv" using assms(1) by (simp add: accounted_def add_ac)
  note s = run_requests_accounted [OF assms(2) this]
  have "live sv \<subseteq> B \<union> held pf lps" using assms(1) by (simp add: accounted_def)
  then have "live sv' \<subseteq> B \<union> held pf lps'" using s by blast
  moreover have "disable_count lps' = disable_count lps" using s same_pluginsD(2) by blast
  ultimately show ?thesis using s by (simp add: accounted_def)
qed

lemma plugins_up_same:
  assumes up: "plugins_up r" and same: "same_plugins (pm_plugins (run_manager r)) lps"
  shows "plugins_up (r\<lparr>run_manager := (run_manager r)\<lparr>pm_plugins := lps\<rparr>, run_services := sv\<rparr>)"
proof -
  note s = same_pluginsD [OF same]
  have "pm_states (run_manager r) (lp_id lp) = Some Enabled" if "lp \<in> set lps" for lp
  proof -
    have "lp_id lp \<in> set (map lp_id (pm_plugins (run_manager r)))" using that unfolding s(1) [symmetric] by simp
    then obtain lp' where "lp' \<in> set (pm_plugins (run_manager r))" "lp_id lp = lp_id lp'" by auto
    then show ?thesis using up by (simp add: plugins_up_def)
  qed
  then show ?thesis using up unfolding plugins_up_def by (simp add: s(1,3))
qed

section \<open>Properties\<close>


text \<open>C25. The plugins come up in an order in which every plugin follows the dependencies that are present,
  each exactly once and exactly those whose loader is up, that load and whose \<open>on_enable\<close> succeeds. The shutdown takes them
  down in the reverse order, each with its cleanup also when \<open>on_disable\<close> fails, then unloads them in the reverse order, then
  shuts down in reverse the loaders that came up; afterwards no plugin is enabled.\<close>

theorem plugin_lifecycle:
  assumes "discover_all iter (plugin_manager_new loaders) = Some (Ok (found, m))" "\<forall>d. mset (iter d) = mset d" "honest loaders"
    and "r = load_and_enable_all pf create (initial_run m sv)" "lps = rev (pm_plugins (run_manager r))"
  shows "map plugin_id (list_plugins (run_manager r)) = filter (starts m) (pm_load_order m)
    \<and> distinct (pm_load_order m) \<and> set (pm_load_order m) = plugin_id ` set found \<and> ordered_by (load_edges found) (pm_load_order m)
    \<and> (is_plugin_loaded pid (run_manager r) \<longleftrightarrow> pid \<in> plugin_id ` set found \<and> starts m pid)
    \<and> run_calls (shutdown pf r) = run_calls r @ concat (map (\<lambda>lp. [CallOnDisable (lp_id lp), CallCleanup (lp_id lp)]) lps)
        @ map (\<lambda>lp. CallUnload (lp_loader_name lp) (lp_id lp)) lps @ map CallOnShutdown (rev (snd (snd (load_loaders loaders))))
    \<and> \<not> is_plugin_loaded pid (run_manager (shutdown pf r))"
proof -
  note lr = loaded_run [OF assms(1-4)] and o = discover_all_order [OF assms(1,2)] and sh = shutdown_run [OF loaded_run(5) [OF assms(1-4)], folded assms(5)]
  have "map plugin_id (list_plugins (run_manager r)) = map lp_id (pm_plugins (run_manager r))" by (simp add: list_plugins_def)
  then have ids: "map plugin_id (list_plugins (run_manager r)) = filter (starts m) (pm_load_order m)" unfolding lr(1) .
  have loaded: "is_plugin_loaded pid (run_manager r) \<longleftrightarrow> pid \<in> plugin_id ` set found \<and> starts m pid" unfolding lr(2) o(2) ..
  have "lp_id ` set lps = set (map lp_id (pm_plugins (run_manager r)))" unfolding assms(5) by simp
  also have "\<dots> = {p \<in> plugin_id ` set found. starts m p}" unfolding lr(1) o(2) [symmetric] by auto
  finally have "pm_states (run_manager (shutdown pf r)) pid \<noteq> Some Enabled"
    using loaded unfolding sh(3) is_plugin_loaded_def by simp
  then have "\<not> is_plugin_loaded pid (run_manager (shutdown pf r))" unfolding is_plugin_loaded_def .
  then show ?thesis by (intro conjI ids o(1-3) loaded sh(2) [unfolded lr(3)])
qed

definition sample_metadata :: "string \<Rightarrow> plugin_dependency list \<Rightarrow> plugin_metadata" where
  "sample_metadata pid deps = \<lparr>plugin_id = pid, plugin_name = pid, plugin_version = ''1'', plugin_authors = [],
     plugin_description = None, plugin_dependencies = deps\<rparr>"

definition sample_provider :: config_provider where
  "sample_provider = \<lparr>cp_type = ''http'', cp_load_initial = Ok [\<lparr>asc_id = ''s'', asc_network = None, asc_addresses = [],
     asc_domains = [''s.example''], asc_proxy_mode = ApiPassthrough, asc_limbo_handlers = [], asc_max_players = 0,
     asc_disconnect_message = None, asc_send_proxy_protocol = False, asc_has_server_manager = False\<rparr>]\<rparr>"

type_synonym sample_plugin = "(nat, string, nat, nat, config_provider) plugin"

definition sample_a :: sample_plugin where
  "sample_a = \<lparr>pl_metadata = sample_metadata ''a'' [\<lparr>dep_id = ''b'', dep_optional = False\<rparr>],
     pl_on_enable = ([ReqSubscribe 0 NORMAL (SyncHandler rev), ReqRegister ''Hi'' [''h''] [] 7, ReqConfigProvider sample_provider], Ok ()),
     pl_on_disable = ([ReqSchedule (DelayTask 5)], Err (CustomError ''busy''))\<rparr>"

definition sample_b :: sample_plugin where
  "sample_b = \<lparr>pl_metadata = sample_metadata ''b'' [],
     pl_on_enable = ([ReqSchedule (IntervalTask 9)], Ok ()), pl_on_disable = ([], Ok ())\<rparr>"

definition sample_c :: sample_plugin where
  "sample_c = \<lparr>pl_metadata = sample_metadata ''c'' [\<lparr>dep_id = ''a'', dep_optional = True\<rparr>],
     pl_on_enable = ([ReqSubscribe 1 FIRST (SyncHandler rev)], Err (CustomError ''no'')), pl_on_disable = ([], Ok ())\<rparr>"

definition sample_factories :: "(nat, string, nat, nat, config_provider) factories" where
  "sample_factories =
     [(''a'', \<lparr>fc_metadata = pl_metadata sample_a, fc_create = sample_a\<rparr>), (''b'', \<lparr>fc_metadata = pl_metadata sample_b, fc_create = sample_b\<rparr>),
      (''c'', \<lparr>fc_metadata = pl_metadata sample_c, fc_create = sample_c\<rparr>)]"

definition sample_manager :: "(nat, string, nat, nat, config_provider) plugin_manager" where
  "sample_manager = plugin_manager_new [static_loader id sample_factories]"

definition sample_found :: "plugin_metadata list" where
  "sample_found = [pl_metadata sample_a, pl_metadata sample_b, pl_metadata sample_c]"

definition sample_ordered :: "(nat, string, nat, nat, config_provider) plugin_manager" where
  "sample_ordered = sample_manager\<lparr>pm_load_order := [''b'', ''a'', ''c''],
     pm_loader_mapping := [(''a'', ''static''), (''b'', ''static''), (''c'', ''static'')]\<rparr>"

definition sample_platform :: "(nat, unit) platform" where
  "sample_platform = \<lparr>pf_lower = id, pf_types = rev, pf_packets = rev, pf_walk = id\<rparr>"

definition sample_services :: "(nat, string, nat, unit) services" where
  "sample_services = \<lparr>sv_bus = bus_new, sv_commands = command_manager_new, sv_scheduler = scheduler_new,
     sv_router = router_new, sv_cancelled = []\<rparr>"

lemmas sample_defs = sample_metadata_def sample_a_def sample_b_def sample_c_def sample_factories_def sample_manager_def
  sample_found_def sample_ordered_def

lemma sample_discovered: "discover_all id sample_manager = Some (Ok (sample_found, sample_ordered))"
proof -
  have "resolve_load_order id sample_found = Some (Ok [''b'', ''a'', ''c''])" by code_simp
  moreover have "discover_loaders (pm_loaders sample_manager) ([], []) = Ok (sample_found, pm_loader_mapping sample_ordered)"
    by (simp add: sample_defs plugin_manager_new_def static_loader_def static_discover_def rbind_def)
  ultimately show ?thesis by (simp add: discover_all_def sample_ordered_def)
qed

lemma sample_honest: "honest [static_loader id sample_factories]"
  by (auto simp: honest_def static_loader_def static_load_def sample_defs split: if_splits)

lemma sample_room: "k < 2 ^ 64 \<Longrightarrow> room sample_platform k sample_services"
  unfolding bus_room_def sample_platform_def sample_services_def using bus_refines_new by (fastforce intro: exI [of _ "([], 1)"])


theorem plugin_lifecycle_witness:
  "map plugin_id (list_plugins (run_manager (load_and_enable_all sample_platform (create_context [] (\<lambda>_. None))
     (initial_run sample_ordered sample_services)))) = [''b'', ''a'']"
proof -
  have "filter (starts sample_ordered) (pm_load_order sample_ordered) = [''b'', ''a'']" by code_simp
  then show ?thesis
    using plugin_lifecycle [OF sample_discovered [unfolded sample_manager_def] _ sample_honest refl refl, of sample_platform
        "create_context [] (\<lambda>_. None)" sample_services] by simp
qed

text \<open>
  What the design leaves open. A command whose registration the built-in guard refused is tracked
  all the same, and the cleanup then removes the built-in command; a server that a plugin's config
  provider adds while the proxy runs is tracked nowhere, and stays after the cleanup; a finished
  delayed task stays in the scheduler's map.
\<close>

lemma refused_command_removes_builtin:
  assumes "cmd (sv_commands sv) (pf_lower pf name) = Some c" "rc_is_builtin c"
    and "(ctx', sv') = perform pf (ReqRegister name aliases description h) (context_impl_new pid caps, sv)"
  shows "cmd (sv_commands sv') (pf_lower pf name) = Some c"
    and "cmd (sv_commands (snd (cleanup pf (ctx', sv')))) (pf_lower pf name) = None"
proof -
  have "sv' = sv\<lparr>sv_commands := sv_commands sv\<rparr>" "pc_commands ctx' = [name]"
    using assms by (auto simp: tracking_register_def register_with_plugin_id_def context_impl_new_def)
  then show "cmd (sv_commands sv') (pf_lower pf name) = Some c"
    and "cmd (sv_commands (snd (cleanup pf (ctx', sv')))) (pf_lower pf name) = None"
    using assms(1) by (simp_all add: cleanup_def cmd_unregister)
qed

lemma added_server_stays:
  assumes "make_provider_id prefix (asc_id c) \<notin> set (pc_provider_ids ctx)"
    and "sv' = sv\<lparr>sv_router := receive_event pf (sender_event prefix (PluginAdded c)) (sv_router sv)\<rparr>"
  shows "Server (make_provider_id prefix (asc_id c)) \<in> live (snd (cleanup pf (ctx, sv')))"
  using assms server_releases.release_all [OF TrueI, of "pf_walk pf" "pc_provider_ids ctx" "sv_router sv'"]
  by (auto simp: cleanup_def live_def router_add_fields)

lemma finished_delay_stays: "(h, s') = delay d s \<Longrightarrow> h \<in> task_handles (snd (delay_finished h (s, s')))"
  using schedule_tasks [of "DelayTask d" s] by (simp add: delay_finished_def delay_def) (metis fst_conv insertI1 snd_conv)

text \<open>The capabilities a configuration can grant.\<close>

lemma from_kebab_to_kebab: "from_kebab (to_kebab c) = Some c"
  by (cases c) (simp_all add: from_kebab_def)

lemma config_never_transport_filter: "CapTransportFilter \<notin> set (fst (from_config_strings ss))"
proof -
  have "CapTransportFilter \<notin> set (fst (fold (\<lambda>s (caps, rejected).
             case from_kebab s of
               None \<Rightarrow> (caps, rejected @ [s])
             | Some c \<Rightarrow> if c = CapTransportFilter then (caps, rejected @ [s]) else (insert_capability c caps, rejected))
       ss (caps, rejected)))" if "CapTransportFilter \<notin> set caps" for caps rejected
    using that by (induction ss arbitrary: caps rejected) (auto simp: insert_capability_def split: option.splits)
  then show ?thesis by (simp add: from_config_strings_def baseline_def insert_capability_def)
qed

end
