(* ===== verification/Spec2Isabelle.thy ===== *)
theory Spec2Isabelle
  imports Frames Version Packets PacketRegistry Config Routing Rewrite Ordering Sessions Bans ServerManager Legacy Pipeline EventBus Text Commands Components ProxyLoop Limbo Plugins
begin

text \<open>
  A verification development for Infrarust, a reverse proxy for Minecraft servers.

  \<^bold>\<open>The program.\<close> A client connects and sends a handshake with the host name it was given. The proxy reads it through a
  pipeline of middlewares: the address is filtered, checked against the bans and rate limited, the handshake and for a
  login the login start are parsed, the domain router finds the configuration of a server, bans are checked again by name,
  and a managed server that sleeps is started. The connection is then given to a handler, which connects to the backend,
  rewrites the handshake if the server asks for it, and relays packets in the proxy loop until one side ends. Players are
  kept in a connection registry; plugins hear of events and packets over an event bus, register commands, codec filters,
  providers of configurations and limbo handlers, and are started and stopped by the plugin manager. Limbo is the place
  where the proxy itself plays the server for a player whom a plugin holds.

  \<^bold>\<open>Conventions.\<close> Machine integers are words of their width where they can wrap around, lengths and times are natural
  numbers. A \<open>Result\<close> is a sum with the error on the left (\<open>Ok\<close>, \<open>Err\<close>, \<open>rbind\<close>, and \<open>dbind\<close> for readers), a panic is a
  value of its own where it can happen. A string is its UTF-8 bytes. Shared state (\<open>DashMap\<close>, \<open>RwLock\<close>, atomics) is a
  record passed along; where functions run concurrently they are cut at their awaits, and the theorems range over every
  sequence of the pieces. Code from other crates is an argument.

  \<^bold>\<open>Theories\<close>, with the sources they translate. Paths are relative to the crate: \<open>infrarust_protocol/src\<close> for the first
  group, \<open>infrarust_config/src\<close> for \<open>Config\<close>, \<open>infrarust_server_manager/src\<close> for \<open>ServerManager\<close>, \<open>infrarust-api/src\<close> for
  \<open>Components\<close> and parts of \<open>Bans\<close>, \<open>EventBus\<close>, \<open>Commands\<close>, \<open>Plugins\<close>, and \<open>infrarust-core/src\<close> for the rest.
  \<^item> \<open>Prelude\<close>: results, bytes and words, and the locales \<open>lossless_codec\<close> and \<open>packet_codec\<close>, the contract of every encoder
    and decoder: what is written is read back and what follows is left alone.
  \<^item> \<open>Varint\<close> (\<open>codec/varint.rs\<close>, \<open>codec/varlong.rs\<close>, \<open>error.rs\<close>): \<open>varint_encode\<close>, the decoders from slices and readers
    and the partial one. The branchless encoder is LEB128 and every decoder inverts it.
  \<^item> \<open>Wire\<close> (\<open>codec/types.rs\<close>, \<open>codec/mod.rs\<close>): the primitive types; strings with their limit on characters.
  \<^item> \<open>Frames\<close> (\<open>io/\<close>): \<open>append_frame\<close>, \<open>append_raw\<close>, \<open>try_next_frame\<close>. Round trip of streams in both compression modes,
    independence of the way reads cut the bytes, limits.
  \<^item> \<open>Version\<close> (\<open>version.rs\<close>) and \<open>Packets\<close> (\<open>packets/handshake.rs\<close>, \<open>status.rs\<close>, \<open>login.rs\<close>): each packet reads back in every
    version what the version carries of it.
  \<^item> \<open>PacketRegistry\<close> (\<open>registry/\<close>): the registry, the builder and the table of packet ids, with the proof that ids are
    unique in every version.
  \<^item> \<open>Legacy\<close> (\<open>legacy/\<close>): pings and handshakes of clients before 1.7, with UTF-16 written out.
  \<^item> \<open>Config\<close> (\<open>server.rs\<close>, \<open>validation.rs\<close>, \<open>domain.rs\<close>, \<open>types/\<close>): server configurations and what validation accepts.
  \<^item> \<open>Routing\<close> (\<open>routing/domain_router.rs\<close>, \<open>provider/registry.rs\<close>, \<open>util/mod.rs\<close>, and \<open>DomainIndex\<close>): the router as a
    record of three maps, its operations, the event loop of the providers. The invariant ties the maps; lookups are
    sound in every history and complete when providers do not claim each other's domains.
  \<^item> \<open>Rewrite\<close> (\<open>util/domain_rewrite.rs\<close>, \<open>pipeline/types.rs\<close>, \<open>error.rs\<close>): the handshake sent to the backend.
  \<^item> \<open>Ordering\<close> (\<open>filter/ordering.rs\<close>, \<open>filter/registry_base.rs\<close>, \<open>plugin/dependency.rs\<close>): two topological sorts. The locales
    \<open>kahn\<close> and \<open>kahn_priority\<close> hold the theory of Kahn's algorithm once and are interpreted on both.
  \<^item> \<open>Sessions\<close> (\<open>player/mod.rs\<close>, \<open>registry.rs\<close>): player sessions, their shared cells and the two indexes of the registry.
  \<^item> \<open>Bans\<close> (\<open>ban/\<close>, \<open>services/ban_service.rs\<close>): storage, audit log, persistence, the manager that kicks; the storage
    refines a map from targets to bans.
  \<^item> \<open>ServerManager\<close> (all of its crate but the providers): states, waiting connections, polls and automatic shutdown.
  \<^item> \<open>Pipeline\<close> (\<open>pipeline/\<close>, \<open>middleware/\<close>, parts of \<open>server.rs\<close>): every middleware, the two pipelines, the choice of the
    handler. The locale \<open>pipeline_keeps\<close> carries invariants through a pipeline.
  \<^item> \<open>EventBus\<close> (\<open>event_bus/\<close>): subscription, firing and removal; refines a list of subscriptions.
  \<^item> \<open>Text\<close> and \<open>Commands\<close> (\<open>console/parser.rs\<close>, \<open>services/command_manager.rs\<close>, \<open>permissions/mod.rs\<close>): trimming and words of
    typed lines, commands with their aliases, permissions.
  \<^item> \<open>Components\<close> (\<open>types/component.rs\<close>): text components, \<open>to_json\<close>, \<open>from_json\<close>, \<open>to_nbt_network\<close>, \<open>from_legacy\<close>, templates.
    A reader of JSON and one of NBT are defined beside the code to state that what is written is well formed.
  \<^item> \<open>ProxyLoop\<close> (\<open>session/proxy_loop.rs\<close>, \<open>session/chat_utils.rs\<close>, the bridges, \<open>player/packets.rs\<close>, \<open>filter/codec_chain.rs\<close>,
    the packets of \<open>packets/play/\<close> that it reads and builds, the writing side of \<open>limbo/registry_cache.rs\<close>). The locale
    \<open>session_relation\<close> carries a relation through every step of the loop; it is interpreted for the protocol states and
    for the captured frames.
  \<^item> \<open>Limbo\<close> (\<open>limbo/handler_chain.rs\<close>, \<open>keepalive.rs\<close>, \<open>chat.rs\<close>, \<open>session.rs\<close>, \<open>engine.rs\<close>, \<open>registry.rs\<close>, \<open>registry_cache.rs\<close>).
  \<^item> \<open>Plugins\<close> (\<open>services/scheduler.rs\<close>, \<open>plugin/\<close>, \<open>provider/plugin_adapter.rs\<close>, the start of plugins in \<open>main.rs\<close>): contexts,
    tracking and the manager. The locale \<open>releases\<close> says what a cleanup has to release; it is interpreted for listeners,
    commands, tasks and servers.

  \<^bold>\<open>What is shown across components.\<close> \<open>Pipeline\<close> composes parsing, routing, bans and the server manager: a connection
  reaches a login handler only past every check, and the bytes handed on are those the client sent. \<open>ProxyLoop\<close> composes
  the packet registry, packets, filters, event bus, commands, components and sessions: the relay changes nothing it is not
  asked to change, both sides keep the same state and compression. \<open>Limbo\<close> runs on the same bridges, packets and filters.
  \<open>Plugins\<close> composes the load order, event bus, commands, scheduler, router and providers: nothing of a plugin survives
  the shutdown. \<open>Bans\<close> uses the sessions for kicks.

  \<^bold>\<open>Parameters.\<close> Compression (the law: inflating what was deflated gives it back), lower-casing of Unicode text, matching
  of wildcard patterns, the order in which a concurrent map is walked, the text form of UUIDs, parsers of JSON, the rate
  limiter, the outcome of file operations and of writes to sockets, the answers of server providers, codec filters and
  handlers of plugins, clock and random readings. Each law that a theorem needs is one of its assumptions, and its
  witness has a concrete function that satisfies it.

  \<^bold>\<open>Bounds and fuel.\<close> Loops of the code are structural recursion or have termination proofs (the topological sorts, the
  parsers, \<open>from_json_value\<close>). Loops fed from outside (the proxy loop, the hold loop, the polls) are recursion over the
  list of what arrives, so they end with it and the theorems hold for every list. Fuel occurs in the two readers that
  \<open>Components\<close> defines for its statements, \<open>read_json\<close> and \<open>read_nbt_network\<close>; it is the length of the input, every step
  uses up a byte, and the round trips prove that it is enough.

  \<^bold>\<open>Not modelled.\<close>
  \<^item> Connection handlers (\<open>handler/\<close>), transport, telemetry, the accept loop, the console's input and the wiring in
    \<open>server.rs\<close>: sequences of socket operations and spawned tasks of the async runtime around the modelled parts.
  \<^item> Encryption, authentication and forwarding secrets: calls of cryptographic and HTTP libraries.
  \<^item> World, commands-tree and registry packets, NBT and chunk data of the limbo world: tables and encodings that are not
    looked into by the proxy; they pass through the relay as opaque frames.
  \<^item> Server providers (child processes, HTTP), the Docker and file providers (API client, file watching).
  \<^item> Reading of configuration files and migration from the old format: serde attributes and TOML text.
  \<^item> The WASM loader, the plugin SDK and macros: bindings around a runtime; for the manager they are a loader, which is a
    parameter.
  \<^item> The bundled plugins: users of the API that the contexts provide; they are the plugins that \<open>Plugins\<close> quantifies over.
\<close>

end
